(* ===== verification/Go_Prelude.thy ===== *)
theory Go_Prelude
  imports Main "HOL-Library.Word"
begin

text \<open>
  Shared vocabulary of the development: the outcome of a Go function (a value, an error,
  a panic), the 64-bit \<^verbatim>\<open>int\<close> of Go with its wrap-around and truncating division, byte
  slices with their capacity, the big-endian integers of \<^verbatim>\<open>encoding/binary\<close>, and
  the generic lemmas about them that the components use. The interface
  \<open>be_codec\<close> states what the codecs rely on; it is interpreted at 16, 32 and 64 bits.
\<close>

unbundle bit_operations_syntax

named_theorems go_simps
named_theorems layout_simps

section \<open>Outcomes\<close>

type_synonym byte = "8 word"
type_synonym u16 = "16 word"
type_synonym u32 = "32 word"
type_synonym u64 = "64 word"

text \<open>
  A call of a Go function returning \<^verbatim>\<open>(T, error)\<close> either returns a value, returns a
  non-nil error, or panics.
\<close>

datatype ('e, 'a) go = Ret 'a | Fail 'e | Panic

fun go_bind :: "('e, 'a) go \<Rightarrow> ('a \<Rightarrow> ('e, 'b) go) \<Rightarrow> ('e, 'b) go" where
  "go_bind (Ret a) f = f a"
| "go_bind (Fail e) f = Fail e"
| "go_bind Panic f = Panic"

fun go_map_err :: "('e \<Rightarrow> 'f) \<Rightarrow> ('e, 'a) go \<Rightarrow> ('f, 'a) go" where
  "go_map_err f (Ret a) = Ret a"
| "go_map_err f (Fail e) = Fail (f e)"
| "go_map_err f Panic = Panic"

lemma go_bind_Ret_iff: "go_bind m f = Ret b \<longleftrightarrow> (\<exists>a. m = Ret a \<and> f a = Ret b)"
  by (cases m) auto

lemma go_bind_Panic_iff: "go_bind m f = Panic \<longleftrightarrow> m = Panic \<or> (\<exists>a. m = Ret a \<and> f a = Panic)"
  by (cases m) auto

text \<open>
  A method with a pointer receiver keeps what it already wrote when it returns early:
  \<open>with_recv\<close> carries the receiver along.
\<close>

definition with_recv ::
    "'s \<Rightarrow> ('e, 'a) go \<Rightarrow> ('a \<Rightarrow> 's \<times> ('e, 'b) go) \<Rightarrow> 's \<times> ('e, 'b) go" where
  "with_recv r m f =
     (case m of Ret a \<Rightarrow> f a | Fail e \<Rightarrow> (r, Fail e) | Panic \<Rightarrow> (r, Panic))"

lemma with_recv_simps [simp]:
  "with_recv r (Ret a) f = f a"
  "with_recv r (Fail e) f = (r, Fail e)"
  "with_recv r Panic f = (r, Panic)"
  by (simp_all add: with_recv_def)

lemma with_recv_Ret_iff:
  "snd (with_recv r m f) = Ret b \<longleftrightarrow> (\<exists>a. m = Ret a \<and> snd (f a) = Ret b)"
  by (cases m) auto

lemma with_recv_eq_Ret:
  "with_recv r m f = (s, Ret b) \<longleftrightarrow> (\<exists>a. m = Ret a \<and> f a = (s, Ret b))"
  by (cases m) auto

lemma go_map_err_iff [simp]:
  "go_map_err g m = Ret a \<longleftrightarrow> m = Ret a"
  "go_map_err g m = Panic \<longleftrightarrow> m = Panic"
  by (cases m; simp)+

section \<open>Go integers\<close>

text \<open>The \<^verbatim>\<open>int\<close> of a 64-bit platform: signed, with wrap-around.\<close>

definition wrap64 :: "int \<Rightarrow> int" where
  "wrap64 i = (i + 2 ^ 63) mod 2 ^ 64 - 2 ^ 63"

definition max_int64 :: int where
  "max_int64 = 2 ^ 63 - 1"

definition min_int64 :: int where
  "min_int64 = - (2 ^ 63)"

lemma wrap64_id: "min_int64 \<le> i \<Longrightarrow> i \<le> max_int64 \<Longrightarrow> wrap64 i = i"
  unfolding wrap64_def min_int64_def max_int64_def by simp

lemma wrap64_bounds: "min_int64 \<le> wrap64 i \<and> wrap64 i \<le> max_int64"
  unfolding wrap64_def min_int64_def max_int64_def
  using pos_mod_bound [of "2 ^ 64 :: int" "i + 2 ^ 63"]
    pos_mod_sign [of "2 ^ 64 :: int" "i + 2 ^ 63"]
  by simp

lemma wrap64_add: "wrap64 (wrap64 a + b) = wrap64 (a + b)"
  unfolding wrap64_def by (simp add: mod_simps algebra_simps)

lemma wrap64_add_right: "wrap64 (b + wrap64 a) = wrap64 (b + a)"
  using wrap64_add [of a b] by (simp add: add.commute)

text \<open>Division and remainder truncate towards zero; the remainder has the dividend's sign.\<close>

definition go_quot :: "int \<Rightarrow> int \<Rightarrow> int" where
  "go_quot a b = sgn a * sgn b * (\<bar>a\<bar> div \<bar>b\<bar>)"

definition go_rem :: "int \<Rightarrow> int \<Rightarrow> int" where
  "go_rem a b = sgn a * (\<bar>a\<bar> mod \<bar>b\<bar>)"

lemma go_rem_nonneg: "0 \<le> a \<Longrightarrow> go_rem a b = a mod \<bar>b\<bar>"
  by (cases "a = 0") (auto simp: go_rem_def sgn_if)

lemma go_rem_bounds: "0 \<le> a \<Longrightarrow> 0 < b \<Longrightarrow> 0 \<le> go_rem a b \<and> go_rem a b < b"
  by (simp add: go_rem_nonneg)

lemma go_rem_abs_less:
  assumes "b \<noteq> 0"
  shows "\<bar>go_rem a b\<bar> < \<bar>b\<bar>"
proof -
  have "\<bar>a\<bar> mod \<bar>b\<bar> < \<bar>b\<bar>" using assms by simp
  moreover have "0 \<le> \<bar>a\<bar> mod \<bar>b\<bar>" using assms by simp
  ultimately show ?thesis by (auto simp: go_rem_def sgn_if)
qed

text \<open>Indexing a Go slice of values with a Go \<^verbatim>\<open>int\<close>: out of range is a panic.\<close>

definition go_index :: "'a list \<Rightarrow> int \<Rightarrow> ('e, 'a) go" where
  "go_index xs i = (if 0 \<le> i \<and> i < int (length xs) then Ret (xs ! nat i) else Panic)"

lemma go_index_Ret: "go_index xs i = Ret x \<Longrightarrow> x \<in> set xs"
  by (auto simp: go_index_def split: if_splits)

lemma go_index_not_Fail [simp]: "go_index xs i \<noteq> Fail e"
  by (simp add: go_index_def)

section \<open>Strings and bytes\<close>

text \<open>A Go string is a sequence of bytes; a \<open>char\<close> of HOL is a byte.\<close>

definition bytes_of :: "string \<Rightarrow> byte list" where
  "bytes_of s = map (\<lambda>c. word_of_nat (of_char c)) s"

definition string_of :: "byte list \<Rightarrow> string" where
  "string_of bs = map (\<lambda>b. char_of (unat b)) bs"

lemma length_bytes_of [simp]: "length (bytes_of s) = length s"
  by (simp add: bytes_of_def)

lemma char_of_byte_of_char: "char_of (unat (word_of_nat (of_char c) :: byte)) = c"
proof -
  have "(of_char c :: nat) < 256"
    by (metis char_of_mod_256 mod_less_divisor of_char_of char_of_char zero_less_numeral)
  then have "unat (word_of_nat (of_char c) :: byte) = of_char c"
    by (simp add: unat_of_nat)
  then show ?thesis by simp
qed

lemma byte_of_char_char_of: "word_of_nat (of_char (char_of (unat b) :: char)) = (b :: byte)"
proof -
  have "unat b < 256" using unsigned_less [where w = b] by simp
  then have "of_char (char_of (unat b) :: char) = unat b" by simp
  then show ?thesis by simp
qed

lemma string_of_bytes_of [simp]: "string_of (bytes_of s) = s"
  by (simp add: string_of_def bytes_of_def comp_def char_of_byte_of_char)

lemma bytes_of_string_of [simp]: "bytes_of (string_of bs) = bs"
  by (simp only: string_of_def bytes_of_def map_map comp_def byte_of_char_char_of map_ident)

lemma take_bytes_of: "take n (bytes_of s) = bytes_of (take n s)"
  by (simp add: bytes_of_def take_map)

section \<open>Byte slices\<close>

text \<open>
  A Go slice has a length and a capacity. \<open>visible\<close> are the bytes up to the length,
  \<open>spare\<close> those of the backing array between length and capacity. An index is
  checked against the length, the upper bound of a slice expression
  against the capacity.
\<close>

record go_slice =
  visible :: "byte list"
  spare :: "byte list"

definition exact_slice :: "byte list \<Rightarrow> go_slice" where
  "exact_slice bs = \<lparr>visible = bs, spare = []\<rparr>"

definition slice_cap :: "go_slice \<Rightarrow> nat" where
  "slice_cap d = length (visible d) + length (spare d)"

definition byte_at :: "go_slice \<Rightarrow> nat \<Rightarrow> ('e, byte) go" where
  "byte_at d i = (if i < length (visible d) then Ret (visible d ! i) else Panic)"

definition sub_slice :: "go_slice \<Rightarrow> nat \<Rightarrow> nat \<Rightarrow> ('e, byte list) go" where
  "sub_slice d lo hi =
     (if lo \<le> hi \<and> hi \<le> slice_cap d
      then Ret (take (hi - lo) (drop lo (visible d @ spare d))) else Panic)"

definition tail_slice :: "go_slice \<Rightarrow> nat \<Rightarrow> ('e, byte list) go" where
  "tail_slice d lo =
     (if lo \<le> length (visible d) then Ret (drop lo (visible d)) else Panic)"

lemma sub_slice_visible:
  "lo \<le> hi \<Longrightarrow> hi \<le> length (visible d) \<Longrightarrow>
     sub_slice d lo hi = Ret (take (hi - lo) (drop lo (visible d)))"
  by (simp add: sub_slice_def slice_cap_def)

lemma visible_exact_slice [simp]: "visible (exact_slice bs) = bs"
  and spare_exact_slice [simp]: "spare (exact_slice bs) = []"
  by (simp_all add: exact_slice_def)

lemma slice_cap_exact [simp]: "slice_cap (exact_slice bs) = length bs"
  by (simp add: slice_cap_def)

text \<open>Writing into a buffer at an offset; writing past the end is a panic.\<close>

definition poke :: "nat \<Rightarrow> byte list \<Rightarrow> byte list \<Rightarrow> ('e, byte list) go" where
  "poke off bs buf =
     (if off + length bs \<le> length buf
      then Ret (take off buf @ bs @ drop (off + length bs) buf) else Panic)"

text \<open>\<^verbatim>\<open>copy(buf[off:hi], src)\<close>: copies as many bytes as both sides have.\<close>

definition copy_into :: "nat \<Rightarrow> nat \<Rightarrow> byte list \<Rightarrow> byte list \<Rightarrow> ('e, byte list) go" where
  "copy_into off hi src buf =
     (if off \<le> hi \<and> hi \<le> length buf then poke off (take (hi - off) src) buf else Panic)"

lemma poke_next:
  assumes "length done = off" and "length bs \<le> k"
  shows "(poke off bs (done @ replicate k 0) :: ('e, byte list) go) =
    Ret ((done @ bs) @ replicate (k - length bs) 0)"
  using assms by (simp add: poke_def)

lemma poke_back:
  assumes "length pre = off" and "length old = length bs"
  shows "(poke off bs ((pre @ old) @ post) :: ('e, byte list) go) = Ret ((pre @ bs) @ post)"
  using assms by (simp add: poke_def)

lemma copy_into_next:
  assumes "length done = off" and "n \<le> length bs" and "n \<le> k"
  shows "(copy_into off (off + n) bs (done @ replicate k 0) :: ('e, byte list) go) =
    Ret ((done @ take n bs) @ replicate (k - n) 0)"
  using assms by (simp add: copy_into_def poke_next)

lemma copy_into_tail:
  assumes "length done = off" and "k = length bs + k'"
  shows "(copy_into off (length (done @ replicate k (0::byte))) bs (done @ replicate k 0) ::
      ('e, byte list) go) = Ret ((done @ bs) @ replicate k' 0)"
  using assms by (simp add: copy_into_def poke_next)

section \<open>Big-endian integers\<close>

text \<open>
  \<^verbatim>\<open>binary.BigEndian.PutUint16\<close> and its kin write the base-256 digits of the value,
  most significant first; \<^verbatim>\<open>Uint16\<close> and its kin read them back from the front of a
  slice and panic when the slice is too short (here \<open>None\<close>).
\<close>

fun be_bytes :: "nat \<Rightarrow> nat \<Rightarrow> byte list" where
  "be_bytes 0 v = []"
| "be_bytes (Suc n) v = word_of_nat (v div 256 ^ n) # be_bytes n v"

fun be_val :: "byte list \<Rightarrow> nat" where
  "be_val [] = 0"
| "be_val (b # bs) = unat b * 256 ^ length bs + be_val bs"

definition put_be :: "nat \<Rightarrow> 'w::len word \<Rightarrow> byte list" where
  "put_be n w = be_bytes n (unat w)"

definition get_be :: "nat \<Rightarrow> byte list \<Rightarrow> 'w::len word option" where
  "get_be n bs = (if length bs < n then None else Some (word_of_nat (be_val (take n bs))))"

definition be16 :: "u16 \<Rightarrow> byte list" where "be16 = put_be 2"
definition be32 :: "u32 \<Rightarrow> byte list" where "be32 = put_be 4"
definition be64 :: "u64 \<Rightarrow> byte list" where "be64 = put_be 8"

definition get16 :: "byte list \<Rightarrow> u16 option" where "get16 = get_be 2"
definition get32 :: "byte list \<Rightarrow> u32 option" where "get32 = get_be 4"
definition get64 :: "byte list \<Rightarrow> u64 option" where "get64 = get_be 8"

lemma length_be_bytes [simp]: "length (be_bytes n v) = n"
  by (induction n) auto

lemma be_val_less: "be_val bs < 256 ^ length bs"
proof (induction bs)
  case (Cons b bs)
  have "unat b < 256" using unsigned_less [where w = b] by simp
  then have "unat b * 256 ^ length bs + 256 ^ length bs \<le> 256 * 256 ^ length bs"
    by (metis Suc_leI add.commute mult_Suc mult_le_mono1)
  with Cons have "unat b * 256 ^ length bs + be_val bs < 256 * 256 ^ length bs"
    by linarith
  then show ?case by simp
qed simp

lemma be_val_be_bytes: "be_val (be_bytes n v) = v mod 256 ^ n"
proof (induction n)
  case (Suc n)
  have "unat (word_of_nat (v div 256 ^ n) :: byte) = (v div 256 ^ n) mod 256"
    by (simp add: unat_of_nat)
  with Suc have "be_val (be_bytes (Suc n) v) = (v div 256 ^ n) mod 256 * 256 ^ n + v mod 256 ^ n"
    by simp
  also have "\<dots> = v mod (256 ^ n * 256)"
    by (simp add: mod_mult2_eq)
  finally show ?case by (simp add: mult.commute)
qed simp

lemma be_bytes_mod: "be_bytes n (v + k * 256 ^ n) = be_bytes n v"
proof (induction n arbitrary: k)
  case (Suc n)
  have "v + k * 256 ^ Suc n = v + (k * 256) * 256 ^ n" by simp
  then have "(v + k * 256 ^ Suc n) div 256 ^ n = v div 256 ^ n + k * 256"
    by (metis div_mult_self1 power_not_zero zero_neq_numeral mult.commute add.commute)
  moreover have "word_of_nat (v div 256 ^ n + k * 256) = (word_of_nat (v div 256 ^ n) :: byte)"
    by (simp only: word_of_nat_eq_iff take_bit_eq_mod) simp
  moreover have "be_bytes n (v + k * 256 ^ Suc n) = be_bytes n v"
    using Suc.IH [of "k * 256"] by (simp add: mult.assoc)
  ultimately show ?case by simp
qed simp

lemma be_bytes_be_val: "be_bytes (length bs) (be_val bs) = bs"
proof (induction bs)
  case (Cons b bs)
  have d: "(unat b * 256 ^ length bs + be_val bs) div 256 ^ length bs = unat b"
    using be_val_less [of bs] by simp
  have "be_bytes (length bs) (be_val bs + unat b * 256 ^ length bs) = bs"
    using Cons by (simp add: be_bytes_mod)
  with d show ?case by (simp add: add.commute)
qed simp

lemma be_bytes_add: "be_bytes (m + n) v = be_bytes m (v div 256 ^ n) @ be_bytes n v"
  by (induction m) (simp_all add: div_mult2_eq [symmetric] power_add mult.commute)

lemma length_put_be [simp]: "length (put_be n w) = n"
  by (simp add: put_be_def)

lemma get_be_None: "get_be n bs = None \<longleftrightarrow> length bs < n"
  by (simp add: get_be_def)

lemma get_be_put_be:
  fixes w :: "'w::len word"
  assumes "LENGTH('w) = 8 * n"
  shows "get_be n (put_be n w @ rest) = Some w"
proof -
  have "unat w < 256 ^ n"
    using unsigned_less [where w = w] assms by (simp add: power_mult)
  then show ?thesis
    by (simp add: get_be_def put_be_def be_val_be_bytes)
qed

lemma put_be_get_be:
  fixes w :: "'w::len word"
  assumes "LENGTH('w) = 8 * n" and "get_be n bs = Some w"
  shows "take n bs = put_be n w"
proof -
  from assms(2) have n: "n \<le> length bs" and w: "w = word_of_nat (be_val (take n bs))"
    by (auto simp: get_be_def split: if_splits)
  have "be_val (take n bs) < 2 ^ LENGTH('w)"
    using be_val_less [of "take n bs"] n assms(1) by (simp add: power_mult)
  then have "unat w = be_val (take n bs)"
    using w by (simp add: unat_of_nat)
  then show ?thesis
    using be_bytes_be_val [of "take n bs"] n by (simp add: put_be_def)
qed

definition read_with :: "(byte list \<Rightarrow> 'w option) \<Rightarrow> ('e, byte list) go \<Rightarrow> ('e, 'w) go" where
  "read_with get m = go_bind m (\<lambda>bs. case get bs of None \<Rightarrow> Panic | Some w \<Rightarrow> Ret w)"

subsection \<open>The interface of a fixed-width codec\<close>

locale be_codec =
  fixes put :: "'w \<Rightarrow> byte list"
    and get :: "byte list \<Rightarrow> 'w option"
    and width :: nat
  assumes put_length: "length (put w) = width"
    and get_put: "get (put w @ rest) = Some w"
    and get_short: "length bs < width \<Longrightarrow> get bs = None"
    and get_prefix: "get bs = Some w \<Longrightarrow> take width bs = put w"
    and get_enough: "width \<le> length bs \<Longrightarrow> get bs \<noteq> None"
begin

lemma put_inj: "put v = put w \<Longrightarrow> v = w"
  using get_put [of v "[]"] get_put [of w "[]"] by simp

lemma get_take: "width \<le> n \<Longrightarrow> get (take n bs) = get bs"
proof (cases "get bs")
  case None
  assume "width \<le> n"
  from None have "length bs < width" using get_enough leI by blast
  with None \<open>width \<le> n\<close> show ?thesis by simp
next
  case (Some w)
  assume n: "width \<le> n"
  from Some have "take width bs = put w" by (rule get_prefix)
  moreover have "take n bs = take width bs @ take (n - width) (drop width bs)"
    using n by (metis add_diff_inverse_nat leD take_add)
  ultimately show ?thesis using Some by (simp add: get_put)
qed

lemma read_with_sub_slice:
  assumes "visible d = pre @ put w @ rest" and "length pre = lo" and "hi = lo + width"
  shows "read_with get (sub_slice d lo hi) = Ret w"
  using assms get_put [of w "[]"]
  by (simp add: read_with_def sub_slice_visible put_length)

lemma read_with_tail_slice:
  assumes "visible d = pre @ put w @ rest" and "length pre = lo"
  shows "read_with get (tail_slice d lo) = Ret w"
  using assms by (simp add: read_with_def tail_slice_def get_put)

lemma read_sub_Panic_iff:
  assumes "hi = lo + width"
  shows "read_with get (sub_slice d lo hi) = Panic \<longleftrightarrow> slice_cap d < hi"
proof (cases "hi \<le> slice_cap d")
  case True
  let ?bs = "take (hi - lo) (drop lo (visible d @ spare d))"
  have "width \<le> length ?bs" using True assms by (simp add: slice_cap_def)
  then have "get ?bs \<noteq> None" by (rule get_enough)
  then show ?thesis using True assms by (auto simp: read_with_def sub_slice_def)
qed (simp add: read_with_def sub_slice_def)

lemma read_sub_not_Fail: "read_with get (sub_slice d lo hi) \<noteq> Fail e"
  by (auto simp: read_with_def sub_slice_def split: option.splits)

lemma read_sub_ok:
  assumes "hi = lo + width" and "hi \<le> slice_cap d"
  obtains w where "(read_with get (sub_slice d lo hi) :: ('e, 'w) go) = Ret w"
proof (cases "read_with get (sub_slice d lo hi) :: ('e, 'w) go")
  case (Fail e)
  then show ?thesis by (simp add: read_sub_not_Fail)
next
  case Panic
  then show ?thesis using assms(2) by (simp add: read_sub_Panic_iff [OF assms(1)])
qed (rule that)

lemma read_sub_Ret:
  assumes "read_with get (sub_slice d lo hi) = Ret w" and "hi = lo + width"
    and "hi \<le> length (visible d)"
  shows "take hi (visible d) = take lo (visible d) @ put w"
proof -
  have "get (take width (drop lo (visible d))) = Some w"
    using assms by (simp add: read_with_def sub_slice_visible split: option.splits)
  then have "take width (drop lo (visible d)) = put w" using get_prefix by fastforce
  then show ?thesis unfolding assms(2) take_add by simp
qed

end

interpretation be16: be_codec be16 get16 2
  by unfold_locales
    (simp_all add: be16_def get16_def get_be_put_be put_be_get_be get_be_None)

interpretation be32: be_codec be32 get32 4
  by unfold_locales
    (simp_all add: be32_def get32_def get_be_put_be put_be_get_be get_be_None)

interpretation be64: be_codec be64 get64 8
  by unfold_locales
    (simp_all add: be64_def get64_def get_be_put_be put_be_get_be get_be_None)

lemmas be_lengths [simp, layout_simps] = be16.put_length be32.put_length be64.put_length

section \<open>Length-prefixed fields\<close>

text \<open>
  Both wire formats store a string as its length followed by its bytes. \<open>lp_body\<close>
  is the second half (the check that the bytes are there and the slice expression),
  \<open>lp_read\<close> the whole field with the check of the length itself in front.
\<close>

definition lp_field :: "('w \<Rightarrow> byte list) \<Rightarrow> (nat \<Rightarrow> 'w) \<Rightarrow> byte list \<Rightarrow> byte list" where
  "lp_field put of_len bs = put (of_len (length bs)) @ bs"

definition lp_body :: "'e \<Rightarrow> go_slice \<Rightarrow> nat \<Rightarrow> nat \<Rightarrow> ('e, byte list \<times> nat) go" where
  "lp_body short d off n =
     (if length (visible d) < off + n then Fail short
      else go_bind (sub_slice d off (off + n)) (\<lambda>bs. Ret (bs, off + n)))"

definition lp_read ::
    "(byte list \<Rightarrow> 'w option) \<Rightarrow> nat \<Rightarrow> ('w \<Rightarrow> nat) \<Rightarrow> 'e \<Rightarrow> 'e \<Rightarrow> go_slice \<Rightarrow> nat \<Rightarrow>
      ('e, byte list \<times> nat) go" where
  "lp_read get width to_nat no_len short d off =
     (if length (visible d) < off + width then Fail no_len
      else go_bind (read_with get (sub_slice d off (off + width)))
             (\<lambda>n. lp_body short d (off + width) (to_nat n)))"

lemma lp_body_Ret_iff:
  "lp_body short d off n = Ret (bs, off') \<longleftrightarrow>
     off + n \<le> length (visible d) \<and> bs = take n (drop off (visible d)) \<and> off' = off + n"
  by (auto simp: lp_body_def sub_slice_visible not_less)

lemma lp_body_not_Panic [simp]: "lp_body short d off n \<noteq> Panic"
  by (simp add: lp_body_def sub_slice_visible not_less)

lemma lp_body_Fail_iff:
  "lp_body short d off n = Fail e \<longleftrightarrow> length (visible d) < off + n \<and> e = short"
  by (auto simp: lp_body_def sub_slice_visible not_less)

text \<open>
  The interface of a length prefix: a big-endian codec whose values are read as
  lengths below a limit.
\<close>

locale len_prefix = be_codec put get width
  for put :: "'w \<Rightarrow> byte list" and get :: "byte list \<Rightarrow> 'w option" and width :: nat +
  fixes to_nat :: "'w \<Rightarrow> nat"
    and of_len :: "nat \<Rightarrow> 'w"
    and limit :: nat
  assumes to_nat_of_len: "n < limit \<Longrightarrow> to_nat (of_len n) = n"
    and to_nat_less: "to_nat w < limit"
    and of_len_to_nat: "of_len (to_nat w) = w"
begin

lemma read_len_sub:
  assumes "off + width \<le> length (visible d)"
  shows "read_with get (sub_slice d off (off + width)) = Ret (the (get (drop off (visible d))))"
    and "get (drop off (visible d)) \<noteq> None"
proof -
  have "width \<le> length (drop off (visible d))" using assms by simp
  then show "get (drop off (visible d)) \<noteq> None" by (rule get_enough)
  moreover have "get (take width (drop off (visible d))) = get (drop off (visible d))"
    by (rule get_take) simp
  ultimately show
    "read_with get (sub_slice d off (off + width)) = Ret (the (get (drop off (visible d))))"
    using assms by (auto simp: read_with_def sub_slice_visible)
qed

lemma read_len_tail:
  assumes "off + width \<le> length (visible d)"
  shows "read_with get (tail_slice d off) = Ret (the (get (drop off (visible d))))"
  using read_len_sub [OF assms] assms by (auto simp: read_with_def tail_slice_def)

lemma lp_read_field:
  assumes "length pre = off" and "length bs < limit"
    and "visible d = pre @ lp_field put of_len bs @ rest"
  shows "lp_read get width to_nat e1 e2 d off = Ret (bs, off + width + length bs)"
proof -
  have w: "off + width \<le> length (visible d)"
    using assms by (simp add: lp_field_def put_length)
  have "the (get (drop off (visible d))) = of_len (length bs)"
    using assms by (simp add: lp_field_def get_put)
  then show ?thesis
    using assms w
    by (simp add: lp_read_def read_len_sub(1) lp_body_Ret_iff to_nat_of_len lp_field_def put_length)
qed

lemma lp_read_Ret:
  assumes "lp_read get width to_nat e1 e2 d off = Ret (bs, off')"
  shows "off' = off + width + length bs" and "length bs < limit"
    and "off' \<le> length (visible d)"
    and "take off' (visible d) = take off (visible d) @ lp_field put of_len bs"
proof -
  have w: "off + width \<le> length (visible d)"
    using assms by (simp add: lp_read_def not_less split: if_splits)
  obtain v where g: "get (drop off (visible d)) = Some v"
    using read_len_sub(2) [OF w] by blast
  from assms w g have "lp_body e2 d (off + width) (to_nat v) = Ret (bs, off')"
    by (simp add: lp_read_def read_len_sub(1))
  then have le: "off + width + to_nat v \<le> length (visible d)"
    and bs: "bs = take (to_nat v) (drop (off + width) (visible d))"
    and off': "off' = off + width + to_nat v"
    by (simp_all add: lp_body_Ret_iff)
  have len: "length bs = to_nat v" using bs le by simp
  show "off' = off + width + length bs" using off' len by simp
  show "length bs < limit" using len to_nat_less by simp
  show "off' \<le> length (visible d)" using off' le by simp
  have "put v = take width (drop off (visible d))" using get_prefix [OF g] by simp
  then show "take off' (visible d) = take off (visible d) @ lp_field put of_len bs"
    unfolding off' take_add using len bs by (simp add: lp_field_def of_len_to_nat)
qed

lemma lp_read_not_Panic: "lp_read get width to_nat e1 e2 d off \<noteq> Panic"
  by (simp add: lp_read_def read_len_sub(1) not_less)

lemma length_field: "length (lp_field put of_len bs) = width + length bs"
  by (simp add: lp_field_def put_length)

end

interpretation lp16: len_prefix be16 get16 2 unat word_of_nat 65536
proof
  fix w :: u16
  show "unat w < 65536" using unsigned_less [where w = w] by simp
qed (simp_all add: unat_of_nat)

interpretation lp32: len_prefix be32 get32 4 unat word_of_nat "2 ^ 32"
proof
  fix w :: u32
  show "unat w < 2 ^ 32" using unsigned_less [where w = w] by simp
qed (simp_all add: unat_of_nat)

section \<open>Weighted choice\<close>

text \<open>
  Both load balancers add up weights in a wrapping integer and then walk the list until the
  running total exceeds a number. With nonnegative weights whose sum does not overflow
  this is the same as indexing the list in which every element stands as often as its weight.
\<close>

definition total_of :: "('a \<Rightarrow> int) \<Rightarrow> 'a list \<Rightarrow> int" where
  "total_of w xs = foldl (\<lambda>t x. wrap64 (t + w x)) 0 xs"

fun weighted_pick :: "('a \<Rightarrow> int) \<Rightarrow> int \<Rightarrow> int \<Rightarrow> 'a list \<Rightarrow> 'a option" where
  "weighted_pick w c running [] = None"
| "weighted_pick w c running (x # xs) =
     (let running = wrap64 (running + w x)
      in if c < running then Some x else weighted_pick w c running xs)"

definition slots :: "('a \<Rightarrow> int) \<Rightarrow> 'a list \<Rightarrow> 'a list" where
  "slots w xs = concat (map (\<lambda>x. replicate (nat (w x)) x) xs)"

definition weight_sum :: "('a \<Rightarrow> int) \<Rightarrow> 'a list \<Rightarrow> int" where
  "weight_sum w xs = (\<Sum>x\<leftarrow>xs. w x)"

abbreviation weights_nonneg :: "('a \<Rightarrow> int) \<Rightarrow> 'a list \<Rightarrow> bool" where
  "weights_nonneg w xs \<equiv> list_all (\<lambda>x. 0 \<le> w x) xs"

lemma weight_sum_simps [simp]:
  "weight_sum w [] = 0" "weight_sum w (x # xs) = w x + weight_sum w xs"
  by (simp_all add: weight_sum_def)

lemma slots_simps [simp]:
  "slots w [] = []" "slots w (x # xs) = replicate (nat (w x)) x @ slots w xs"
  by (simp_all add: slots_def)

lemma weight_sum_nonneg: "weights_nonneg w xs \<Longrightarrow> 0 \<le> weight_sum w xs"
  by (induction xs) auto

lemma length_slots: "weights_nonneg w xs \<Longrightarrow> int (length (slots w xs)) = weight_sum w xs"
  by (induction xs) auto

lemma set_slots: "set (slots w xs) \<subseteq> set xs"
  by (induction xs) auto

lemma total_of_foldl:
  "0 \<le> t \<Longrightarrow> weights_nonneg w xs \<Longrightarrow> t + weight_sum w xs \<le> max_int64 \<Longrightarrow>
    foldl (\<lambda>t x. wrap64 (t + w x)) t xs = t + weight_sum w xs"
proof (induction xs arbitrary: t)
  case (Cons x xs)
  then have "0 \<le> weight_sum w xs" by (simp add: weight_sum_nonneg)
  with Cons.prems have "wrap64 (t + w x) = t + w x"
    by (intro wrap64_id) (simp_all add: min_int64_def)
  with Cons show ?case by (simp add: add.assoc)
qed simp

lemma total_of_sum:
  "weights_nonneg w xs \<Longrightarrow> weight_sum w xs \<le> max_int64 \<Longrightarrow> total_of w xs = weight_sum w xs"
  using total_of_foldl [of 0 w xs] by (simp add: total_of_def)

lemma weighted_pick_slots:
  "0 \<le> r \<Longrightarrow> r \<le> c \<Longrightarrow> c < r + weight_sum w xs \<Longrightarrow> weights_nonneg w xs \<Longrightarrow>
    r + weight_sum w xs \<le> max_int64 \<Longrightarrow>
    weighted_pick w c r xs = Some (slots w xs ! nat (c - r))"
proof (induction xs arbitrary: r)
  case (Cons x xs)
  then have "0 \<le> weight_sum w xs" by (simp add: weight_sum_nonneg)
  with Cons.prems have eq: "wrap64 (r + w x) = r + w x"
    by (intro wrap64_id) (simp_all add: min_int64_def)
  show ?case
  proof (cases "c < r + w x")
    case True
    with Cons.prems eq show ?thesis by (simp add: nth_append)
  next
    case False
    then have "weighted_pick w c (r + w x) xs = Some (slots w xs ! nat (c - (r + w x)))"
      using Cons.prems by (intro Cons.IH) simp_all
    moreover have "nat (c - r) - nat (w x) = nat (c - (r + w x))"
      "\<not> nat (c - r) < nat (w x)"
      using False Cons.prems by (simp_all add: nat_diff_distrib [symmetric] diff_diff_eq)
    ultimately show ?thesis using False eq by (simp add: nth_append)
  qed
qed simp

lemma weighted_pick_in: "weighted_pick w c r xs = Some x \<Longrightarrow> x \<in> set xs"
  by (induction w c r xs rule: weighted_pick.induct) (auto simp: Let_def split: if_splits)

end
