(* ===== verification/Message_Codec.thy ===== *)
theory Message_Codec
  imports Go_Prelude
begin

text \<open>
  The internal message format of \<^verbatim>\<open>src/pkg/protocol/message.go\<close>: the record
  \<open>Message\<close>, its flag operations and the binary codec \<open>Encode\<close> and \<open>Decode\<close>.
  The encoder is modelled write by write on a zeroed buffer, the decoder read by read on a slice
  with its capacity, so that the overlap of the fixed header (22 bytes) with the first variable
  field (at offset \<open>HeaderSize\<close> = 20) is part of the model.
\<close>

section \<open>Data\<close>

type_synonym ServiceType = u16
type_synonym MessageType = u16

definition ServiceTypeUnknown :: ServiceType where "ServiceTypeUnknown = 0"
definition ServiceTypeGateway :: ServiceType where "ServiceTypeGateway = 1"
definition ServiceTypeChat :: ServiceType where "ServiceTypeChat = 2"
definition ServiceTypeGame :: ServiceType where "ServiceTypeGame = 3"
definition ServiceTypeAuth :: ServiceType where "ServiceTypeAuth = 4"
definition ServiceTypeMatchmaker :: ServiceType where "ServiceTypeMatchmaker = 5"
definition ServiceTypeLocation :: ServiceType where "ServiceTypeLocation = 6"
definition ServiceTypeCombat :: ServiceType where "ServiceTypeCombat = 7"
definition ServiceTypeInventory :: ServiceType where "ServiceTypeInventory = 8"
definition ServiceTypeQuest :: ServiceType where "ServiceTypeQuest = 9"

definition ProtocolVersion :: byte where "ProtocolVersion = 1"

definition FlagNone :: byte where "FlagNone = 0"
definition FlagEncrypted :: byte where "FlagEncrypted = 0x01"
definition FlagCompressed :: byte where "FlagCompressed = 0x02"
definition FlagReliable :: byte where "FlagReliable = 0x04"
definition FlagOrdered :: byte where "FlagOrdered = 0x08"
definition FlagAck :: byte where "FlagAck = 0x10"
definition FlagSystem :: byte where "FlagSystem = 0x20"
definition FlagPing :: byte where "FlagPing = 0x40"
definition FlagPong :: byte where "FlagPong = 0x80"

definition MaxMessageSize :: nat where "MaxMessageSize = 10 * 1024 * 1024"
definition HeaderSize :: nat where "HeaderSize = 20"
definition MaxPayloadSize :: nat where "MaxPayloadSize = MaxMessageSize - HeaderSize"
definition MaxServiceNameSize :: nat where "MaxServiceNameSize = 32"

record Message =
  Version :: byte
  Flags :: byte
  ServiceTypeOf :: ServiceType
  MessageTypeOf :: MessageType
  SequenceID :: u32
  Timestamp :: u64
  PayloadLength :: u32
  SourceService :: string
  DestinationService :: string
  CorrelationID :: string
  SessionID :: string
  Payload :: "byte list"

definition NewMessage :: "u64 \<Rightarrow> ServiceType \<Rightarrow> MessageType \<Rightarrow> byte list \<Rightarrow> Message" where
  "NewMessage now_micro serviceType messageType payload =
     \<lparr>Version = ProtocolVersion, Flags = FlagNone, ServiceTypeOf = serviceType,
      MessageTypeOf = messageType, SequenceID = 0, Timestamp = now_micro,
      PayloadLength = word_of_nat (length payload), SourceService = [],
      DestinationService = [], CorrelationID = [], SessionID = [], Payload = payload\<rparr>"

section \<open>Flags\<close>

definition SetFlag :: "byte \<Rightarrow> Message \<Rightarrow> Message" where
  "SetFlag flag m = m\<lparr>Flags := Flags m OR flag\<rparr>"

definition ClearFlag :: "byte \<Rightarrow> Message \<Rightarrow> Message" where
  "ClearFlag flag m = m\<lparr>Flags := Flags m AND NOT flag\<rparr>"

definition HasFlag :: "byte \<Rightarrow> Message \<Rightarrow> bool" where
  "HasFlag flag m \<longleftrightarrow> Flags m AND flag \<noteq> 0"

section \<open>Encoding\<close>

datatype encode_error =
    PayloadTooLarge nat
  | SourceServiceTooLong nat
  | DestinationServiceTooLong nat

text \<open>One variable field: its 16-bit length, then a copy of that many bytes.\<close>

definition put_field ::
    "u16 \<Rightarrow> string \<Rightarrow> byte list \<times> nat \<Rightarrow> (encode_error, byte list \<times> nat) go" where
  "put_field len s = (\<lambda>(buffer, offset).
     go_bind (poke offset (be16 len) buffer) (\<lambda>buffer.
     let offset = offset + 2 in
     go_bind (copy_into offset (offset + unat len) (bytes_of s) buffer) (\<lambda>buffer.
     Ret (buffer, offset + unat len))))"

definition put_header :: "Message \<Rightarrow> byte list \<Rightarrow> (encode_error, byte list) go" where
  "put_header m buffer =
     go_bind (poke 0 [Version m] buffer) (\<lambda>buffer.
     go_bind (poke 1 [Flags m] buffer) (\<lambda>buffer.
     go_bind (poke 2 (be16 (ServiceTypeOf m)) buffer) (\<lambda>buffer.
     go_bind (poke 4 (be16 (MessageTypeOf m)) buffer) (\<lambda>buffer.
     go_bind (poke 6 (be32 (SequenceID m)) buffer) (\<lambda>buffer.
     go_bind (poke 10 (be64 (Timestamp m)) buffer) (\<lambda>buffer.
     poke 18 (be32 (PayloadLength m)) buffer))))))"

definition Encode :: "Message \<Rightarrow> (encode_error, byte list) go" where
  "Encode m =
     (if MaxPayloadSize < length (Payload m) then Fail (PayloadTooLarge (length (Payload m)))
      else if MaxServiceNameSize < length (SourceService m)
      then Fail (SourceServiceTooLong (length (SourceService m)))
      else if MaxServiceNameSize < length (DestinationService m)
      then Fail (DestinationServiceTooLong (length (DestinationService m)))
      else
        let sourceServiceLen = word_of_nat (length (SourceService m)) :: u16;
            destServiceLen = word_of_nat (length (DestinationService m)) :: u16;
            correlationIDLen = word_of_nat (length (CorrelationID m)) :: u16;
            sessionIDLen = word_of_nat (length (SessionID m)) :: u16;
            totalLength = HeaderSize + (2 + unat sourceServiceLen) + (2 + unat destServiceLen) +
              (2 + unat correlationIDLen) + (2 + unat sessionIDLen) + length (Payload m)
        in
        go_bind (put_header m (replicate totalLength 0)) (\<lambda>buffer.
        go_bind (put_field sourceServiceLen (SourceService m) (buffer, HeaderSize)) (\<lambda>bo.
        go_bind (put_field destServiceLen (DestinationService m) bo) (\<lambda>bo.
        go_bind (put_field correlationIDLen (CorrelationID m) bo) (\<lambda>bo.
        go_bind (put_field sessionIDLen (SessionID m) bo) (\<lambda>(buffer, offset).
        copy_into offset (length buffer) (Payload m) buffer))))))"

section \<open>Decoding\<close>

datatype decode_error =
    ShortHeader
  | UnsupportedVersion byte
  | ShortSourceLength | ShortSource
  | ShortDestinationLength | ShortDestination
  | ShortCorrelationLength | ShortCorrelation
  | ShortSessionLength | ShortSession
  | ShortPayload

definition get_field ::
    "decode_error \<Rightarrow> decode_error \<Rightarrow> go_slice \<Rightarrow> nat \<Rightarrow> (decode_error, string \<times> nat) go" where
  "get_field no_len short d offset =
     go_bind (lp_read get16 2 unat no_len short d offset) (\<lambda>(bs, off). Ret (string_of bs, off))"

definition Decode :: "go_slice \<Rightarrow> (decode_error, Message) go" where
  "Decode data =
     (if length (visible data) < HeaderSize then Fail ShortHeader
      else
        go_bind (byte_at data 0) (\<lambda>version.
        go_bind (byte_at data 1) (\<lambda>flags.
        go_bind (read_with get16 (sub_slice data 2 4)) (\<lambda>serviceType.
        go_bind (read_with get16 (sub_slice data 4 6)) (\<lambda>messageType.
        go_bind (read_with get32 (sub_slice data 6 10)) (\<lambda>sequenceID.
        go_bind (read_with get64 (sub_slice data 10 18)) (\<lambda>timestamp.
        go_bind (read_with get32 (sub_slice data 18 22)) (\<lambda>payloadLength.
        if version \<noteq> ProtocolVersion then Fail (UnsupportedVersion version)
        else
          go_bind (get_field ShortSourceLength ShortSource data HeaderSize) (\<lambda>(src, offset).
          go_bind (get_field ShortDestinationLength ShortDestination data offset)
            (\<lambda>(dst, offset).
          go_bind (get_field ShortCorrelationLength ShortCorrelation data offset)
            (\<lambda>(corr, offset).
          go_bind (get_field ShortSessionLength ShortSession data offset) (\<lambda>(sess, offset).
          go_bind (lp_body ShortPayload data offset (unat payloadLength)) (\<lambda>(payload, _).
          Ret \<lparr>Version = version, Flags = flags, ServiceTypeOf = serviceType,
               MessageTypeOf = messageType, SequenceID = sequenceID, Timestamp = timestamp,
               PayloadLength = payloadLength, SourceService = src, DestinationService = dst,
               CorrelationID = corr, SessionID = sess, Payload = payload\<rparr>)))))))))))))"

section \<open>The byte layout\<close>

text \<open>
  The layout that \<open>Encode\<close> really produces: eighteen bytes of header, the \<^emph>\<open>high\<close> half of the
  payload length, then the four length-prefixed strings (an identifier longer than 65535 bytes is
  clipped to its length modulo 65536) and the payload.
\<close>

definition head18 :: "Message \<Rightarrow> byte list" where
  "head18 m = [Version m, Flags m] @ be16 (ServiceTypeOf m) @ be16 (MessageTypeOf m) @
     be32 (SequenceID m) @ be64 (Timestamp m)"

abbreviation field16 :: "byte list \<Rightarrow> byte list" where
  "field16 \<equiv> lp_field be16 word_of_nat"

definition clip16 :: "string \<Rightarrow> string" where
  "clip16 s = take (length s mod 65536) s"

definition message_wire :: "Message \<Rightarrow> byte list" where
  "message_wire m = head18 m @ take 2 (be32 (PayloadLength m)) @
     field16 (bytes_of (clip16 (SourceService m))) @
     field16 (bytes_of (clip16 (DestinationService m))) @
     field16 (bytes_of (clip16 (CorrelationID m))) @
     field16 (bytes_of (clip16 (SessionID m))) @ Payload m"

definition encodable :: "Message \<Rightarrow> bool" where
  "encodable m \<longleftrightarrow> length (Payload m) \<le> MaxPayloadSize \<and>
     length (SourceService m) \<le> MaxServiceNameSize \<and>
     length (DestinationService m) \<le> MaxServiceNameSize"

lemma length_head18 [simp, layout_simps]: "length (head18 m) = 18"
  by (simp add: head18_def)

lemma unat_len16: "unat (word_of_nat n :: u16) = n mod 65536"
  by (simp add: unat_of_nat)

lemma length_clip16 [simp]: "length (clip16 s) = length s mod 65536"
  by (simp add: clip16_def)

lemma word_of_nat_mod16: "(word_of_nat (n mod 65536) :: u16) = word_of_nat n"
  by (simp add: word_of_nat_eq_iff take_bit_eq_mod)

lemma clip16_id: "clip16 s = s \<longleftrightarrow> length s < 65536"
proof
  assume "clip16 s = s"
  then have "length s mod 65536 = length s" using length_clip16 by metis
  then show "length s < 65536" by (metis mod_less_divisor zero_less_numeral)
qed (simp add: clip16_def)

lemma field16_clip16:
  "field16 (bytes_of (clip16 s)) =
     be16 (word_of_nat (length s)) @ take (length s mod 65536) (bytes_of s)"
  by (simp add: lp_field_def word_of_nat_mod16 clip16_def take_bytes_of)

lemma put_header_zeros:
  assumes "22 \<le> k"
  shows "put_header m (replicate k 0) =
    Ret (head18 m @ be32 (PayloadLength m) @ replicate (k - 22) 0)"
proof -
  let ?a = "[Version m, Flags m]"
  let ?b = "?a @ be16 (ServiceTypeOf m)"
  let ?c = "?b @ be16 (MessageTypeOf m)"
  let ?d = "?c @ be32 (SequenceID m)"
  note next_write = poke_next [where 'e = encode_error]
  have "1 \<le> k" "1 \<le> k - 1" "2 \<le> k - 2" "2 \<le> k - 4" "4 \<le> k - 6" "8 \<le> k - 10" "4 \<le> k - 18"
    using assms by simp_all
  moreover have "go_bind (poke 0 [Version m] (replicate k 0)) (poke 1 [Flags m]) =
      (Ret (?a @ replicate (k - 2) 0) :: (encode_error, byte list) go)"
    using assms by (simp add: poke_def numeral_2_eq_2)
  ultimately show ?thesis
    using
      next_write [of ?a 2 "be16 (ServiceTypeOf m)" "k - 2"]
      next_write [of ?b 4 "be16 (MessageTypeOf m)" "k - 4"]
      next_write [of ?c 6 "be32 (SequenceID m)" "k - 6"]
      next_write [of ?d 10 "be64 (Timestamp m)" "k - 10"]
      next_write [of "head18 m" 18 "be32 (PayloadLength m)" "k - 18"]
    by (auto simp add: put_header_def head18_def go_bind_Ret_iff)
qed

lemma put_field_over:
  assumes "length done = off" and "length old = 2" and "k = length s mod 65536 + k'"
  shows "put_field (word_of_nat (length s)) s ((done @ old) @ replicate k 0, off) =
    Ret ((done @ field16 (bytes_of (clip16 s))) @ replicate k' 0,
         off + (2 + length s mod 65536))"
proof -
  let ?n = "length s mod 65536"
  let ?len = "be16 (word_of_nat (length s))"
  have "poke off ?len ((done @ old) @ replicate k 0) =
      (Ret ((done @ ?len) @ replicate k 0) :: (encode_error, byte list) go)"
    by (rule poke_back) (use assms in auto)
  moreover have "copy_into (off + 2) (off + 2 + ?n) (bytes_of s)
        ((done @ ?len) @ replicate k 0) =
      (Ret (((done @ ?len) @ take ?n (bytes_of s)) @ replicate k' 0) ::
        (encode_error, byte list) go)"
    using copy_into_next [where 'e = encode_error, of "done @ ?len" "off + 2" ?n "bytes_of s" k]
      assms by simp
  ultimately show ?thesis
    by (simp add: put_field_def unat_len16 field16_clip16 add.assoc)
qed

lemma put_field_zeros:
  assumes "length done = off" and "k = (2 + length s mod 65536) + k'"
  shows "put_field (word_of_nat (length s)) s (done @ replicate k 0, off) =
    Ret ((done @ field16 (bytes_of (clip16 s))) @ replicate k' 0,
         off + (2 + length s mod 65536))"
proof -
  have "replicate k (0 :: byte) = replicate 2 0 @ replicate (length s mod 65536 + k') 0"
    unfolding assms(2) add.assoc by (rule replicate_add)
  then show ?thesis
    using put_field_over [OF assms(1), of "replicate 2 0" _ s k'] by simp
qed

lemma Encode_wire:
  assumes "encodable m"
  shows "Encode m = Ret (message_wire m)"
proof -
  let ?s = "length (SourceService m) mod 65536"
  let ?d = "length (DestinationService m) mod 65536"
  let ?c = "length (CorrelationID m) mod 65536"
  let ?i = "length (SessionID m) mod 65536"
  let ?p = "length (Payload m)"
  let ?fs = "field16 (bytes_of (clip16 (SourceService m)))"
  let ?fd = "field16 (bytes_of (clip16 (DestinationService m)))"
  let ?fc = "field16 (bytes_of (clip16 (CorrelationID m)))"
  let ?fi = "field16 (bytes_of (clip16 (SessionID m)))"
  let ?h = "head18 m @ take 2 (be32 (PayloadLength m))"
  have h: "length ?h = 20" "length (drop 2 (be32 (PayloadLength m))) = 2" by simp_all
  have lens: "length ?fs = 2 + ?s" "length ?fd = 2 + ?d" "length ?fc = 2 + ?c"
      "length ?fi = 2 + ?i"
    by (simp_all add: lp16.length_field)
  let ?k = "20 + (2 + ?s) + (2 + ?d) + (2 + ?c) + (2 + ?i) + ?p"
  let ?k1 = "(2 + ?d) + (2 + ?c) + (2 + ?i) + ?p"
  let ?k2 = "(2 + ?c) + (2 + ?i) + ?p"
  let ?k3 = "(2 + ?i) + ?p"
  have s0: "put_header m (replicate ?k 0) =
      Ret ((?h @ drop 2 (be32 (PayloadLength m))) @ replicate (?s + ?k1) 0)"
  proof -
    have "22 \<le> ?k" and "?k - 22 = ?s + ?k1" by simp_all
    then show ?thesis by (simp only: put_header_zeros append_assoc append_take_drop_id)
  qed
  have s1: "put_field (word_of_nat (length (SourceService m))) (SourceService m)
      ((?h @ drop 2 (be32 (PayloadLength m))) @ replicate (?s + ?k1) 0, 20) =
      Ret ((?h @ ?fs) @ replicate ?k1 0, 20 + (2 + ?s))"
    by (rule put_field_over) (simp_all only: h)
  have s2: "put_field (word_of_nat (length (DestinationService m))) (DestinationService m)
      ((?h @ ?fs) @ replicate ?k1 0, 20 + (2 + ?s)) =
      Ret (((?h @ ?fs) @ ?fd) @ replicate ?k2 0, 20 + (2 + ?s) + (2 + ?d))"
    by (rule put_field_zeros) (simp_all add: lens)
  have s3: "put_field (word_of_nat (length (CorrelationID m))) (CorrelationID m)
      (((?h @ ?fs) @ ?fd) @ replicate ?k2 0, 20 + (2 + ?s) + (2 + ?d)) =
      Ret ((((?h @ ?fs) @ ?fd) @ ?fc) @ replicate ?k3 0, 20 + (2 + ?s) + (2 + ?d) + (2 + ?c))"
    by (rule put_field_zeros) (simp_all add: lens)
  have s4: "put_field (word_of_nat (length (SessionID m))) (SessionID m)
      ((((?h @ ?fs) @ ?fd) @ ?fc) @ replicate ?k3 0, 20 + (2 + ?s) + (2 + ?d) + (2 + ?c)) =
      Ret (((((?h @ ?fs) @ ?fd) @ ?fc) @ ?fi) @ replicate ?p 0,
        20 + (2 + ?s) + (2 + ?d) + (2 + ?c) + (2 + ?i))"
    by (rule put_field_zeros) (simp_all add: lens)
  let ?all = "(((?h @ ?fs) @ ?fd) @ ?fc) @ ?fi"
  have s5: "copy_into (20 + (2 + ?s) + (2 + ?d) + (2 + ?c) + (2 + ?i))
      (length (?all @ replicate ?p (0::byte))) (Payload m) (?all @ replicate ?p 0) =
      (Ret (?all @ Payload m) :: (encode_error, byte list) go)"
    using copy_into_tail [where 'e = encode_error, of ?all "length ?all" ?p "Payload m" 0]
      h lens by (simp add: add.assoc)
  show ?thesis
    using assms unfolding Encode_def encodable_def Let_def unat_len16 HeaderSize_def
    by (simp only: s0 s1 s2 s3 s4 s5 go_bind.simps prod.case not_less [symmetric] if_False)
      (simp only: message_wire_def append_assoc)
qed

text \<open>\<open>Encode\<close> on every branch: it rejects an oversized payload, source name or destination
  name in this order, and otherwise returns exactly the bytes of \<open>message_wire\<close>; it never
  panics.\<close>

theorem Encode_branches:
  "Encode m =
     (if MaxPayloadSize < length (Payload m) then Fail (PayloadTooLarge (length (Payload m)))
      else if MaxServiceNameSize < length (SourceService m)
      then Fail (SourceServiceTooLong (length (SourceService m)))
      else if MaxServiceNameSize < length (DestinationService m)
      then Fail (DestinationServiceTooLong (length (DestinationService m)))
      else Ret (message_wire m))"
  using Encode_wire [of m] by (auto simp: encodable_def Encode_def)

section \<open>Decoding a layout\<close>

text \<open>
  The payload length that the decoder finds: the low half of the encoded one has been
  overwritten with the length of the source service name.
\<close>

definition overlaid_length :: "u32 \<Rightarrow> nat \<Rightarrow> u32" where
  "overlaid_length pl n = word_of_nat (unat pl div 65536 * 65536 + n)"

lemma be32_halves: "be32 w = be_bytes 2 (unat w div 65536) @ be_bytes 2 (unat w)"
  using be_bytes_add [of 2 2 "unat w"] by (simp add: be32_def put_be_def)

lemma unat_overlaid_length:
  assumes "n < 65536"
  shows "unat (overlaid_length pl n) = unat pl div 65536 * 65536 + n"
proof -
  have "unat pl < 65536 * 65536" using unsigned_less [where w = pl] by simp
  then have "unat pl div 65536 < 65536" by (simp add: less_mult_imp_div_less)
  then have "unat pl div 65536 * 65536 + n < 2 ^ 32" using assms by simp
  then show ?thesis unfolding overlaid_length_def by (subst unat_of_nat) simp
qed

lemma be32_overlaid:
  assumes "n < 65536"
  shows "be32 (overlaid_length pl n) = take 2 (be32 pl) @ be16 (word_of_nat n)"
proof -
  have "be_bytes 2 (unat (overlaid_length pl n)) = be_bytes 2 n"
    using be_bytes_mod [of 2 n "unat pl div 65536"] assms
    by (simp add: unat_overlaid_length add.commute)
  then show ?thesis
    using assms
    by (simp add: be32_halves unat_overlaid_length be16_def put_be_def unat_of_nat)
qed

lemma overlaid_length_id_iff:
  assumes "n < 65536"
  shows "overlaid_length pl n = pl \<longleftrightarrow> unat pl mod 65536 = n"
proof -
  have "overlaid_length pl n = pl \<longleftrightarrow> unat pl div 65536 * 65536 + n = unat pl"
    using assms by (simp add: unat_overlaid_length word_unat_eq_iff)
  also have "\<dots> \<longleftrightarrow> unat pl mod 65536 = n"
    using div_mult_mod_eq [of "unat pl" 65536] by linarith
  finally show ?thesis .
qed

lemma get_field_field16:
  assumes "length pre = off" and "length s < 65536"
    and "visible d = pre @ field16 (bytes_of s) @ rest"
  shows "get_field e1 e2 d off = Ret (s, off + (2 + length s))"
  using lp16.lp_read_field [of pre off "bytes_of s" d rest e1 e2] assms
  by (simp add: get_field_def)

lemma Decode_layout:
  assumes vis: "visible d = head18 m @ take 2 (be32 (PayloadLength m)) @
      field16 (bytes_of (SourceService m)) @ field16 (bytes_of (DestinationService m)) @
      field16 (bytes_of (CorrelationID m)) @ field16 (bytes_of (SessionID m)) @ rest"
    and lens: "length (SourceService m) < 65536" "length (DestinationService m) < 65536"
      "length (CorrelationID m) < 65536" "length (SessionID m) < 65536"
    and pl: "pl = overlaid_length (PayloadLength m) (length (SourceService m))"
  shows "Decode d =
    (if Version m \<noteq> ProtocolVersion then Fail (UnsupportedVersion (Version m))
     else if length rest < unat pl then Fail ShortPayload
     else Ret (m\<lparr>PayloadLength := pl, Payload := take (unat pl) rest\<rparr>))"
proof -
  let ?h = "head18 m @ take 2 (be32 (PayloadLength m))"
  let ?a = "[Version m, Flags m]"
  let ?b = "?a @ be16 (ServiceTypeOf m)"
  let ?c = "?b @ be16 (MessageTypeOf m)"
  let ?d = "?c @ be32 (SequenceID m)"
  let ?fs = "field16 (bytes_of (SourceService m))"
  let ?fd = "field16 (bytes_of (DestinationService m))"
  let ?fc = "field16 (bytes_of (CorrelationID m))"
  let ?fi = "field16 (bytes_of (SessionID m))"
  note flen = lp16.length_field
  have vis': "visible d = head18 m @ be32 pl @ bytes_of (SourceService m) @ ?fd @ ?fc @ ?fi @ rest"
    using vis lens(1) by (simp add: pl be32_overlaid lp_field_def)
  have n: "\<not> length (visible d) < HeaderSize" using vis' by (simp add: HeaderSize_def)
  have b0: "byte_at d 0 = Ret (Version m)" "byte_at d 1 = Ret (Flags m)"
    using vis' by (simp_all add: byte_at_def head18_def)
  have r1: "read_with get16 (sub_slice d 2 4) = Ret (ServiceTypeOf m)"
    by (rule be16.read_with_sub_slice [of d ?a]) (simp_all add: vis' head18_def)
  have r2: "read_with get16 (sub_slice d 4 6) = Ret (MessageTypeOf m)"
    by (rule be16.read_with_sub_slice [of d ?b]) (simp_all add: vis' head18_def)
  have r3: "read_with get32 (sub_slice d 6 10) = Ret (SequenceID m)"
    by (rule be32.read_with_sub_slice [of d ?c]) (simp_all add: vis' head18_def)
  have r4: "read_with get64 (sub_slice d 10 18) = Ret (Timestamp m)"
    by (rule be64.read_with_sub_slice [of d ?d]) (simp_all add: vis' head18_def)
  have r5: "read_with get32 (sub_slice d 18 22) = Ret pl"
    by (rule be32.read_with_sub_slice [of d "head18 m"]) (simp_all add: vis')
  have f1: "get_field ShortSourceLength ShortSource d HeaderSize =
      Ret (SourceService m, 20 + (2 + length (SourceService m)))"
    unfolding HeaderSize_def by (rule get_field_field16 [of ?h]) (simp_all add: vis lens)
  have f2: "get_field ShortDestinationLength ShortDestination d
        (20 + (2 + length (SourceService m))) =
      Ret (DestinationService m, 20 + (2 + length (SourceService m)) +
        (2 + length (DestinationService m)))"
    by (rule get_field_field16 [of "?h @ ?fs"]) (simp_all add: vis lens flen)
  have f3: "get_field ShortCorrelationLength ShortCorrelation d
        (20 + (2 + length (SourceService m)) + (2 + length (DestinationService m))) =
      Ret (CorrelationID m, 20 + (2 + length (SourceService m)) +
        (2 + length (DestinationService m)) + (2 + length (CorrelationID m)))"
    by (rule get_field_field16 [of "?h @ ?fs @ ?fd"]) (simp_all add: vis lens flen)
  let ?off = "20 + (2 + length (SourceService m)) +
        (2 + length (DestinationService m)) + (2 + length (CorrelationID m)) +
        (2 + length (SessionID m))"
  have f4: "get_field ShortSessionLength ShortSession d
        (20 + (2 + length (SourceService m)) + (2 + length (DestinationService m)) +
          (2 + length (CorrelationID m))) = Ret (SessionID m, ?off)"
    by (rule get_field_field16 [of "?h @ ?fs @ ?fd @ ?fc"]) (simp_all add: vis lens flen)
  have p: "lp_body ShortPayload d ?off (unat pl) =
      (if length rest < unat pl then Fail ShortPayload
       else Ret (take (unat pl) rest, ?off + unat pl))"
    using vis by (simp add: lp_body_Ret_iff lp_body_Fail_iff flen not_less)
  show ?thesis
    using n unfolding Decode_def b0 r1 r2 r3 r4 r5
    by (simp only: if_False go_bind.simps f1 f2 f3 f4 p prod.case) simp
qed

lemma message_wire_clip:
  "message_wire m = head18 (m\<lparr>CorrelationID := clip16 (CorrelationID m),
     SessionID := clip16 (SessionID m)\<rparr>) @ take 2 (be32 (PayloadLength m)) @
     field16 (bytes_of (clip16 (SourceService m))) @
     field16 (bytes_of (clip16 (DestinationService m))) @
     field16 (bytes_of (clip16 (CorrelationID m))) @
     field16 (bytes_of (clip16 (SessionID m))) @ Payload m"
  by (simp add: message_wire_def head18_def)

lemma encodable_names:
  assumes "encodable m"
  shows "clip16 (SourceService m) = SourceService m"
    and "clip16 (DestinationService m) = DestinationService m"
    and "length (SourceService m) < 65536" and "length (DestinationService m) < 65536"
  using assms by (simp_all add: encodable_def MaxServiceNameSize_def clip16_id)

lemma Decode_message_wire:
  assumes "encodable m" and "visible d = message_wire m"
    and pl: "pl = overlaid_length (PayloadLength m) (length (SourceService m))"
  shows "Decode d =
    (if Version m \<noteq> ProtocolVersion then Fail (UnsupportedVersion (Version m))
     else if length (Payload m) < unat pl then Fail ShortPayload
     else Ret (m\<lparr>PayloadLength := pl, CorrelationID := clip16 (CorrelationID m),
                 SessionID := clip16 (SessionID m), Payload := take (unat pl) (Payload m)\<rparr>))"
proof -
  let ?m = "m\<lparr>CorrelationID := clip16 (CorrelationID m), SessionID := clip16 (SessionID m)\<rparr>"
  have "visible d = head18 ?m @ take 2 (be32 (PayloadLength ?m)) @
      field16 (bytes_of (SourceService ?m)) @ field16 (bytes_of (DestinationService ?m)) @
      field16 (bytes_of (CorrelationID ?m)) @ field16 (bytes_of (SessionID ?m)) @ Payload m"
    using assms(2) encodable_names [OF assms(1)] by (simp add: message_wire_clip)
  from Decode_layout [OF this] pl encodable_names [OF assms(1)] show ?thesis by simp
qed

text \<open>Decoding what \<open>Encode\<close> returned gives back the version, flags, types, sequence,
  timestamp and the four strings (identifiers clipped to their length modulo 65536), but the low
  16 bits of the payload length come back as the length of the source service name: the payload
  is cut to that length, or the decoder reports a short payload.\<close>

theorem Decode_Encode:
  assumes "Encode m = Ret bs"
    and "pl = overlaid_length (PayloadLength m) (length (SourceService m))"
  shows "Decode (exact_slice bs) =
    (if Version m \<noteq> ProtocolVersion then Fail (UnsupportedVersion (Version m))
     else if length (Payload m) < unat pl then Fail ShortPayload
     else Ret (m\<lparr>PayloadLength := pl, CorrelationID := clip16 (CorrelationID m),
                 SessionID := clip16 (SessionID m), Payload := take (unat pl) (Payload m)\<rparr>))"
proof -
  have "encodable m" using assms(1)
    by (auto simp: Encode_def encodable_def split: if_splits)
  moreover from Encode_wire [OF this] assms(1) have "bs = message_wire m" by simp
  ultimately show ?thesis
    by (intro Decode_message_wire assms(2)) simp_all
qed

definition sample_message :: Message where
  "sample_message = \<lparr>Version = 1, Flags = 4, ServiceTypeOf = 2, MessageTypeOf = 7,
     SequenceID = 9, Timestamp = 1000, PayloadLength = 5, SourceService = ''gw'',
     DestinationService = ''chat'', CorrelationID = ''c1'', SessionID = ''s1'',
     Payload = [10, 11, 12, 13, 14]\<rparr>"

lemma sample_encodable: "encodable sample_message"
  by (simp add: encodable_def sample_message_def MaxPayloadSize_def MaxMessageSize_def
      HeaderSize_def MaxServiceNameSize_def)

theorem Decode_Encode_witness:
  "Encode sample_message = Ret (message_wire sample_message) \<and>
   Decode (exact_slice (message_wire sample_message)) =
     Ret (sample_message\<lparr>PayloadLength := 2, Payload := [10, 11]\<rparr>)"
proof -
  have "2 = overlaid_length (PayloadLength sample_message) (length (SourceService sample_message))"
    by (simp add: sample_message_def overlaid_length_def)
  from Decode_Encode [OF Encode_wire [OF sample_encodable] this] Encode_wire [OF sample_encodable]
  show ?thesis
    by (simp add: sample_message_def ProtocolVersion_def clip16_def)
qed

text \<open>C1: the exact condition under which the codec round-trips: the version is 1, the payload
  length field is the length of the payload, its low 16 bits happen to be the length of
  the source service name, and neither identifier reaches 65536 bytes.\<close>

theorem Decode_Encode_iff:
  assumes "Encode m = Ret bs"
  shows "Decode (exact_slice bs) = Ret m \<longleftrightarrow>
    Version m = ProtocolVersion \<and> unat (PayloadLength m) = length (Payload m) \<and>
    unat (PayloadLength m) mod 65536 = length (SourceService m) \<and>
    length (CorrelationID m) < 65536 \<and> length (SessionID m) < 65536"
proof -
  define pl where "pl = overlaid_length (PayloadLength m) (length (SourceService m))"
  have e: "encodable m" using assms
    by (auto simp: Encode_def encodable_def split: if_splits)
  then have bs: "bs = message_wire m" using Encode_wire assms by simp
  have dec: "Decode (exact_slice bs) =
    (if Version m \<noteq> ProtocolVersion then Fail (UnsupportedVersion (Version m))
     else if length (Payload m) < unat pl then Fail ShortPayload
     else Ret (m\<lparr>PayloadLength := pl, CorrelationID := clip16 (CorrelationID m),
                 SessionID := clip16 (SessionID m), Payload := take (unat pl) (Payload m)\<rparr>))"
    by (rule Decode_message_wire [OF e _ pl_def]) (simp add: bs)
  have same: "m\<lparr>PayloadLength := pl, CorrelationID := clip16 (CorrelationID m),
        SessionID := clip16 (SessionID m), Payload := take (unat pl) (Payload m)\<rparr> = m \<longleftrightarrow>
      pl = PayloadLength m \<and> length (CorrelationID m) < 65536 \<and> length (SessionID m) < 65536 \<and>
      length (Payload m) \<le> unat pl"
    by (cases m) (simp add: clip16_id)
  have pl: "pl = PayloadLength m \<longleftrightarrow> unat (PayloadLength m) mod 65536 = length (SourceService m)"
    unfolding pl_def by (rule overlaid_length_id_iff) (rule encodable_names(3) [OF e])
  have "Decode (exact_slice bs) = Ret m \<longleftrightarrow> Version m = ProtocolVersion \<and>
      unat pl \<le> length (Payload m) \<and> pl = PayloadLength m \<and>
      length (CorrelationID m) < 65536 \<and> length (SessionID m) < 65536 \<and>
      length (Payload m) \<le> unat pl"
    unfolding dec by (simp add: same not_less)
  then show ?thesis unfolding pl [symmetric] by auto
qed

theorem Decode_Encode_iff_witness:
  "Encode (sample_message\<lparr>SourceService := ''gate1''\<rparr>) =
     Ret (message_wire (sample_message\<lparr>SourceService := ''gate1''\<rparr>)) \<and>
   Decode (exact_slice (message_wire (sample_message\<lparr>SourceService := ''gate1''\<rparr>))) =
     Ret (sample_message\<lparr>SourceService := ''gate1''\<rparr>)"
proof -
  let ?m = "sample_message\<lparr>SourceService := ''gate1''\<rparr>"
  have "encodable ?m"
    by (simp add: encodable_def sample_message_def MaxPayloadSize_def MaxMessageSize_def
      HeaderSize_def MaxServiceNameSize_def)
  then have "Encode ?m = Ret (message_wire ?m)" by (rule Encode_wire)
  with Decode_Encode_iff [OF this] show ?thesis
    by (simp add: sample_message_def ProtocolVersion_def)
qed

section \<open>Decoding arbitrary bytes\<close>

lemma get_field_not_Panic [simp]: "get_field e1 e2 d off \<noteq> Panic"
  by (auto simp: get_field_def go_bind_Panic_iff lp16.lp_read_not_Panic)

text \<open>C34: \<open>Decode\<close> panics on exactly the slices whose length is 20 or 21 and whose capacity is
  below 22; on every other input it returns a message or an error.\<close>

theorem Decode_Panic_iff:
  "Decode d = Panic \<longleftrightarrow>
     20 \<le> length (visible d) \<and> length (visible d) < 22 \<and> slice_cap d < 22"
proof (cases "length (visible d) < 20")
  case True
  then show ?thesis by (simp add: Decode_def HeaderSize_def)
next
  case False
  then have cap: "20 \<le> slice_cap d" by (simp add: slice_cap_def)
  have b: "byte_at d 0 = Ret (visible d ! 0)" "byte_at d 1 = Ret (visible d ! 1)"
    using False by (auto simp: byte_at_def not_less)
  obtain r1 where "read_with get16 (sub_slice d 2 4) = (Ret r1 :: (decode_error, u16) go)"
    by (rule be16.read_sub_ok [of 4 2 d]) (use cap in simp_all)
  moreover obtain r2 where "read_with get16 (sub_slice d 4 6) = (Ret r2 :: (decode_error, u16) go)"
    by (rule be16.read_sub_ok [of 6 4 d]) (use cap in simp_all)
  moreover obtain r3 where "read_with get32 (sub_slice d 6 10) = (Ret r3 :: (decode_error, u32) go)"
    by (rule be32.read_sub_ok [of 10 6 d]) (use cap in simp_all)
  moreover obtain r4 where "read_with get64 (sub_slice d 10 18) = (Ret r4 :: (decode_error, u64) go)"
    by (rule be64.read_sub_ok [of 18 10 d]) (use cap in simp_all)
  moreover have r5: "read_with get32 (sub_slice d 18 22) = (Panic :: (decode_error, u32) go) \<longleftrightarrow>
      slice_cap d < 22"
    by (rule be32.read_sub_Panic_iff) simp
  moreover consider (short) "slice_cap d < 22"
      "read_with get32 (sub_slice d 18 22) = (Panic :: (decode_error, u32) go)"
    | (long) r5 where "\<not> slice_cap d < 22"
      "read_with get32 (sub_slice d 18 22) = (Ret r5 :: (decode_error, u32) go)"
    using r5 by (cases "read_with get32 (sub_slice d 18 22) :: (decode_error, u32) go")
      (auto simp: be32.read_sub_not_Fail)
  ultimately have "Decode d = Panic \<longleftrightarrow> slice_cap d < 22"
    using False
    by cases (simp_all add: Decode_def HeaderSize_def b [simplified] go_bind_Panic_iff split_def)
  then show ?thesis using False by (auto simp: slice_cap_def)
qed

lemma get_field_Ret:
  assumes "get_field e1 e2 d off = Ret (s, off')"
  shows "off' = off + (2 + length s)" and "length s < 65536" and "off' \<le> length (visible d)"
    and "take off' (visible d) = take off (visible d) @ field16 (bytes_of s)"
proof -
  from assms obtain bs where "lp_read get16 2 unat e1 e2 d off = Ret (bs, off')"
    and s: "s = string_of bs"
    by (auto simp: get_field_def go_bind_Ret_iff)
  note r = lp16.lp_read_Ret [OF this(1)]
  have bs: "bytes_of s = bs" using s by simp
  then have "length s = length bs" by (metis length_bytes_of)
  with r bs show "off' = off + (2 + length s)" "length s < 65536" "off' \<le> length (visible d)"
    "take off' (visible d) = take off (visible d) @ field16 (bytes_of s)"
    by simp_all
qed

text \<open>What a successful \<open>Decode\<close> read, in the order of the code.\<close>

lemma Decode_RetE:
  assumes "Decode d = Ret m"
  obtains off1 off2 off3 off4 where
    "20 \<le> length (visible d)" "Version m = ProtocolVersion"
    "visible d ! 0 = Version m" "visible d ! 1 = Flags m"
    "read_with get16 (sub_slice d 2 4) = (Ret (ServiceTypeOf m) :: (decode_error, u16) go)"
    "read_with get16 (sub_slice d 4 6) = (Ret (MessageTypeOf m) :: (decode_error, u16) go)"
    "read_with get32 (sub_slice d 6 10) = (Ret (SequenceID m) :: (decode_error, u32) go)"
    "read_with get64 (sub_slice d 10 18) = (Ret (Timestamp m) :: (decode_error, u64) go)"
    "read_with get32 (sub_slice d 18 22) = (Ret (PayloadLength m) :: (decode_error, u32) go)"
    "get_field ShortSourceLength ShortSource d 20 = Ret (SourceService m, off1)"
    "get_field ShortDestinationLength ShortDestination d off1 = Ret (DestinationService m, off2)"
    "get_field ShortCorrelationLength ShortCorrelation d off2 = Ret (CorrelationID m, off3)"
    "get_field ShortSessionLength ShortSession d off3 = Ret (SessionID m, off4)"
    "off4 + unat (PayloadLength m) \<le> length (visible d)"
    "Payload m = take (unat (PayloadLength m)) (drop off4 (visible d))"
  using assms unfolding Decode_def HeaderSize_def
  by (auto simp: go_bind_Ret_iff byte_at_def lp_body_Ret_iff split: if_splits)

definition decoded_ok :: "Message \<Rightarrow> bool" where
  "decoded_ok m \<longleftrightarrow> Version m = ProtocolVersion \<and>
     unat (PayloadLength m) = length (Payload m) \<and>
     unat (PayloadLength m) mod 65536 = length (SourceService m) \<and>
     length (DestinationService m) < 65536 \<and> length (CorrelationID m) < 65536 \<and>
     length (SessionID m) < 65536"

lemma be16_low_half: "drop 2 (be32 w) = be16 v \<Longrightarrow> unat w mod 65536 = unat v"
proof -
  assume "drop 2 (be32 w) = be16 v"
  then have "be_val (be_bytes 2 (unat w)) = be_val (be_bytes 2 (unat v))"
    by (simp add: be32_halves be16_def put_be_def)
  moreover have "unat v < 65536" using unsigned_less [where w = v] by simp
  ultimately show ?thesis by (simp add: be_val_be_bytes)
qed

lemma Decode_wire:
  assumes "Decode d = Ret m"
  shows "decoded_ok m \<and> (\<exists>rest. visible d = message_wire m @ rest)"
proof -
  let ?v = "visible d"
  from assms obtain off1 off2 off3 off4 where n: "20 \<le> length ?v"
    and ver: "Version m = ProtocolVersion" and b: "?v ! 0 = Version m" "?v ! 1 = Flags m"
    and r: "read_with get16 (sub_slice d 2 4) = (Ret (ServiceTypeOf m) :: (decode_error, u16) go)"
      "read_with get16 (sub_slice d 4 6) = (Ret (MessageTypeOf m) :: (decode_error, u16) go)"
      "read_with get32 (sub_slice d 6 10) = (Ret (SequenceID m) :: (decode_error, u32) go)"
      "read_with get64 (sub_slice d 10 18) = (Ret (Timestamp m) :: (decode_error, u64) go)"
      "read_with get32 (sub_slice d 18 22) = (Ret (PayloadLength m) :: (decode_error, u32) go)"
    and f: "get_field ShortSourceLength ShortSource d 20 = Ret (SourceService m, off1)"
      "get_field ShortDestinationLength ShortDestination d off1 = Ret (DestinationService m, off2)"
      "get_field ShortCorrelationLength ShortCorrelation d off2 = Ret (CorrelationID m, off3)"
      "get_field ShortSessionLength ShortSession d off3 = Ret (SessionID m, off4)"
    and pl: "off4 + unat (PayloadLength m) \<le> length ?v"
      "Payload m = take (unat (PayloadLength m)) (drop off4 ?v)"
    by (rule Decode_RetE)
  note f1 = get_field_Ret [OF f(1)] and f2 = get_field_Ret [OF f(2)]
    and f3 = get_field_Ret [OF f(3)] and f4 = get_field_Ret [OF f(4)]
  have n22: "22 \<le> length ?v" using f1(1,3) by simp
  have "take 2 ?v = [Version m, Flags m]"
    using n b by (cases ?v rule: remdups_adj.cases) (auto simp: numeral_2_eq_2)
  then have h18: "take 18 ?v = head18 m"
    using be16.read_sub_Ret [OF r(1)] be16.read_sub_Ret [OF r(2)] be32.read_sub_Ret [OF r(3)]
      be64.read_sub_Ret [OF r(4)] n by (simp add: head18_def)
  have h22: "take 22 ?v = head18 m @ be32 (PayloadLength m)"
    using be32.read_sub_Ret [OF r(5)] h18 n22 by simp
  then have "take 20 (take 22 ?v) = head18 m @ take 2 (be32 (PayloadLength m))" by simp
  then have h20: "take 20 ?v = head18 m @ take 2 (be32 (PayloadLength m))" by simp
  have all: "take (off4 + unat (PayloadLength m)) ?v = head18 m @
      take 2 (be32 (PayloadLength m)) @ field16 (bytes_of (SourceService m)) @
      field16 (bytes_of (DestinationService m)) @ field16 (bytes_of (CorrelationID m)) @
      field16 (bytes_of (SessionID m)) @ Payload m"
    unfolding take_add f4(4) f3(4) f2(4) f1(4) h20 pl(2) by simp
  have "take 22 (take off1 ?v) = take 22 ?v" using f1(1) by simp
  then have "take 2 (be32 (PayloadLength m)) @ be16 (word_of_nat (length (SourceService m))) =
      be32 (PayloadLength m)"
    using f1(4) h20 h22 by (auto simp: lp_field_def)
  then have "drop 2 (be32 (PayloadLength m)) = be16 (word_of_nat (length (SourceService m)))"
    by (metis append_take_drop_id same_append_eq)
  then have low: "unat (PayloadLength m) mod 65536 = length (SourceService m)"
    using be16_low_half f1(2) by (simp add: unat_len16)
  have "message_wire m = take (off4 + unat (PayloadLength m)) ?v"
    unfolding all message_wire_def using f1(2) f2(2) f3(2) f4(2) by (simp add: clip16_id [THEN iffD2])
  moreover have "decoded_ok m"
    using ver low pl f2(2) f3(2) f4(2) by (simp add: decoded_ok_def)
  ultimately show ?thesis by (metis append_take_drop_id)
qed

text \<open>Every message that \<open>Decode\<close> returns satisfies \<open>decoded_ok\<close>, its input starts with
  the message's own layout, and re-encoding it (when its names and payload respect the limits)
  gives back exactly the bytes that were consumed.\<close>

theorem Encode_after_Decode:
  assumes "Decode d = Ret m"
  shows "decoded_ok m \<and> (\<exists>rest. visible d = message_wire m @ rest) \<and>
    (encodable m \<longrightarrow> Encode m = Ret (take (length (message_wire m)) (visible d)))"
  using Decode_wire [OF assms] Encode_wire [of m] by auto

theorem Encode_after_Decode_witness:
  "let m = sample_message\<lparr>SourceService := ''gate1''\<rparr>; bs = message_wire m @ [1, 2, 3] in
     Decode (exact_slice bs) = Ret m \<and> decoded_ok m \<and>
     Encode m = Ret (take (length (message_wire m)) bs)"
proof -
  let ?m = "sample_message\<lparr>SourceService := ''gate1''\<rparr>"
  let ?bs = "message_wire ?m @ [1, 2, 3]"
  have e: "encodable ?m"
    by (simp add: encodable_def sample_message_def MaxPayloadSize_def MaxMessageSize_def
      HeaderSize_def MaxServiceNameSize_def)
  have "Decode (exact_slice ?bs) = Ret ?m"
    by (subst Decode_layout [of _ ?m "Payload ?m @ [1, 2, 3]", OF _ _ _ _ _ refl])
      (simp_all add: message_wire_def sample_message_def clip16_def overlaid_length_def
        ProtocolVersion_def)
  with Encode_after_Decode [OF this] e show ?thesis by (simp add: Let_def)
qed

text \<open>The flag operations act bit by bit: setting a flag makes \<open>HasFlag\<close> true of it and of
  what was set before, clearing removes exactly the cleared bits.\<close>

theorem flag_ops:
  "(HasFlag g (SetFlag f m) \<longleftrightarrow> HasFlag g m \<or> f AND g \<noteq> 0) \<and>
   (HasFlag g (ClearFlag f m) \<longleftrightarrow> (Flags m AND g) AND NOT f \<noteq> 0) \<and>
   \<not> HasFlag f (ClearFlag f m)"
proof (intro conjI)
  show "HasFlag g (SetFlag f m) \<longleftrightarrow> HasFlag g m \<or> f AND g \<noteq> 0"
    by (simp add: HasFlag_def SetFlag_def bit.conj_disj_distrib2 or_eq_0_iff)
  show "HasFlag g (ClearFlag f m) \<longleftrightarrow> (Flags m AND g) AND NOT f \<noteq> 0"
    by (simp add: HasFlag_def ClearFlag_def ac_simps)
  show "\<not> HasFlag f (ClearFlag f m)"
    by (auto simp: HasFlag_def ClearFlag_def bit_eq_iff bit_simps)
qed

end
