(* ===== verification/Rpc_Codec.thy ===== *)
theory Rpc_Codec
  imports Go_Prelude
begin

text \<open>
  The RPC wire format of \<^verbatim>\<open>src/pkg/rpc/protocol.go\<close> and the helpers of
  \<^verbatim>\<open>src/pkg/rpc/rpc.go\<close> built on it: \<open>parseServiceMethod\<close> and the four
  \<^verbatim>\<open>Serialize\<close>/\<^verbatim>\<open>Deserialize\<close> functions. The protobuf encoder is
  a parameter. The \<^verbatim>\<open>UnmarshalBinary\<close> methods return the receiver as they leave it,
  since they keep what was already written when they return an error.
\<close>

section \<open>Wire records\<close>

record ProtocolRPCRequest =
  req_ServiceMethod :: string
  req_Sequence :: u64
  req_ArgsData :: "byte list"

record ProtocolRPCResponse =
  resp_ServiceMethod :: string
  resp_Sequence :: u64
  resp_Error :: string
  resp_ReplyData :: "byte list"

datatype rpc_error =
    RpcTooShort
  | ServiceMethodExceeds
  | NoArgsLength | ArgsExceed
  | NoErrorLength | ErrorExceeds
  | NoReplyLength | ReplyExceeds
  | IllFormedServiceMethod string
  | MarshalFailed

section \<open>Marshalling\<close>

text \<open>
  \<^verbatim>\<open>PutUint32(result[offset:], uint32(n)); offset += 4; copy(result[offset:], bs);
  offset += n\<close>.
\<close>

definition rpc_put_field ::
    "byte list \<Rightarrow> byte list \<times> nat \<Rightarrow> (rpc_error, byte list \<times> nat) go" where
  "rpc_put_field bs = (\<lambda>(result, offset).
     go_bind (poke offset (be32 (word_of_nat (length bs))) result) (\<lambda>result.
     let offset = offset + 4 in
     go_bind (copy_into offset (length result) bs result) (\<lambda>result.
     Ret (result, offset + length bs))))"

definition MarshalBinary_request :: "ProtocolRPCRequest \<Rightarrow> (rpc_error, byte list) go" where
  "MarshalBinary_request r =
     (let serviceMethodLen = length (req_ServiceMethod r);
          argsDataLen = length (req_ArgsData r);
          totalLen = 8 + (4 + serviceMethodLen) + (4 + argsDataLen)
      in
      go_bind (poke 0 (be64 (req_Sequence r)) (replicate totalLen 0)) (\<lambda>result.
      go_bind (rpc_put_field (bytes_of (req_ServiceMethod r)) (result, 8)) (\<lambda>ro.
      go_bind (rpc_put_field (req_ArgsData r) ro) (\<lambda>(result, _).
      Ret result))))"

definition MarshalBinary_response :: "ProtocolRPCResponse \<Rightarrow> (rpc_error, byte list) go" where
  "MarshalBinary_response r =
     (let serviceMethodLen = length (resp_ServiceMethod r);
          errorLen = length (resp_Error r);
          replyDataLen = length (resp_ReplyData r);
          totalLen = 8 + (4 + serviceMethodLen) + (4 + errorLen) + (4 + replyDataLen)
      in
      go_bind (poke 0 (be64 (resp_Sequence r)) (replicate totalLen 0)) (\<lambda>result.
      go_bind (rpc_put_field (bytes_of (resp_ServiceMethod r)) (result, 8)) (\<lambda>ro.
      go_bind (rpc_put_field (bytes_of (resp_Error r)) ro) (\<lambda>ro.
      go_bind (rpc_put_field (resp_ReplyData r) ro) (\<lambda>(result, _).
      Ret result)))))"

section \<open>Unmarshalling\<close>

text \<open>
  A field whose length is read from \<^verbatim>\<open>data[offset:]\<close> without a check of its own, and
  the same with the check \<^verbatim>\<open>len(data) < offset+4\<close> in front.
\<close>

definition rpc_field_body :: "rpc_error \<Rightarrow> go_slice \<Rightarrow> nat \<Rightarrow> (rpc_error, byte list \<times> nat) go" where
  "rpc_field_body short d offset =
     go_bind (read_with get32 (tail_slice d offset)) (\<lambda>n. lp_body short d (offset + 4) (unat n))"

definition rpc_field ::
    "rpc_error \<Rightarrow> rpc_error \<Rightarrow> go_slice \<Rightarrow> nat \<Rightarrow> (rpc_error, byte list \<times> nat) go" where
  "rpc_field no_len short d offset =
     (if length (visible d) < offset + 4 then Fail no_len else rpc_field_body short d offset)"

definition UnmarshalBinary_request ::
    "go_slice \<Rightarrow> ProtocolRPCRequest \<Rightarrow> ProtocolRPCRequest \<times> (rpc_error, unit) go" where
  "UnmarshalBinary_request d r =
     (if length (visible d) < 16 then (r, Fail RpcTooShort)
      else
        with_recv r (read_with get64 (tail_slice d 0)) (\<lambda>sq.
        let r = r\<lparr>req_Sequence := sq\<rparr> in
        with_recv r (rpc_field_body ServiceMethodExceeds d 8) (\<lambda>(sm, offset).
        let r = r\<lparr>req_ServiceMethod := string_of sm\<rparr> in
        with_recv r (rpc_field NoArgsLength ArgsExceed d offset) (\<lambda>(args, _).
        (r\<lparr>req_ArgsData := args\<rparr>, Ret ())))))"

definition UnmarshalBinary_response ::
    "go_slice \<Rightarrow> ProtocolRPCResponse \<Rightarrow> ProtocolRPCResponse \<times> (rpc_error, unit) go" where
  "UnmarshalBinary_response d r =
     (if length (visible d) < 20 then (r, Fail RpcTooShort)
      else
        with_recv r (read_with get64 (tail_slice d 0)) (\<lambda>sq.
        let r = r\<lparr>resp_Sequence := sq\<rparr> in
        with_recv r (rpc_field_body ServiceMethodExceeds d 8) (\<lambda>(sm, offset).
        let r = r\<lparr>resp_ServiceMethod := string_of sm\<rparr> in
        with_recv r (rpc_field NoErrorLength ErrorExceeds d offset) (\<lambda>(err, offset).
        let r = r\<lparr>resp_Error := string_of err\<rparr> in
        with_recv r (rpc_field NoReplyLength ReplyExceeds d offset) (\<lambda>(reply, _).
        (r\<lparr>resp_ReplyData := reply\<rparr>, Ret ()))))))"

section \<open>Service and method names\<close>

text \<open>The loop: the index of the first dot, or 0 when there is none.\<close>

fun find_dot :: "nat \<Rightarrow> string \<Rightarrow> nat" where
  "find_dot i [] = 0"
| "find_dot i (c # cs) = (if c = CHR ''.'' then i else find_dot (Suc i) cs)"

definition parseServiceMethod :: "string \<Rightarrow> (rpc_error, string \<times> string) go" where
  "parseServiceMethod serviceMethod =
     (let dot = find_dot 0 serviceMethod in
      if dot = 0 then Fail (IllFormedServiceMethod serviceMethod)
      else Ret (take dot serviceMethod, drop (dot + 1) serviceMethod))"

section \<open>Requests and responses with protobuf arguments\<close>

record ('p, 'c) RPCRequest =
  rq_ServiceMethod :: string
  rq_Sequence :: u64
  rq_Args :: "'p option"
  rq_Context :: 'c

record 'p RPCResponse =
  rs_ServiceMethod :: string
  rs_Sequence :: u64
  rs_Error :: string
  rs_Reply :: "'p option"

text \<open>\<open>marshal\<close> stands for \<^verbatim>\<open>proto.Marshal\<close>.\<close>

definition marshal_opt :: "('p \<Rightarrow> byte list option) \<Rightarrow> 'p option \<Rightarrow> (rpc_error, byte list) go" where
  "marshal_opt marshal a =
     (case a of None \<Rightarrow> Ret []
      | Some p \<Rightarrow> (case marshal p of None \<Rightarrow> Fail MarshalFailed | Some bs \<Rightarrow> Ret bs))"

definition SerializeRequest ::
    "('p \<Rightarrow> byte list option) \<Rightarrow> ('p, 'c) RPCRequest \<Rightarrow> (rpc_error, byte list) go" where
  "SerializeRequest marshal req =
     go_bind (marshal_opt marshal (rq_Args req)) (\<lambda>argsBytes.
     MarshalBinary_request
       \<lparr>req_ServiceMethod = rq_ServiceMethod req, req_Sequence = rq_Sequence req,
        req_ArgsData = argsBytes\<rparr>)"

definition DeserializeRequest ::
    "go_slice \<Rightarrow> 'c \<Rightarrow> (rpc_error, ('p, 'c) RPCRequest) go" where
  "DeserializeRequest d ctx =
     (let (r, res) = UnmarshalBinary_request d
            \<lparr>req_ServiceMethod = [], req_Sequence = 0, req_ArgsData = []\<rparr> in
      go_bind res (\<lambda>_.
      Ret \<lparr>rq_ServiceMethod = req_ServiceMethod r, rq_Sequence = req_Sequence r,
           rq_Args = None, rq_Context = ctx\<rparr>))"

definition SerializeResponse ::
    "('p \<Rightarrow> byte list option) \<Rightarrow> 'p RPCResponse \<Rightarrow> (rpc_error, byte list) go" where
  "SerializeResponse marshal resp =
     go_bind (marshal_opt marshal (rs_Reply resp)) (\<lambda>replyBytes.
     MarshalBinary_response
       \<lparr>resp_ServiceMethod = rs_ServiceMethod resp, resp_Sequence = rs_Sequence resp,
        resp_Error = rs_Error resp, resp_ReplyData = replyBytes\<rparr>)"

definition DeserializeResponse :: "go_slice \<Rightarrow> (rpc_error, 'p RPCResponse) go" where
  "DeserializeResponse d =
     (let (r, res) = UnmarshalBinary_response d
            \<lparr>resp_ServiceMethod = [], resp_Sequence = 0, resp_Error = [], resp_ReplyData = []\<rparr> in
      go_bind res (\<lambda>_.
      Ret \<lparr>rs_ServiceMethod = resp_ServiceMethod r, rs_Sequence = resp_Sequence r,
           rs_Error = resp_Error r, rs_Reply = None\<rparr>))"

section \<open>Layouts\<close>

abbreviation field32 :: "byte list \<Rightarrow> byte list" where
  "field32 \<equiv> lp_field be32 word_of_nat"

definition request_wire :: "ProtocolRPCRequest \<Rightarrow> byte list" where
  "request_wire r = be64 (req_Sequence r) @ field32 (bytes_of (req_ServiceMethod r)) @
     field32 (req_ArgsData r)"

definition response_wire :: "ProtocolRPCResponse \<Rightarrow> byte list" where
  "response_wire r = be64 (resp_Sequence r) @ field32 (bytes_of (resp_ServiceMethod r)) @
     field32 (bytes_of (resp_Error r)) @ field32 (resp_ReplyData r)"

definition request_small :: "ProtocolRPCRequest \<Rightarrow> bool" where
  "request_small r \<longleftrightarrow>
     length (req_ServiceMethod r) < 2 ^ 32 \<and> length (req_ArgsData r) < 2 ^ 32"

definition response_small :: "ProtocolRPCResponse \<Rightarrow> bool" where
  "response_small r \<longleftrightarrow> length (resp_ServiceMethod r) < 2 ^ 32 \<and>
     length (resp_Error r) < 2 ^ 32 \<and> length (resp_ReplyData r) < 2 ^ 32"

lemma length_field32: "length (field32 bs) = 4 + length bs"
  by (rule lp32.length_field)

lemma rpc_put_field_zeros:
  assumes "length done = off" and "k = (4 + length bs) + k'"
  shows "rpc_put_field bs (done @ replicate k 0, off) =
    Ret ((done @ field32 bs) @ replicate k' 0, off + (4 + length bs))"
proof -
  let ?len = "be32 (word_of_nat (length bs))"
  have "poke off ?len (done @ replicate k 0) =
      (Ret ((done @ ?len) @ replicate (length bs + k') 0) :: (rpc_error, byte list) go)"
    using poke_next [where 'e = rpc_error, of "done" off ?len k] assms by simp
  moreover have "copy_into (off + 4)
        (length ((done @ ?len) @ replicate (length bs + k') (0::byte))) bs
        ((done @ ?len) @ replicate (length bs + k') 0) =
      (Ret (((done @ ?len) @ bs) @ replicate k' 0) :: (rpc_error, byte list) go)"
    by (rule copy_into_tail) (use assms in simp_all)
  ultimately show ?thesis
    by (simp add: rpc_put_field_def lp_field_def)
qed

lemma poke_sequence:
  "poke 0 (be64 w) (replicate (8 + k) 0) = Ret (be64 w @ replicate k 0)"
  by (simp add: poke_def)

lemma MarshalBinary_request_wire: "MarshalBinary_request r = Ret (request_wire r)"
proof -
  let ?sm = "bytes_of (req_ServiceMethod r)"
  let ?sq = "be64 (req_Sequence r)"
  have "rpc_put_field ?sm
      (?sq @ replicate (4 + length ?sm + (4 + length (req_ArgsData r))) 0, 8) =
      Ret ((?sq @ field32 ?sm) @ replicate (4 + length (req_ArgsData r)) 0, 8 + (4 + length ?sm))"
    by (rule rpc_put_field_zeros) simp_all
  moreover have "rpc_put_field (req_ArgsData r)
      ((?sq @ field32 ?sm) @ replicate (4 + length (req_ArgsData r)) 0, 8 + (4 + length ?sm)) =
      Ret (((?sq @ field32 ?sm) @ field32 (req_ArgsData r)) @ replicate 0 0,
        8 + (4 + length ?sm) + (4 + length (req_ArgsData r)))"
    by (rule rpc_put_field_zeros) (simp_all add: length_field32)
  ultimately show ?thesis
    unfolding MarshalBinary_request_def Let_def add.assoc poke_sequence length_bytes_of
    by (simp only: go_bind.simps length_bytes_of prod.case add.assoc)
      (simp add: request_wire_def)
qed

lemma MarshalBinary_response_wire: "MarshalBinary_response r = Ret (response_wire r)"
proof -
  let ?sm = "bytes_of (resp_ServiceMethod r)"
  let ?er = "bytes_of (resp_Error r)"
  let ?rd = "resp_ReplyData r"
  let ?sq = "be64 (resp_Sequence r)"
  have "rpc_put_field ?sm
      (?sq @ replicate (4 + length ?sm + (4 + length ?er + (4 + length ?rd))) 0, 8) =
      Ret ((?sq @ field32 ?sm) @ replicate (4 + length ?er + (4 + length ?rd)) 0,
        8 + (4 + length ?sm))"
    by (rule rpc_put_field_zeros) simp_all
  moreover have "rpc_put_field ?er
      ((?sq @ field32 ?sm) @ replicate (4 + length ?er + (4 + length ?rd)) 0,
        8 + (4 + length ?sm)) =
      Ret (((?sq @ field32 ?sm) @ field32 ?er) @ replicate (4 + length ?rd) 0,
        8 + (4 + length ?sm) + (4 + length ?er))"
    by (rule rpc_put_field_zeros) (simp_all add: length_field32)
  moreover have "rpc_put_field ?rd
      (((?sq @ field32 ?sm) @ field32 ?er) @ replicate (4 + length ?rd) 0,
        8 + (4 + length ?sm) + (4 + length ?er)) =
      Ret ((((?sq @ field32 ?sm) @ field32 ?er) @ field32 ?rd) @ replicate 0 0,
        8 + (4 + length ?sm) + (4 + length ?er) + (4 + length ?rd))"
    by (rule rpc_put_field_zeros) (simp_all add: length_field32)
  ultimately show ?thesis
    unfolding MarshalBinary_response_def Let_def add.assoc poke_sequence length_bytes_of
    by (simp only: go_bind.simps length_bytes_of prod.case add.assoc)
      (simp add: response_wire_def)
qed

section \<open>Parsing back\<close>

lemma rpc_field_lp_read: "rpc_field e1 e2 d off = lp_read get32 4 unat e1 e2 d off"
  by (simp add: rpc_field_def rpc_field_body_def lp_read_def lp32.read_len_tail
      lp32.read_len_sub(1) not_less)

lemma rpc_field_body_lp_read:
  assumes "off + 4 \<le> length (visible d)"
  shows "rpc_field_body e2 d off = lp_read get32 4 unat e1 e2 d off"
  using assms by (simp add: rpc_field_body_def lp_read_def lp32.read_len_tail
      lp32.read_len_sub(1) not_less)

lemma rpc_field_field32:
  assumes "length pre = off" and "length bs < 2 ^ 32"
    and "visible d = pre @ field32 bs @ rest"
  shows "rpc_field e1 e2 d off = Ret (bs, off + (4 + length bs))"
    and "rpc_field_body e2 d off = Ret (bs, off + (4 + length bs))"
proof -
  show f: "rpc_field e1 e2 d off = Ret (bs, off + (4 + length bs))" for e1
    unfolding rpc_field_lp_read using lp32.lp_read_field [OF assms, of e1 e2] by simp
  have "off + 4 \<le> length (visible d)" using assms by (simp add: length_field32)
  then show "rpc_field_body e2 d off = Ret (bs, off + (4 + length bs))"
    using f by (simp add: rpc_field_def)
qed

lemma rpc_field_Ret:
  assumes "rpc_field e1 e2 d off = Ret (bs, off')"
  shows "off' = off + (4 + length bs)" and "length bs < 2 ^ 32" and "off' \<le> length (visible d)"
    and "take off' (visible d) = take off (visible d) @ field32 bs"
  using lp32.lp_read_Ret [OF assms [unfolded rpc_field_lp_read]] by simp_all

lemma rpc_field_body_Ret:
  assumes "rpc_field_body e2 d off = Ret (bs, off')" and "off + 4 \<le> length (visible d)"
  shows "off' = off + (4 + length bs)" and "length bs < 2 ^ 32" and "off' \<le> length (visible d)"
    and "take off' (visible d) = take off (visible d) @ field32 bs"
proof -
  have "rpc_field e2 e2 d off = Ret (bs, off')"
    using assms by (simp add: rpc_field_def)
  from rpc_field_Ret [OF this] show "off' = off + (4 + length bs)" "length bs < 2 ^ 32"
    "off' \<le> length (visible d)" "take off' (visible d) = take off (visible d) @ field32 bs"
    by simp_all
qed

lemma tail_sequence:
  assumes "8 \<le> length (visible d)"
  obtains w where "(read_with get64 (tail_slice d 0) :: (rpc_error, u64) go) = Ret w"
    and "take 8 (visible d) = be64 w"
proof -
  obtain w where w: "get64 (visible d) = Some w" using be64.get_enough [OF assms] by blast
  then have "take 8 (visible d) = be64 w" by (rule be64.get_prefix)
  moreover have "read_with get64 (tail_slice d 0) = (Ret w :: (rpc_error, u64) go)"
    using w by (simp add: read_with_def tail_slice_def)
  ultimately show thesis by (rule that [rotated])
qed

lemma unmarshal_request_wire:
  assumes "request_small r" and "visible d = request_wire r @ rest"
  shows "UnmarshalBinary_request d r0 = (r, Ret ())"
proof -
  let ?sq = "be64 (req_Sequence r)"
  let ?sm = "bytes_of (req_ServiceMethod r)"
  have v: "visible d = ?sq @ field32 ?sm @ field32 (req_ArgsData r) @ rest"
    using assms(2) by (simp add: request_wire_def)
  have "read_with get64 (tail_slice d 0) = (Ret (req_Sequence r) :: (rpc_error, u64) go)"
    by (rule be64.read_with_tail_slice [of d "[]"]) (simp_all add: v)
  moreover have "rpc_field_body ServiceMethodExceeds d 8 = Ret (?sm, 8 + (4 + length ?sm))"
    by (rule rpc_field_field32(2) [of ?sq]) (use assms(1) v in \<open>simp_all add: request_small_def\<close>)
  moreover have "rpc_field NoArgsLength ArgsExceed d (8 + (4 + length ?sm)) =
      Ret (req_ArgsData r, 8 + (4 + length ?sm) + (4 + length (req_ArgsData r)))"
    by (rule rpc_field_field32(1) [of "?sq @ field32 ?sm"])
      (use assms(1) v in \<open>simp_all add: request_small_def length_field32\<close>)
  moreover have "\<not> length (visible d) < 16" by (simp add: v length_field32)
  ultimately show ?thesis
    by (simp add: UnmarshalBinary_request_def Let_def)
qed

lemma unmarshal_request_Ret:
  assumes "UnmarshalBinary_request d r0 = (r, Ret ())"
  shows "request_small r \<and> (\<exists>rest. visible d = request_wire r @ rest)"
proof -
  have n: "16 \<le> length (visible d)"
    using assms by (auto simp: UnmarshalBinary_request_def split: if_splits)
  then obtain sq where sq: "(read_with get64 (tail_slice d 0) :: (rpc_error, u64) go) = Ret sq"
    "take 8 (visible d) = be64 sq" using tail_sequence [of d] by auto
  from assms n sq obtain sm off args off' where
    f: "rpc_field_body ServiceMethodExceeds d 8 = Ret (sm, off)"
      "rpc_field NoArgsLength ArgsExceed d off = Ret (args, off')"
    and r: "r = \<lparr>req_ServiceMethod = string_of sm, req_Sequence = sq, req_ArgsData = args\<rparr>"
    by (cases r0) (auto simp: UnmarshalBinary_request_def Let_def with_recv_def
        split: if_splits go.splits)
  have "8 + 4 \<le> length (visible d)" using n by simp
  note f1 = rpc_field_body_Ret [OF f(1) this] and f2 = rpc_field_Ret [OF f(2)]
  have "take off' (visible d) = request_wire r"
    using f1(4) f2(4) sq(2) r by (simp add: request_wire_def)
  moreover have "request_small r" using f1(2) f2(2) r by (simp add: request_small_def string_of_def)
  ultimately show ?thesis by (metis append_take_drop_id)
qed

text \<open>C6: \<open>UnmarshalBinary\<close> of a request succeeds with receiver \<open>r\<close> exactly on the inputs that
  start with the layout of \<open>r\<close> (whose lengths fit 32 bits), whatever the receiver held before and
  whatever follows; and \<open>MarshalBinary\<close> produces exactly that layout. So every request
  round-trips and the parse is unambiguous.\<close>

theorem request_codec:
  "MarshalBinary_request r = Ret (request_wire r) \<and>
   (UnmarshalBinary_request d r0 = (r, Ret ()) \<longleftrightarrow>
     request_small r \<and> (\<exists>rest. visible d = request_wire r @ rest))"
  using MarshalBinary_request_wire unmarshal_request_Ret unmarshal_request_wire by blast

lemma unmarshal_response_wire:
  assumes "response_small r" and "visible d = response_wire r @ rest"
  shows "UnmarshalBinary_response d r0 = (r, Ret ())"
proof -
  let ?sq = "be64 (resp_Sequence r)"
  let ?sm = "bytes_of (resp_ServiceMethod r)"
  let ?er = "bytes_of (resp_Error r)"
  have v: "visible d = ?sq @ field32 ?sm @ field32 ?er @ field32 (resp_ReplyData r) @ rest"
    using assms(2) by (simp add: response_wire_def)
  have "read_with get64 (tail_slice d 0) = (Ret (resp_Sequence r) :: (rpc_error, u64) go)"
    by (rule be64.read_with_tail_slice [of d "[]"]) (simp_all add: v)
  moreover have "rpc_field_body ServiceMethodExceeds d 8 = Ret (?sm, 8 + (4 + length ?sm))"
    by (rule rpc_field_field32(2) [of ?sq]) (use assms(1) v in \<open>simp_all add: response_small_def\<close>)
  moreover have "rpc_field NoErrorLength ErrorExceeds d (8 + (4 + length ?sm)) =
      Ret (?er, 8 + (4 + length ?sm) + (4 + length ?er))"
    by (rule rpc_field_field32(1) [of "?sq @ field32 ?sm"])
      (use assms(1) v in \<open>simp_all add: response_small_def length_field32\<close>)
  moreover have "rpc_field NoReplyLength ReplyExceeds d (8 + (4 + length ?sm) + (4 + length ?er)) =
      Ret (resp_ReplyData r,
        8 + (4 + length ?sm) + (4 + length ?er) + (4 + length (resp_ReplyData r)))"
    by (rule rpc_field_field32(1) [of "?sq @ field32 ?sm @ field32 ?er"])
      (use assms(1) v in \<open>simp_all add: response_small_def length_field32\<close>)
  moreover have "\<not> length (visible d) < 20" by (simp add: v length_field32)
  ultimately show ?thesis
    by (simp add: UnmarshalBinary_response_def Let_def)
qed

lemma unmarshal_response_Ret:
  assumes "UnmarshalBinary_response d r0 = (r, Ret ())"
  shows "response_small r \<and> (\<exists>rest. visible d = response_wire r @ rest)"
proof -
  have n: "20 \<le> length (visible d)"
    using assms by (auto simp: UnmarshalBinary_response_def split: if_splits)
  then obtain sq where sq: "(read_with get64 (tail_slice d 0) :: (rpc_error, u64) go) = Ret sq"
    "take 8 (visible d) = be64 sq" using tail_sequence [of d] by auto
  from assms n sq obtain sm off er off' reply off'' where
    f: "rpc_field_body ServiceMethodExceeds d 8 = Ret (sm, off)"
      "rpc_field NoErrorLength ErrorExceeds d off = Ret (er, off')"
      "rpc_field NoReplyLength ReplyExceeds d off' = Ret (reply, off'')"
    and r: "r = \<lparr>resp_ServiceMethod = string_of sm, resp_Sequence = sq,
      resp_Error = string_of er, resp_ReplyData = reply\<rparr>"
    by (cases r0) (auto simp: UnmarshalBinary_response_def Let_def with_recv_def
        split: if_splits go.splits)
  have "8 + 4 \<le> length (visible d)" using n by simp
  note f1 = rpc_field_body_Ret [OF f(1) this] and f2 = rpc_field_Ret [OF f(2)]
    and f3 = rpc_field_Ret [OF f(3)]
  have "take off'' (visible d) = response_wire r"
    using f1(4) f2(4) f3(4) sq(2) r by (simp add: response_wire_def)
  moreover have "response_small r"
    using f1(2) f2(2) f3(2) r by (simp add: response_small_def string_of_def)
  ultimately show ?thesis by (metis append_take_drop_id)
qed

text \<open>The same for responses: \<open>MarshalBinary\<close> produces the layout, and \<open>UnmarshalBinary\<close>
  succeeds with receiver \<open>r\<close> exactly on the inputs that start with the layout of \<open>r\<close>.\<close>

theorem response_codec:
  "MarshalBinary_response r = Ret (response_wire r) \<and>
   (UnmarshalBinary_response d r0 = (r, Ret ()) \<longleftrightarrow>
     response_small r \<and> (\<exists>rest. visible d = response_wire r @ rest))"
  using MarshalBinary_response_wire unmarshal_response_Ret unmarshal_response_wire by blast

lemma rpc_field_not_Panic: "rpc_field e1 e2 d off \<noteq> Panic"
  by (simp add: rpc_field_lp_read lp32.lp_read_not_Panic)

lemma rpc_field_body_not_Panic:
  "off + 4 \<le> length (visible d) \<Longrightarrow> rpc_field_body e2 d off \<noteq> Panic"
  using rpc_field_not_Panic [of e2 e2 d off] by (simp add: rpc_field_def)

lemma with_recv_Panic_iff:
  "snd (with_recv r m f) = Panic \<longleftrightarrow> m = Panic \<or> (\<exists>a. m = Ret a \<and> snd (f a) = Panic)"
  by (cases m) auto

text \<open>On no input, however truncated or malicious, do the two \<open>UnmarshalBinary\<close> methods
  panic.\<close>

theorem unmarshal_never_panics:
  "snd (UnmarshalBinary_request d r0) \<noteq> Panic \<and> snd (UnmarshalBinary_response d s0) \<noteq> Panic"
proof (cases "16 \<le> length (visible d)")
  case True
  then have n: "8 + 4 \<le> length (visible d)" by simp
  obtain sq where sq: "(read_with get64 (tail_slice d 0) :: (rpc_error, u64) go) = Ret sq"
    using tail_sequence [of d] n by auto
  note np = with_recv_Panic_iff rpc_field_body_not_Panic [OF n] rpc_field_not_Panic
  have "snd (UnmarshalBinary_request d r0) \<noteq> Panic"
    using sq by (simp add: UnmarshalBinary_request_def Let_def split_def np)
  moreover have "snd (UnmarshalBinary_response d s0) \<noteq> Panic"
    using sq by (simp add: UnmarshalBinary_response_def Let_def split_def np)
  ultimately show ?thesis ..
qed (simp add: UnmarshalBinary_request_def UnmarshalBinary_response_def)

section \<open>Names and whole messages\<close>

lemma find_dot_none: "CHR ''.'' \<notin> set s \<Longrightarrow> find_dot i s = 0"
  by (induction s arbitrary: i) auto

lemma find_dot_first: "CHR ''.'' \<notin> set a \<Longrightarrow> find_dot i (a @ CHR ''.'' # b) = i + length a"
  by (induction a arbitrary: i) auto

lemma find_dot_split:
  assumes "find_dot 0 s \<noteq> 0"
  shows "\<exists>a b. s = a @ CHR ''.'' # b \<and> a \<noteq> [] \<and> CHR ''.'' \<notin> set a"
proof -
  have "CHR ''.'' \<in> set s"
    by (rule ccontr) (use assms find_dot_none [of s 0] in simp)
  then obtain a b where s: "s = a @ CHR ''.'' # b" "CHR ''.'' \<notin> set a"
    by (metis split_list_first)
  with assms have "a \<noteq> []" by auto
  with s show ?thesis by blast
qed

text \<open>\<open>parseServiceMethod\<close> succeeds exactly on the strings with a dot that is not the first
  character, splitting at the first dot; every other string is the ill-formed error, and no
  input panics.\<close>

theorem parseServiceMethod_iff:
  "(parseServiceMethod s = Ret (a, b) \<longleftrightarrow> s = a @ ''.'' @ b \<and> a \<noteq> [] \<and> CHR ''.'' \<notin> set a) \<and>
   (parseServiceMethod s = Fail (IllFormedServiceMethod s) \<longleftrightarrow>
     (\<nexists>a b. s = a @ ''.'' @ b \<and> a \<noteq> [] \<and> CHR ''.'' \<notin> set a)) \<and>
   parseServiceMethod s \<noteq> Panic"
proof (cases "find_dot 0 s = 0")
  case True
  have none: "\<not> (s = a @ ''.'' @ b \<and> a \<noteq> [] \<and> CHR ''.'' \<notin> set a)" for a b
    using True find_dot_first [of a 0 b] by auto
  have p: "parseServiceMethod s = Fail (IllFormedServiceMethod s)"
    using True by (simp add: parseServiceMethod_def)
  show ?thesis
    unfolding p using none [of a b] none by (simp only: go.distinct) blast
next
  case False
  then obtain a' b' where s: "s = a' @ CHR ''.'' # b'" "a' \<noteq> []" "CHR ''.'' \<notin> set a'"
    using find_dot_split by blast
  then have p: "parseServiceMethod s = Ret (a', b')"
    by (simp add: parseServiceMethod_def find_dot_first)
  have iff: "s = a @ ''.'' @ b \<and> a \<noteq> [] \<and> CHR ''.'' \<notin> set a \<longleftrightarrow> a' = a \<and> b' = b"
  proof
    assume ab: "s = a @ ''.'' @ b \<and> a \<noteq> [] \<and> CHR ''.'' \<notin> set a"
    then have e: "a @ CHR ''.'' # b = a' @ CHR ''.'' # b'" using s(1) by simp
    have "find_dot 0 (a @ CHR ''.'' # b) = length a"
      using ab by (simp add: find_dot_first)
    moreover have "find_dot 0 (a' @ CHR ''.'' # b') = length a'"
      using s(3) by (simp add: find_dot_first)
    ultimately have "length a = length a'" using e by simp
    with e show "a' = a \<and> b' = b" by (simp add: append_eq_append_conv)
  next
    assume "a' = a \<and> b' = b"
    then show "s = a @ ''.'' @ b \<and> a \<noteq> [] \<and> CHR ''.'' \<notin> set a" using s by auto
  qed
  have ex: "\<exists>a b. s = a @ ''.'' @ b \<and> a \<noteq> [] \<and> CHR ''.'' \<notin> set a"
    by (intro exI [of _ a'] exI [of _ b']) (simp add: s)
  show ?thesis
    unfolding p iff using ex by simp
qed

text \<open>A request serialized with its protobuf arguments and deserialized again keeps the
  service method and the sequence number and loses the arguments: \<open>DeserializeRequest\<close>
  never hands the transmitted argument bytes to its caller.\<close>

theorem DeserializeRequest_drops_args:
  assumes "SerializeRequest marshal req = Ret bs"
    and "length (rq_ServiceMethod req) < 2 ^ 32"
    and "\<forall>p. rq_Args req = Some p \<longrightarrow> (\<forall>as. marshal p = Some as \<longrightarrow> length as < 2 ^ 32)"
  shows "DeserializeRequest (exact_slice bs) ctx =
    Ret \<lparr>rq_ServiceMethod = rq_ServiceMethod req, rq_Sequence = rq_Sequence req,
         rq_Args = (None :: 'p option), rq_Context = ctx\<rparr>"
proof -
  from assms(1) obtain as where as: "marshal_opt marshal (rq_Args req) = Ret as"
    by (auto simp: SerializeRequest_def go_bind_Ret_iff)
  let ?r = "\<lparr>req_ServiceMethod = rq_ServiceMethod req, req_Sequence = rq_Sequence req,
    req_ArgsData = as\<rparr>"
  have "bs = request_wire ?r"
    using assms(1) as by (simp add: SerializeRequest_def MarshalBinary_request_wire)
  moreover have "request_small ?r"
    using as assms(2,3)
    by (auto simp: request_small_def marshal_opt_def split: option.splits)
  ultimately show ?thesis
    by (simp add: DeserializeRequest_def unmarshal_request_wire [of ?r _ "[]"])
qed

theorem DeserializeRequest_drops_args_witness:
  "let req = \<lparr>rq_ServiceMethod = ''Echo.Say'', rq_Sequence = 7, rq_Args = Some (5::nat),
       rq_Context = ()\<rparr>;
     marshal = (\<lambda>n. Some [word_of_nat n]);
     wire = request_wire \<lparr>req_ServiceMethod = ''Echo.Say'', req_Sequence = 7, req_ArgsData = [5]\<rparr>
   in SerializeRequest marshal req = Ret wire \<and>
      DeserializeRequest (exact_slice wire) () = Ret (req\<lparr>rq_Args := None\<rparr>)"
proof -
  let ?req = "\<lparr>rq_ServiceMethod = ''Echo.Say'', rq_Sequence = 7, rq_Args = Some (5::nat),
       rq_Context = ()\<rparr>"
  let ?wire = "request_wire \<lparr>req_ServiceMethod = ''Echo.Say'', req_Sequence = 7,
       req_ArgsData = [5]\<rparr>"
  have "SerializeRequest (\<lambda>n. Some [word_of_nat n]) ?req = Ret ?wire"
    by (simp add: SerializeRequest_def marshal_opt_def MarshalBinary_request_wire)
  with DeserializeRequest_drops_args [OF this, of "()"] show ?thesis by (simp add: Let_def)
qed

end
