(* ===== verification/Handler_Registry.thy ===== *)
theory Handler_Registry
  imports Message_Codec "HOL-Library.Finite_Map"
begin

text \<open>
  The handler registry of \<^verbatim>\<open>src/pkg/protocol/handler_registry.go\<close>: a map from service
  types to maps from message types to handlers. Its contract is a flat table indexed by the
  pair of both types; \<open>handler_table\<close> maps a registry to that table, and the interface
  \<open>dispatch_table\<close> states the laws the gateway relies on.
\<close>

type_synonym 'h HandlerRegistry = "(ServiceType, (MessageType, 'h) fmap) fmap"

datatype registry_error =
    AlreadyRegistered ServiceType MessageType
  | NoServiceHandlers ServiceType
  | NoMessageHandler ServiceType MessageType

definition NewHandlerRegistry :: "'h HandlerRegistry" where
  "NewHandlerRegistry = fmempty"

definition RegisterHandler ::
    "ServiceType \<Rightarrow> MessageType \<Rightarrow> 'h \<Rightarrow> 'h HandlerRegistry \<Rightarrow>
      'h HandlerRegistry \<times> (registry_error, unit) go" where
  "RegisterHandler serviceType messageType handler r =
     (let r = (case fmlookup r serviceType of None \<Rightarrow> fmupd serviceType fmempty r | Some _ \<Rightarrow> r);
          inner = the (fmlookup r serviceType)
      in
      case fmlookup inner messageType of
        Some _ \<Rightarrow> (r, Fail (AlreadyRegistered serviceType messageType))
      | None \<Rightarrow> (fmupd serviceType (fmupd messageType handler inner) r, Ret ()))"

definition GetHandler ::
    "ServiceType \<Rightarrow> MessageType \<Rightarrow> 'h HandlerRegistry \<Rightarrow> (registry_error, 'h) go" where
  "GetHandler serviceType messageType r =
     (case fmlookup r serviceType of
        None \<Rightarrow> Fail (NoServiceHandlers serviceType)
      | Some serviceHandlers \<Rightarrow>
          (case fmlookup serviceHandlers messageType of
             None \<Rightarrow> Fail (NoMessageHandler serviceType messageType)
           | Some handler \<Rightarrow> Ret handler))"

definition UnregisterHandler ::
    "ServiceType \<Rightarrow> MessageType \<Rightarrow> 'h HandlerRegistry \<Rightarrow>
      'h HandlerRegistry \<times> (registry_error, unit) go" where
  "UnregisterHandler serviceType messageType r =
     (case fmlookup r serviceType of
        None \<Rightarrow> (r, Fail (NoServiceHandlers serviceType))
      | Some serviceHandlers \<Rightarrow>
          (case fmlookup serviceHandlers messageType of
             None \<Rightarrow> (r, Fail (NoMessageHandler serviceType messageType))
           | Some _ \<Rightarrow>
               let serviceHandlers = fmdrop messageType serviceHandlers;
                   r = fmupd serviceType serviceHandlers r
               in (if serviceHandlers = fmempty then fmdrop serviceType r else r, Ret ())))"

text \<open>
  The two \<^verbatim>\<open>range\<close> loops visit the keys in some order; the result is the set of message
  types per service type.
\<close>

definition ListHandlers :: "'h HandlerRegistry \<Rightarrow> (ServiceType, MessageType fset) fmap" where
  "ListHandlers r = fmmap fmdom r"

definition HasHandler :: "ServiceType \<Rightarrow> MessageType \<Rightarrow> 'h HandlerRegistry \<Rightarrow> bool" where
  "HasHandler serviceType messageType r =
     (case fmlookup r serviceType of
        None \<Rightarrow> False
      | Some serviceHandlers \<Rightarrow> fmlookup serviceHandlers messageType \<noteq> None)"

section \<open>The abstract table\<close>

definition handler_table :: "'h HandlerRegistry \<Rightarrow> ServiceType \<times> MessageType \<Rightarrow> 'h option" where
  "handler_table r k = Option.bind (fmlookup r (fst k)) (\<lambda>inner. fmlookup inner (snd k))"

text \<open>A service type is present only while it has a handler.\<close>

definition registry_inv :: "'h HandlerRegistry \<Rightarrow> bool" where
  "registry_inv r \<longleftrightarrow> (\<forall>s inner. fmlookup r s = Some inner \<longrightarrow> inner \<noteq> fmempty)"

lemma abs_new [simp]: "handler_table NewHandlerRegistry = Map.empty"
  by (rule ext) (simp add: handler_table_def NewHandlerRegistry_def)

lemma inv_new [simp]: "registry_inv NewHandlerRegistry"
  by (simp add: registry_inv_def NewHandlerRegistry_def)

lemma fmupd_not_empty [simp]: "fmupd k v m \<noteq> fmempty"
  by (metis fmempty_lookup fmupd_lookup option.distinct(1))

lemma Register_new:
  assumes "handler_table r (s, t) = None"
  shows "snd (RegisterHandler s t h r) = Ret ()"
    and "handler_table (fst (RegisterHandler s t h r)) = (handler_table r)((s, t) \<mapsto> h)"
    and "registry_inv r \<Longrightarrow> registry_inv (fst (RegisterHandler s t h r))"
  using assms
  by (auto simp: RegisterHandler_def handler_table_def Let_def registry_inv_def fun_eq_iff
      split: option.splits if_splits)

lemma Register_old:
  assumes "handler_table r (s, t) = Some h'"
  shows "RegisterHandler s t h r = (r, Fail (AlreadyRegistered s t))"
  using assms by (auto simp: RegisterHandler_def handler_table_def Let_def bind_eq_Some_conv)

lemma Get_abs: "GetHandler s t r = Ret h \<longleftrightarrow> handler_table r (s, t) = Some h"
  by (auto simp: GetHandler_def handler_table_def split: option.splits)

lemma Get_not_Panic: "GetHandler s t r \<noteq> Panic"
  by (auto simp: GetHandler_def split: option.splits)

lemma Has_abs: "HasHandler s t r \<longleftrightarrow> handler_table r (s, t) \<noteq> None"
  by (auto simp: HasHandler_def handler_table_def split: option.splits)

lemma fmdrop_eq_empty: "fmdrop t m = fmempty \<Longrightarrow> t \<noteq> t' \<Longrightarrow> fmlookup m t' = None"
  by (metis fmempty_lookup fmlookup_drop)

lemma Unregister_present:
  assumes "handler_table r (s, t) = Some h"
  shows "snd (UnregisterHandler s t r) = Ret ()"
    and "handler_table (fst (UnregisterHandler s t r)) = (handler_table r)((s, t) := None)"
    and "registry_inv r \<Longrightarrow> registry_inv (fst (UnregisterHandler s t r))"
proof -
  from assms obtain inner where l: "fmlookup r s = Some inner" "fmlookup inner t = Some h"
    by (auto simp: handler_table_def bind_eq_Some_conv)
  then show "snd (UnregisterHandler s t r) = Ret ()"
    by (simp add: UnregisterHandler_def Let_def)
  show "handler_table (fst (UnregisterHandler s t r)) = (handler_table r)((s, t) := None)"
    using l fmdrop_eq_empty [of t inner]
    by (auto simp: UnregisterHandler_def Let_def handler_table_def fun_eq_iff)
  show "registry_inv r \<Longrightarrow> registry_inv (fst (UnregisterHandler s t r))"
    using l by (auto simp: UnregisterHandler_def Let_def registry_inv_def split: if_splits)
qed

lemma Unregister_absent:
  assumes "handler_table r (s, t) = None"
  shows "fst (UnregisterHandler s t r) = r" and "snd (UnregisterHandler s t r) \<noteq> Ret ()"
  using assms by (auto simp: UnregisterHandler_def handler_table_def split: option.splits)

lemma ListHandlers_abs:
  assumes "registry_inv r"
  shows "fmlookup (ListHandlers r) s = Some ts \<longleftrightarrow>
    ts \<noteq> {||} \<and> (\<forall>t. t |\<in>| ts \<longleftrightarrow> handler_table r (s, t) \<noteq> None)"
proof (cases "fmlookup r s")
  case None
  then show ?thesis by (auto simp: ListHandlers_def handler_table_def)
next
  case (Some inner)
  then have "inner \<noteq> fmempty" using assms by (simp add: registry_inv_def)
  then have "fmdom inner \<noteq> {||}" by (metis fmrestrict_fset_dom fmrestrict_fset_null)
  with Some show ?thesis
    by (auto simp: ListHandlers_def handler_table_def fmdom_notI fmlookup_dom_iff)
qed


section \<open>The interface the gateway uses\<close>

locale dispatch_table =
  fixes reg :: "'k \<Rightarrow> 'h \<Rightarrow> 't \<Rightarrow> 't \<times> ('e, unit) go"
    and find :: "'k \<Rightarrow> 't \<Rightarrow> ('e, 'h) go"
    and table :: "'t \<Rightarrow> 'k \<rightharpoonup> 'h"
  assumes reg_free: "table t k = None \<Longrightarrow> table (fst (reg k h t)) = (table t)(k \<mapsto> h)"
    and reg_taken: "table t k \<noteq> None \<Longrightarrow> table (fst (reg k h t)) = table t"
    and find_table: "find k t = Ret h \<longleftrightarrow> table t k = Some h"
begin

text \<open>A sequence of registrations, errors ignored as the gateway does.\<close>

fun reg_all :: "('k \<times> 'h) list \<Rightarrow> 't \<Rightarrow> 't" where
  "reg_all [] t = t"
| "reg_all ((k, h) # es) t = reg_all es (fst (reg k h t))"

lemma table_reg: "table (fst (reg k h t)) = [k \<mapsto> h] ++ table t"
  using reg_free [of t k h] reg_taken [of t k h]
  by (cases "table t k") (auto simp: map_add_def fun_eq_iff split: option.splits)

lemma reg_all_first_wins:
  "table (reg_all es t) k = (case table t k of Some h \<Rightarrow> Some h | None \<Rightarrow> map_of es k)"
  by (induction es t rule: reg_all.induct)
    (auto simp: table_reg map_add_def split: option.splits)

lemma find_reg_all:
  "find k (reg_all es t) = Ret h \<longleftrightarrow>
     (table t k = Some h \<or> table t k = None \<and> map_of es k = Some h)"
  by (auto simp: find_table reg_all_first_wins split: option.splits)

end

definition reg_pair ::
    "ServiceType \<times> MessageType \<Rightarrow> 'h \<Rightarrow> 'h HandlerRegistry \<Rightarrow>
      'h HandlerRegistry \<times> (registry_error, unit) go" where
  "reg_pair k h r = RegisterHandler (fst k) (snd k) h r"

definition get_pair :: "ServiceType \<times> MessageType \<Rightarrow> 'h HandlerRegistry \<Rightarrow> (registry_error, 'h) go" where
  "get_pair k r = GetHandler (fst k) (snd k) r"

interpretation registry: dispatch_table reg_pair get_pair handler_table
proof
  fix r :: "'h HandlerRegistry" and k h
  show "handler_table r k = None \<Longrightarrow> handler_table (fst (reg_pair k h r)) = (handler_table r)(k \<mapsto> h)"
    using Register_new(2) [of r "fst k" "snd k" h] by (simp add: reg_pair_def)
  show "handler_table r k \<noteq> None \<Longrightarrow> handler_table (fst (reg_pair k h r)) = handler_table r"
    using Register_old [of r "fst k" "snd k"] by (auto simp: reg_pair_def)
  show "get_pair k r = Ret h \<longleftrightarrow> handler_table r k = Some h"
    by (simp add: get_pair_def Get_abs)
qed

end
