(* ===== verification/Service_Routing.thy ===== *)
theory Service_Routing
  imports Handler_Registry
begin

text \<open>
  Message routing of \<^verbatim>\<open>src/pkg/protocol/router.go\<close>: the in-memory service
  discovery, the round-robin and the weighted load balancer, and the router on top of them. The
  router reaches its balancer only through the interface \<open>load_balancer\<close>, which both balancers
  satisfy. The counters are 64-bit Go integers and wrap; the laws therefore count calls.
\<close>

section \<open>Instances and discovery\<close>

record ServiceInstance =
  inst_ID :: string
  ServiceName :: string
  Address :: string
  Weight :: int
  Status :: string
  LastSeen :: int
  Metadata :: "(string, string) fmap"

datatype route_error =
    ErrServiceNotFound string
  | ErrServiceTypeNotFound ServiceType
  | ErrNoAvailableInstance
  | ErrTimeout
  | InstanceNotFound string

definition up :: "ServiceInstance \<Rightarrow> bool" where
  "up i \<longleftrightarrow> Status i = ''up''"

record 'cb InMemoryServiceDiscovery =
  sd_instances :: "(string, ServiceInstance list) fmap"
  sd_watches :: "(string, 'cb list) fmap"

definition NewInMemoryServiceDiscovery :: "'cb InMemoryServiceDiscovery" where
  "NewInMemoryServiceDiscovery = \<lparr>sd_instances = fmempty, sd_watches = fmempty\<rparr>"

definition lookup_list :: "(string, 'a list) fmap \<Rightarrow> string \<Rightarrow> 'a list" where
  "lookup_list m k = (case fmlookup m k of None \<Rightarrow> [] | Some xs \<Rightarrow> xs)"

definition GetServiceInstances ::
    "'cb InMemoryServiceDiscovery \<Rightarrow> string \<Rightarrow> (route_error, ServiceInstance list) go" where
  "GetServiceInstances sd serviceName =
     (case fmlookup (sd_instances sd) serviceName of
        None \<Rightarrow> Fail (ErrServiceNotFound serviceName)
      | Some instances \<Rightarrow> Ret instances)"

text \<open>The callbacks that are started, with the instances they receive.\<close>

definition notifyWatchers ::
    "string \<Rightarrow> 'cb InMemoryServiceDiscovery \<Rightarrow> ('cb \<times> ServiceInstance list) list" where
  "notifyWatchers serviceName sd =
     map (\<lambda>watch. (watch, lookup_list (sd_instances sd) serviceName))
       (lookup_list (sd_watches sd) serviceName)"

text \<open>The loop over the instances: replace the first one with the same ID, or append.\<close>

fun put_instance :: "ServiceInstance \<Rightarrow> ServiceInstance list \<Rightarrow> ServiceInstance list" where
  "put_instance i [] = [i]"
| "put_instance i (x # xs) = (if inst_ID x = inst_ID i then i # xs else x # put_instance i xs)"

definition RegisterServiceInstance ::
    "ServiceInstance \<Rightarrow> 'cb InMemoryServiceDiscovery \<Rightarrow>
      'cb InMemoryServiceDiscovery \<times> ('cb \<times> ServiceInstance list) list" where
  "RegisterServiceInstance i sd =
     (let instances = lookup_list (sd_instances sd) (ServiceName i);
          sd = sd\<lparr>sd_instances := fmupd (ServiceName i) (put_instance i instances) (sd_instances sd)\<rparr>
      in (sd, notifyWatchers (ServiceName i) sd))"

text \<open>Remove the first instance with the ID; \<open>None\<close> when there is none.\<close>

fun drop_instance :: "string \<Rightarrow> ServiceInstance list \<Rightarrow> ServiceInstance list option" where
  "drop_instance d [] = None"
| "drop_instance d (x # xs) =
     (if inst_ID x = d then Some xs else map_option ((#) x) (drop_instance d xs))"

text \<open>
  The outer \<^verbatim>\<open>range\<close> visits the services in the order \<open>order\<close> that the Go runtime picks
  for this call.
\<close>

fun DeregisterServiceInstance ::
    "string list \<Rightarrow> string \<Rightarrow> 'cb InMemoryServiceDiscovery \<Rightarrow>
      'cb InMemoryServiceDiscovery \<times> ('cb \<times> ServiceInstance list) list \<times> (route_error, unit) go" where
  "DeregisterServiceInstance [] d sd = (sd, [], Fail (InstanceNotFound d))"
| "DeregisterServiceInstance (name # order) d sd =
     (case drop_instance d (lookup_list (sd_instances sd) name) of
        None \<Rightarrow> DeregisterServiceInstance order d sd
      | Some rest \<Rightarrow>
          let sd = sd\<lparr>sd_instances := fmupd name rest (sd_instances sd)\<rparr>
          in (sd, notifyWatchers name sd, Ret ()))"

definition WatchService ::
    "string \<Rightarrow> 'cb \<Rightarrow> 'cb InMemoryServiceDiscovery \<Rightarrow> 'cb InMemoryServiceDiscovery" where
  "WatchService serviceName callback sd =
     sd\<lparr>sd_watches := fmupd serviceName (lookup_list (sd_watches sd) serviceName @ [callback])
          (sd_watches sd)\<rparr>"

section \<open>Load balancers\<close>

type_synonym counter = "(string, int) fmap"

definition count_of :: "counter \<Rightarrow> string \<Rightarrow> int" where
  "count_of c k = (case fmlookup c k of None \<Rightarrow> 0 | Some n \<Rightarrow> n)"

definition available :: "ServiceInstance list \<Rightarrow> ServiceInstance list" where
  "available instances = filter up instances"

definition RoundRobin_SelectInstance ::
    "counter \<Rightarrow> ServiceInstance list \<Rightarrow> counter \<times> (route_error, ServiceInstance) go" where
  "RoundRobin_SelectInstance lb instances =
     (if instances = [] then (lb, Fail ErrNoAvailableInstance)
      else
        let serviceName = ServiceName (hd instances);
            count = count_of lb serviceName;
            availableInstances = available instances
        in
        if availableInstances = [] then (lb, Fail ErrNoAvailableInstance)
        else
          let selectedIndex = go_rem count (int (length availableInstances))
          in (fmupd serviceName (wrap64 (count + 1)) lb, go_index availableInstances selectedIndex))"

text \<open>The running total of the weights, a wrapping Go integer.\<close>

definition total_weight :: "ServiceInstance list \<Rightarrow> int" where
  "total_weight instances = total_of Weight instances"

definition weighted_loop :: "int \<Rightarrow> ServiceInstance list \<Rightarrow> ServiceInstance option" where
  "weighted_loop count availableInstances = weighted_pick Weight count 0 availableInstances"

definition Weighted_SelectInstance ::
    "counter \<Rightarrow> ServiceInstance list \<Rightarrow> counter \<times> (route_error, ServiceInstance) go" where
  "Weighted_SelectInstance lb instances =
     (if instances = [] then (lb, Fail ErrNoAvailableInstance)
      else
        let serviceName = ServiceName (hd instances);
            availableInstances = available instances;
            totalWeight = total_weight availableInstances
        in
        if availableInstances = [] then (lb, Fail ErrNoAvailableInstance)
        else if totalWeight = 0 then
          let count = count_of lb serviceName;
              selectedIndex = go_rem count (int (length availableInstances))
          in (fmupd serviceName (wrap64 (count + 1)) lb, go_index availableInstances selectedIndex)
        else
          let count = go_rem (count_of lb serviceName) totalWeight;
              lb = fmupd serviceName (wrap64 (count_of lb serviceName + 1)) lb
          in (lb, case weighted_loop count availableInstances of
                    Some i \<Rightarrow> Ret i
                  | None \<Rightarrow> go_index availableInstances 0))"

section \<open>The router\<close>

record ('lb, 'cb) MessageRouter =
  serviceDiscovery :: "'cb InMemoryServiceDiscovery"
  loadBalancer :: 'lb
  serviceMap :: "(ServiceType, string) fmap"
  timeout :: int

definition NewMessageRouter :: "'cb InMemoryServiceDiscovery \<Rightarrow> 'lb \<Rightarrow> ('lb, 'cb) MessageRouter" where
  "NewMessageRouter sd lb =
     \<lparr>serviceDiscovery = sd, loadBalancer = lb, serviceMap = fmempty, timeout = 30 * 10 ^ 9\<rparr>"

definition RegisterServiceType ::
    "ServiceType \<Rightarrow> string \<Rightarrow> ('lb, 'cb) MessageRouter \<Rightarrow> ('lb, 'cb) MessageRouter" where
  "RegisterServiceType serviceType serviceName r =
     r\<lparr>serviceMap := fmupd serviceType serviceName (serviceMap r)\<rparr>"

definition GetServiceName :: "('lb, 'cb) MessageRouter \<Rightarrow> ServiceType \<Rightarrow> string option" where
  "GetServiceName r serviceType = fmlookup (serviceMap r) serviceType"

definition SetTimeout :: "int \<Rightarrow> ('lb, 'cb) MessageRouter \<Rightarrow> ('lb, 'cb) MessageRouter" where
  "SetTimeout t r = r\<lparr>timeout := t\<rparr>"

type_synonym 'lb selector =
  "'lb \<Rightarrow> ServiceInstance list \<Rightarrow> 'lb \<times> (route_error, ServiceInstance) go"

text \<open>
  The common prefix of \<open>Route\<close> and \<open>RouteAsync\<close>: service name, destination, instances,
  balancer. The message is a pointer in the code, so its new value is returned.
\<close>

definition route_select ::
    "'lb selector \<Rightarrow> ('lb, 'cb) MessageRouter \<Rightarrow> Message \<Rightarrow>
      ('lb, 'cb) MessageRouter \<times> Message \<times> (route_error, string \<times> ServiceInstance) go" where
  "route_select select r msg =
     (case GetServiceName r (ServiceTypeOf msg) of
        None \<Rightarrow> (r, msg, Fail (ErrServiceTypeNotFound (ServiceTypeOf msg)))
      | Some serviceName \<Rightarrow>
          let msg = (if DestinationService msg = [] then msg\<lparr>DestinationService := serviceName\<rparr>
                     else msg)
          in
          (case GetServiceInstances (serviceDiscovery r) serviceName of
            Fail e \<Rightarrow> (r, msg, Fail e)
          | Panic \<Rightarrow> (r, msg, Panic)
          | Ret instances \<Rightarrow>
              let (lb, res) = select (loadBalancer r) instances
              in (r\<lparr>loadBalancer := lb\<rparr>, msg, go_bind res (\<lambda>instance. Ret (serviceName, instance)))))"

text \<open>
  Which channel the final \<^verbatim>\<open>select\<close> takes: the reply of the sending goroutine, created at the
  given time, or the end of the context. Nothing is ever sent on \<^verbatim>\<open>errCh\<close>.
\<close>

datatype route_event = ReplyAt u64 | ContextDone

definition placeholder :: "byte list" where
  "placeholder = bytes_of ''Response placeholder''"

definition route_response :: "u64 \<Rightarrow> string \<Rightarrow> Message \<Rightarrow> Message" where
  "route_response now_micro serviceName msg =
     \<lparr>Version = Version msg, Flags = Flags msg, ServiceTypeOf = ServiceTypeOf msg,
      MessageTypeOf = MessageTypeOf msg, SequenceID = SequenceID msg, Timestamp = now_micro,
      PayloadLength = 0, SourceService = serviceName, DestinationService = SourceService msg,
      CorrelationID = CorrelationID msg, SessionID = SessionID msg, Payload = placeholder\<rparr>"

definition Route ::
    "'lb selector \<Rightarrow> route_event \<Rightarrow> ('lb, 'cb) MessageRouter \<Rightarrow> Message \<Rightarrow>
      ('lb, 'cb) MessageRouter \<times> Message \<times> (route_error, Message) go" where
  "Route select ev r msg =
     (let (r, msg, res) = route_select select r msg
      in (r, msg, go_bind res (\<lambda>(serviceName, instance).
            case ev of
              ReplyAt now_micro \<Rightarrow> Ret (route_response now_micro serviceName msg)
            | ContextDone \<Rightarrow> Fail ErrTimeout)))"

text \<open>The instance that the background send addresses is part of the result.\<close>

definition RouteAsync ::
    "'lb selector \<Rightarrow> ('lb, 'cb) MessageRouter \<Rightarrow> Message \<Rightarrow>
      ('lb, 'cb) MessageRouter \<times> Message \<times> (route_error, ServiceInstance) go" where
  "RouteAsync select r msg =
     (let (r, msg, res) = route_select select r msg
      in (r, msg, go_bind res (\<lambda>(_, instance). Ret instance)))"

text \<open>The instances that are sent the message, in order.\<close>

definition Broadcast ::
    "('lb, 'cb) MessageRouter \<Rightarrow> Message \<Rightarrow> ServiceType \<Rightarrow>
      Message \<times> (route_error, ServiceInstance list) go" where
  "Broadcast r msg serviceType =
     (case GetServiceName r serviceType of
        None \<Rightarrow> (msg, Fail (ErrServiceTypeNotFound serviceType))
      | Some serviceName \<Rightarrow>
          let msg = msg\<lparr>DestinationService := serviceName, ServiceTypeOf := serviceType\<rparr>
          in (msg, go_bind (GetServiceInstances (serviceDiscovery r) serviceName) (\<lambda>instances.
                if instances = [] then Fail ErrNoAvailableInstance
                else Ret (filter up instances))))"

text \<open>The results of a sequence of routed messages.\<close>

fun route_many ::
    "'lb selector \<Rightarrow> (route_event \<times> Message) list \<Rightarrow> ('lb, 'cb) MessageRouter \<Rightarrow>
      (route_error, Message) go list" where
  "route_many select [] r = []"
| "route_many select ((ev, msg) # ms) r =
     snd (snd (Route select ev r msg)) # route_many select ms (fst (Route select ev r msg))"

section \<open>What the balancers select\<close>

text \<open>A run of \<open>n\<close> selections from the same instance list.\<close>

fun select_many ::
    "'lb selector \<Rightarrow> nat \<Rightarrow> 'lb \<Rightarrow> ServiceInstance list \<Rightarrow> (route_error, ServiceInstance) go list" where
  "select_many select 0 lb is = []"
| "select_many select (Suc n) lb is =
     snd (select lb is) # select_many select n (fst (select lb is)) is"

lemma available_set: "i \<in> set (available is) \<longleftrightarrow> i \<in> set is \<and> up i"
  by (auto simp: available_def)

section \<open>The balancer interface\<close>

text \<open>
  \<open>level lb n\<close> bounds what the counters have reached; one selection raises it by
  one, and below the largest 64-bit integer no selection panics.
\<close>

locale load_balancer =
  fixes select :: "'lb selector"
    and level :: "'lb \<Rightarrow> int \<Rightarrow> bool"
  assumes select_none:
      "available is = [] \<Longrightarrow> select lb is = (lb, Fail ErrNoAvailableInstance)"
    and select_up: "snd (select lb is) = Ret i \<Longrightarrow> i \<in> set (available is)"
    and select_some:
      "available is \<noteq> [] \<Longrightarrow> level lb n \<Longrightarrow> n < max_int64 \<Longrightarrow>
        \<exists>i. snd (select lb is) = Ret i"
    and level_mono: "level lb n \<Longrightarrow> n \<le> m \<Longrightarrow> level lb m"
    and select_level: "level lb n \<Longrightarrow> n < max_int64 \<Longrightarrow> level (fst (select lb is)) (n + 1)"
begin

lemma route_select_up:
  assumes "route_select select r msg = (r', msg', Ret (name, i))"
  shows "GetServiceName r (ServiceTypeOf msg) = Some name"
    and "\<exists>is. GetServiceInstances (serviceDiscovery r) name = Ret is \<and> i \<in> set is \<and> up i"
  using assms select_up
  by (auto simp: route_select_def Let_def split_def go_bind_Ret_iff available_set
      split: option.splits go.splits)

lemma route_select_level:
  assumes "level (loadBalancer r) n" and "n < max_int64"
  shows "level (loadBalancer (fst (route_select select r msg))) (n + 1)"
  using assms select_level [OF assms] level_mono [OF assms(1), of "n + 1"]
  by (auto simp: route_select_def Let_def split_def split: option.splits go.splits)

lemma route_select_result:
  assumes "level (loadBalancer r) n" and "n < max_int64"
    and "GetServiceName r (ServiceTypeOf msg) = Some name"
    and "GetServiceInstances (serviceDiscovery r) name = Ret is"
  shows "snd (snd (route_select select r msg)) =
     (if available is = [] then Fail ErrNoAvailableInstance
      else go_bind (snd (select (loadBalancer r) is)) (\<lambda>i. Ret (name, i)))"
  using assms select_none
  by (auto simp: route_select_def Let_def split_def)

lemma route_select_not_Panic:
  assumes "level (loadBalancer r) n" and "n < max_int64"
  shows "snd (snd (route_select select r msg)) \<noteq> Panic"
proof -
  have "snd (select (loadBalancer r) is) \<noteq> Panic" for "is"
    using select_none [of "is" "loadBalancer r"] select_some [OF _ assms, of "is"]
    by (cases "available is = []") auto
  then show ?thesis
    by (auto simp: route_select_def Let_def split_def go_bind_Panic_iff GetServiceInstances_def
        split: option.splits go.splits)
qed

lemma route_many_not_Panic:
  assumes "level (loadBalancer r) n" and "n + int (length ms) \<le> max_int64"
  shows "Panic \<notin> set (route_many select ms r)"
  using assms
proof (induction ms arbitrary: r n)
  case (Cons em ms)
  obtain ev msg where em: "em = (ev, msg)" by (cases em)
  have n: "n < max_int64" using Cons.prems(2) by simp
  have "snd (snd (Route select ev r msg)) \<noteq> Panic"
    using route_select_not_Panic [OF Cons.prems(1) n, of msg]
    by (auto simp: Route_def Let_def split_def go_bind_Panic_iff split: route_event.splits)
  moreover have "level (loadBalancer (fst (Route select ev r msg))) (n + 1)"
    using route_select_level [OF Cons.prems(1) n, of msg] by (simp add: Route_def Let_def split_def)
  then have "Panic \<notin> set (route_many select ms (fst (Route select ev r msg)))"
    by (rule Cons.IH) (use Cons.prems(2) in simp)
  ultimately show ?case by (auto simp: em)
qed simp

end

text \<open>Both balancers satisfy the interface, with the counters as the level.\<close>

definition counters_upto :: "counter \<Rightarrow> int \<Rightarrow> bool" where
  "counters_upto lb n \<longleftrightarrow> (\<forall>k. 0 \<le> count_of lb k \<and> count_of lb k \<le> n)"

lemma counters_upto_step:
  assumes "counters_upto lb n" and "n < max_int64"
  shows "counters_upto (fmupd k (wrap64 (count_of lb k + 1)) lb) (n + 1)"
proof -
  have "0 \<le> count_of lb k" "count_of lb k \<le> n" using assms(1) by (auto simp: counters_upto_def)
  then have "wrap64 (count_of lb k + 1) = count_of lb k + 1"
    using assms(2) by (intro wrap64_id) (auto simp: min_int64_def)
  moreover have "count_of (fmupd k v lb) j = (if j = k then v else count_of lb j)" for v j
    by (simp add: count_of_def)
  ultimately show ?thesis
    using assms(1) unfolding counters_upto_def by (auto intro: add_increasing2 order_trans)
qed

lemma counters_upto_mono: "counters_upto lb n \<Longrightarrow> n \<le> m \<Longrightarrow> counters_upto lb m"
  unfolding counters_upto_def by (meson order_trans)

lemma available_Nil: "available [] = []"
  by (simp add: available_def)

lemma go_index_rem:
  assumes "xs \<noteq> []" and "0 \<le> c"
  shows "go_index xs (go_rem c (int (length xs))) = Ret (xs ! (nat c mod length xs))"
proof -
  have "0 < int (length xs)" using assms(1) by simp
  then have "go_rem c (int (length xs)) = c mod int (length xs)" using assms(2)
    by (simp add: go_rem_nonneg)
  moreover have "nat (c mod int (length xs)) = nat c mod length xs"
    using assms(2) by (simp add: nat_mod_distrib)
  ultimately show ?thesis using \<open>0 < int (length xs)\<close> by (simp add: go_index_def)
qed

lemma go_index_zero: "xs \<noteq> [] \<Longrightarrow> go_index xs 0 = Ret (hd xs)"
  by (simp add: go_index_def hd_conv_nth)

interpretation round_robin: load_balancer RoundRobin_SelectInstance counters_upto
proof
  fix lb :: counter and "is" and i and n m :: int
  show "available is = [] \<Longrightarrow>
      RoundRobin_SelectInstance lb is = (lb, Fail ErrNoAvailableInstance)"
    by (simp add: RoundRobin_SelectInstance_def)
  show "snd (RoundRobin_SelectInstance lb is) = Ret i \<Longrightarrow> i \<in> set (available is)"
    by (auto simp: RoundRobin_SelectInstance_def Let_def split: if_splits dest: go_index_Ret)
  show "available is \<noteq> [] \<Longrightarrow> counters_upto lb n \<Longrightarrow> n < max_int64 \<Longrightarrow>
      \<exists>i. snd (RoundRobin_SelectInstance lb is) = Ret i"
    by (auto simp: RoundRobin_SelectInstance_def Let_def go_index_rem counters_upto_def
        available_Nil)
  show "counters_upto lb n \<Longrightarrow> n \<le> m \<Longrightarrow> counters_upto lb m"
    by (rule counters_upto_mono)
  show "counters_upto lb n \<Longrightarrow> n < max_int64 \<Longrightarrow>
      counters_upto (fst (RoundRobin_SelectInstance lb is)) (n + 1)"
    by (auto simp: RoundRobin_SelectInstance_def Let_def counters_upto_step
        intro: counters_upto_mono)
qed

interpretation weighted: load_balancer Weighted_SelectInstance counters_upto
proof
  fix lb :: counter and "is" and i and n m :: int
  show "available is = [] \<Longrightarrow> Weighted_SelectInstance lb is = (lb, Fail ErrNoAvailableInstance)"
    by (simp add: Weighted_SelectInstance_def)
  show "snd (Weighted_SelectInstance lb is) = Ret i \<Longrightarrow> i \<in> set (available is)"
    by (auto simp: Weighted_SelectInstance_def Let_def split: if_splits option.splits
        simp: weighted_loop_def dest: go_index_Ret weighted_pick_in)
  show "available is \<noteq> [] \<Longrightarrow> counters_upto lb n \<Longrightarrow> n < max_int64 \<Longrightarrow>
      \<exists>i. snd (Weighted_SelectInstance lb is) = Ret i"
    by (auto simp: Weighted_SelectInstance_def Let_def go_index_rem counters_upto_def
        available_Nil go_index_zero split: option.splits)
  show "counters_upto lb n \<Longrightarrow> n \<le> m \<Longrightarrow> counters_upto lb m"
    by (rule counters_upto_mono)
  show "counters_upto lb n \<Longrightarrow> n < max_int64 \<Longrightarrow>
      counters_upto (fst (Weighted_SelectInstance lb is)) (n + 1)"
    by (auto simp: Weighted_SelectInstance_def Let_def counters_upto_step
        intro: counters_upto_mono)
qed

section \<open>Fairness\<close>

lemma count_of_upd [simp]: "count_of (fmupd k v lb) j = (if j = k then v else count_of lb j)"
  by (simp add: count_of_def)

text \<open>
  A selector that, while the counter of the service is \<open>c\<close>, returns the element of a fixed
  list at \<open>c\<close> modulo its length and increments the counter, runs through the list cyclically.
\<close>

lemma select_many_cyclic:
  assumes step: "\<And>lb. 0 \<le> count_of lb k \<Longrightarrow> count_of lb k < max_int64 \<Longrightarrow>
      select lb is = (fmupd k (count_of lb k + 1) lb,
        Ret (xs ! (nat (count_of lb k) mod length xs)))"
    and "0 \<le> count_of lb k" and "count_of lb k + int n \<le> max_int64"
  shows "select_many select n lb is =
    map (\<lambda>j. Ret (xs ! ((nat (count_of lb k) + j) mod length xs))) [0..<n]"
  using assms(2,3)
proof (induction n arbitrary: lb)
  case (Suc n)
  let ?lb = "fmupd k (count_of lb k + 1) lb"
  have "select lb is = (?lb, Ret (xs ! (nat (count_of lb k) mod length xs)))"
    by (rule step) (use Suc.prems in simp_all)
  moreover have "select_many select n ?lb is =
      map (\<lambda>j. Ret (xs ! ((nat (count_of ?lb k) + j) mod length xs))) [0..<n]"
    by (rule Suc.IH) (use Suc.prems in simp_all)
  moreover have "nat (count_of lb k + 1) + j = nat (count_of lb k) + Suc j" for j
    using Suc.prems(1) by simp
  ultimately show ?case by (simp add: upt_conv_Cons map_Suc_upt [symmetric] del: upt_Suc)
qed simp

lemma map_nth_rotate:
  "map (\<lambda>j. f (xs ! ((c + j) mod length xs))) [0..<length xs] = map f (rotate c xs)"
  by (rule nth_equalityI) (auto simp: nth_rotate)

lemma RoundRobin_step:
  assumes "available is \<noteq> []" and "0 \<le> count_of lb (ServiceName (hd is))"
    and "count_of lb (ServiceName (hd is)) < max_int64"
  shows "RoundRobin_SelectInstance lb is =
    (fmupd (ServiceName (hd is)) (count_of lb (ServiceName (hd is)) + 1) lb,
     Ret (available is ! (nat (count_of lb (ServiceName (hd is))) mod length (available is))))"
proof -
  have "wrap64 (count_of lb (ServiceName (hd is)) + 1) = count_of lb (ServiceName (hd is)) + 1"
    by (rule wrap64_id) (use assms in \<open>simp_all add: min_int64_def\<close>)
  moreover have "is \<noteq> []" using assms(1) by (auto simp: available_Nil)
  ultimately show ?thesis
    using assms by (simp add: RoundRobin_SelectInstance_def Let_def go_index_rem)
qed

lemma Weighted_step:
  assumes "weights_nonneg Weight (available is)" and "0 < weight_sum Weight (available is)"
    and "weight_sum Weight (available is) \<le> max_int64"
    and "0 \<le> count_of lb (ServiceName (hd is))"
    and "count_of lb (ServiceName (hd is)) < max_int64"
  shows "Weighted_SelectInstance lb is =
    (fmupd (ServiceName (hd is)) (count_of lb (ServiceName (hd is)) + 1) lb,
     Ret (slots Weight (available is) !
       (nat (count_of lb (ServiceName (hd is))) mod length (slots Weight (available is)))))"
proof -
  let ?c = "count_of lb (ServiceName (hd is))" and ?a = "available is"
  have w: "wrap64 (?c + 1) = ?c + 1"
    by (rule wrap64_id) (use assms in \<open>simp_all add: min_int64_def\<close>)
  have ne: "?a \<noteq> []" "is \<noteq> []" using assms(2) by (auto simp: available_Nil)
  have t: "total_weight ?a = weight_sum Weight ?a" using assms by (simp add: total_weight_def total_of_sum)
  have r: "go_rem ?c (weight_sum Weight ?a) = ?c mod weight_sum Weight ?a"
    using assms by (simp add: go_rem_nonneg)
  have "weighted_pick Weight (?c mod weight_sum Weight ?a) 0 ?a = Some (slots Weight ?a ! nat (?c mod weight_sum Weight ?a - 0))"
    by (rule weighted_pick_slots) (use assms in simp_all)
  moreover have "nat (?c mod weight_sum Weight ?a) = nat ?c mod length (slots Weight ?a)"
    using assms length_slots [OF assms(1)] by (metis nat_int nat_mod_distrib order_less_imp_le)
  ultimately show ?thesis
    using assms(2) ne w t r by (simp add: Weighted_SelectInstance_def weighted_loop_def Let_def)
qed

text \<open>C7: round robin is fair: as many consecutive selections as there are available instances
  return each of them exactly once, in the rotation that the counter gives.\<close>

theorem RoundRobin_rotates:
  assumes "available is \<noteq> []"
    and "c = count_of lb (ServiceName (hd is))" and "0 \<le> c"
    and "c + int (length (available is)) \<le> max_int64"
  shows "select_many RoundRobin_SelectInstance (length (available is)) lb is =
    map Ret (rotate (nat c) (available is))"
  using select_many_cyclic [of "ServiceName (hd is)" RoundRobin_SelectInstance "is" "available is" lb,
      OF RoundRobin_step [OF assms(1)]] assms
  by (simp add: map_nth_rotate)

text \<open>C35: the weighted balancer is fair: as many consecutive selections as the weights of the
  available instances sum up to return every instance exactly as often as its weight.\<close>

theorem Weighted_rotates:
  assumes "weights_nonneg Weight (available is)" and "0 < weight_sum Weight (available is)"
    and "c = count_of lb (ServiceName (hd is))" and "0 \<le> c"
    and "c + weight_sum Weight (available is) \<le> max_int64"
  shows "select_many Weighted_SelectInstance (nat (weight_sum Weight (available is))) lb is =
    map Ret (rotate (nat c) (slots Weight (available is)))"
proof -
  have n: "nat (weight_sum Weight (available is)) = length (slots Weight (available is))"
    using length_slots [OF assms(1)] by simp
  have "weight_sum Weight (available is) \<le> max_int64" using assms by simp
  from select_many_cyclic [of "ServiceName (hd is)" Weighted_SelectInstance "is"
      "slots Weight (available is)" lb, OF Weighted_step [OF assms(1,2) this]]
  show ?thesis unfolding n using assms length_slots [OF assms(1)] by (simp add: map_nth_rotate)
qed

definition sample_instance :: "string \<Rightarrow> int \<Rightarrow> string \<Rightarrow> ServiceInstance" where
  "sample_instance i w st = \<lparr>inst_ID = i, ServiceName = ''chat'', Address = ''10.0.0.1'',
     Weight = w, Status = st, LastSeen = 0, Metadata = fmempty\<rparr>"

definition sample_pool :: "ServiceInstance list" where
  "sample_pool = [sample_instance ''a'' 1 ''up'', sample_instance ''b'' 5 ''down'',
     sample_instance ''c'' 2 ''up'']"

lemma sample_available:
  "available sample_pool = [sample_instance ''a'' 1 ''up'', sample_instance ''c'' 2 ''up'']"
  by (simp add: available_def sample_pool_def up_def sample_instance_def)

lemma sample_head: "ServiceName (hd sample_pool) = ''chat''"
  by (simp add: sample_pool_def sample_instance_def)

lemma sample_weight [simp]: "Weight (sample_instance i w st) = w"
  by (simp add: sample_instance_def)

theorem RoundRobin_rotates_witness:
  "select_many RoundRobin_SelectInstance 2 (fmupd ''chat'' 3 fmempty) sample_pool =
     [Ret (sample_instance ''c'' 2 ''up''), Ret (sample_instance ''a'' 1 ''up'')]"
  using RoundRobin_rotates [of sample_pool 3 "fmupd ''chat'' 3 fmempty"]
  by (simp add: sample_available sample_head max_int64_def rotate_def numeral_3_eq_3
      numeral_2_eq_2)

theorem Weighted_rotates_witness:
  "select_many Weighted_SelectInstance 3 (fmupd ''chat'' 1 fmempty) sample_pool =
     [Ret (sample_instance ''c'' 2 ''up''), Ret (sample_instance ''c'' 2 ''up''),
      Ret (sample_instance ''a'' 1 ''up'')]"
  using Weighted_rotates [of sample_pool 1 "fmupd ''chat'' 1 fmempty"]
  by (simp add: sample_available sample_head max_int64_def rotate_def numeral_3_eq_3
      numeral_2_eq_2)

section \<open>Routing\<close>

text \<open>Whatever the router sends goes to an available instance: if \<open>RouteAsync\<close> with either
  balancer returns an instance, the message's service type is mapped to a name, and the instance is
  registered under that name with status up.\<close>

theorem RouteAsync_up:
  assumes "RouteAsync RoundRobin_SelectInstance r msg = (r', msg', Ret i) \<or>
    RouteAsync Weighted_SelectInstance r msg = (r', msg', Ret i)"
  shows "\<exists>name is. fmlookup (serviceMap r) (ServiceTypeOf msg) = Some name \<and>
    fmlookup (sd_instances (serviceDiscovery r)) name = Some is \<and> i \<in> set is \<and> up i"
proof -
  have get: "GetServiceInstances sd name = Ret is \<Longrightarrow> fmlookup (sd_instances sd) name = Some is"
    for sd :: "'b InMemoryServiceDiscovery" and name "is"
    by (auto simp: GetServiceInstances_def split: option.splits)
  from assms show ?thesis
  proof
    assume "RouteAsync RoundRobin_SelectInstance r msg = (r', msg', Ret i)"
    then obtain name where "route_select RoundRobin_SelectInstance r msg = (r', msg', Ret (name, i))"
      by (auto simp: RouteAsync_def Let_def split_def go_bind_Ret_iff prod_eq_iff)
    from round_robin.route_select_up [OF this] show ?thesis
      using get by (fastforce simp: GetServiceName_def)
  next
    assume "RouteAsync Weighted_SelectInstance r msg = (r', msg', Ret i)"
    then obtain name where "route_select Weighted_SelectInstance r msg = (r', msg', Ret (name, i))"
      by (auto simp: RouteAsync_def Let_def split_def go_bind_Ret_iff prod_eq_iff)
    from weighted.route_select_up [OF this] show ?thesis
      using get by (fastforce simp: GetServiceName_def)
  qed
qed

definition sample_router :: "(counter, nat) MessageRouter" where
  "sample_router = RegisterServiceType 2 ''chat'' (NewMessageRouter
     \<lparr>sd_instances = fmupd ''chat'' sample_pool fmempty, sd_watches = fmempty\<rparr> fmempty)"

theorem RouteAsync_up_witness:
  "\<exists>r' msg'. RouteAsync RoundRobin_SelectInstance sample_router sample_message =
      (r', msg', Ret (sample_instance ''a'' 1 ''up'')) \<and>
    up (sample_instance ''a'' 1 ''up'')"
proof -
  have "RoundRobin_SelectInstance fmempty sample_pool =
      (fmupd ''chat'' 1 fmempty, Ret (sample_instance ''a'' 1 ''up''))"
    using RoundRobin_step [of sample_pool fmempty]
    by (simp add: sample_available sample_head count_of_def max_int64_def)
  then obtain r' msg' where "RouteAsync RoundRobin_SelectInstance sample_router sample_message =
      (r', msg', Ret (sample_instance ''a'' 1 ''up''))"
    by (simp add: RouteAsync_def route_select_def GetServiceName_def GetServiceInstances_def
        sample_router_def RegisterServiceType_def NewMessageRouter_def sample_message_def)
  with RouteAsync_up [OF disjI1 [OF this]] show ?thesis by blast
qed

lemma counters_upto_fresh: "counters_upto fmempty 0"
  by (simp add: counters_upto_def count_of_def)

text \<open>C36: a router with fresh counters never panics, with either balancer, for
  \<open>2 ^ 63 - 1\<close> messages of any kind, whatever instances are registered.\<close>

theorem Route_never_panics:
  assumes "loadBalancer r = fmempty" and "int (length ms) \<le> max_int64"
  shows "Panic \<notin> set (route_many RoundRobin_SelectInstance ms r) \<and>
    Panic \<notin> set (route_many Weighted_SelectInstance ms r)"
  using assms counters_upto_fresh round_robin.route_many_not_Panic [of r 0 ms]
    weighted.route_many_not_Panic [of r 0 ms]
  by simp

theorem Route_never_panics_witness:
  "Panic \<notin> set (route_many RoundRobin_SelectInstance [(ReplyAt 5, sample_message)] sample_router)"
  using Route_never_panics [of sample_router "[(ReplyAt 5, sample_message)]"]
  by (simp add: sample_router_def RegisterServiceType_def NewMessageRouter_def max_int64_def)



section \<open>Discovery as a table\<close>

text \<open>The contract of the discovery: a table from service name and instance ID to the instance.\<close>

definition sd_table :: "'cb InMemoryServiceDiscovery \<Rightarrow> string \<times> string \<Rightarrow> ServiceInstance option" where
  "sd_table sd k =
     List.find (\<lambda>i. inst_ID i = snd k) (lookup_list (sd_instances sd) (fst k))"

definition sd_ok :: "'cb InMemoryServiceDiscovery \<Rightarrow> bool" where
  "sd_ok sd \<longleftrightarrow> (\<forall>name. distinct (map inst_ID (lookup_list (sd_instances sd) name)) \<and>
     (\<forall>i \<in> set (lookup_list (sd_instances sd) name). ServiceName i = name))"

lemma lookup_list_upd [simp]:
  "lookup_list (fmupd k xs m) j = (if j = k then xs else lookup_list m j)"
  by (simp add: lookup_list_def)

lemma find_put_instance:
  "List.find (\<lambda>x. inst_ID x = d) (put_instance i xs) =
     (if d = inst_ID i then Some i else List.find (\<lambda>x. inst_ID x = d) xs)"
  by (induction i xs rule: put_instance.induct) auto

lemma put_instance_IDs:
  "inst_ID ` set (put_instance i xs) = insert (inst_ID i) (inst_ID ` set xs)"
  by (induction i xs rule: put_instance.induct) auto

lemma put_instance_distinct:
  "distinct (map inst_ID xs) \<Longrightarrow> distinct (map inst_ID (put_instance i xs))"
proof (induction i xs rule: put_instance.induct)
  case (2 i x xs)
  then show ?case using put_instance_IDs [of i xs] by auto
qed simp

lemma put_instance_set: "set (put_instance i xs) \<subseteq> insert i (set xs)"
  by (induction i xs rule: put_instance.induct) auto

lemma drop_instance_None: "drop_instance d xs = None \<longleftrightarrow> d \<notin> inst_ID ` set xs"
  by (induction d xs rule: drop_instance.induct) auto

lemma drop_instance_Some:
  "drop_instance d xs = Some ys \<Longrightarrow> distinct (map inst_ID xs) \<Longrightarrow>
    ys = filter (\<lambda>x. inst_ID x \<noteq> d) xs"
proof (induction d xs arbitrary: ys rule: drop_instance.induct)
  case (2 d x xs)
  then show ?case
    by (force split: if_splits simp: image_iff intro!: filter_True [symmetric])
qed simp

lemma find_filter_ID:
  "List.find (\<lambda>x. inst_ID x = e) (filter (\<lambda>x. inst_ID x \<noteq> d) xs) =
     (if e = d then None else List.find (\<lambda>x. inst_ID x = e) xs)"
  by (induction xs) auto

lemma find_None_ID: "List.find (\<lambda>x. inst_ID x = d) xs = None \<longleftrightarrow> d \<notin> inst_ID ` set xs"
  by (auto simp: find_None_iff)

lemma Register_table:
  "sd_table (fst (RegisterServiceInstance i sd)) =
     (sd_table sd)((ServiceName i, inst_ID i) \<mapsto> i)"
  by (rule ext) (auto simp: sd_table_def RegisterServiceInstance_def Let_def find_put_instance
      prod_eq_iff)

lemma Register_sd_ok: "sd_ok sd \<Longrightarrow> sd_ok (fst (RegisterServiceInstance i sd))"
  using put_instance_set [of i "lookup_list (sd_instances sd) (ServiceName i)"]
  by (auto simp: sd_ok_def RegisterServiceInstance_def Let_def put_instance_distinct)

lemma Deregister_Ret:
  assumes "DeregisterServiceInstance order d sd = (sd', notes, Ret ())"
  shows "\<exists>name \<in> set order. \<exists>rest.
    drop_instance d (lookup_list (sd_instances sd) name) = Some rest \<and>
    sd' = sd\<lparr>sd_instances := fmupd name rest (sd_instances sd)\<rparr> \<and>
    notes = map (\<lambda>w. (w, rest)) (lookup_list (sd_watches sd) name)"
  using assms
  by (induction order d sd rule: DeregisterServiceInstance.induct)
    (auto simp: Let_def notifyWatchers_def split: option.splits)

lemma Deregister_Fail:
  "snd (snd (DeregisterServiceInstance order d sd)) \<noteq> Ret () \<longleftrightarrow>
     (\<forall>name \<in> set order. d \<notin> inst_ID ` set (lookup_list (sd_instances sd) name))"
  by (induction order d sd rule: DeregisterServiceInstance.induct)
    (auto simp: Let_def drop_instance_None [symmetric] split: option.split)

text \<open>The discovery refines the table. Registering an instance updates exactly its entry,
  keeps the instance IDs of every service distinct and hands the new list to every watcher of
  the service. Deregistering an ID, in whatever order the services are visited,
  removes exactly one of the entries with that ID and reports an error exactly when there is none.\<close>

theorem discovery_refines_table:
  assumes "sd_ok sd" and "set order = fset (fmdom (sd_instances sd))"
    and "DeregisterServiceInstance order d sd = (sd', notes, res)"
  shows "sd_ok (fst (RegisterServiceInstance i sd)) \<and>
    sd_table (fst (RegisterServiceInstance i sd)) =
      (sd_table sd)((ServiceName i, inst_ID i) \<mapsto> i) \<and>
    snd (RegisterServiceInstance i sd) =
      map (\<lambda>w. (w, put_instance i (lookup_list (sd_instances sd) (ServiceName i))))
        (lookup_list (sd_watches sd) (ServiceName i)) \<and>
    sd_ok sd' \<and>
    (res = Ret () \<longleftrightarrow> (\<exists>name. sd_table sd (name, d) \<noteq> None)) \<and>
    (res = Ret () \<longrightarrow> (\<exists>name. sd_table sd (name, d) \<noteq> None \<and>
      sd_table sd' = (sd_table sd)((name, d) := None)))"
proof -
  have reg: "sd_ok (fst (RegisterServiceInstance i sd))" using assms(1) by (rule Register_sd_ok)
  have sent: "snd (RegisterServiceInstance i sd) =
      map (\<lambda>w. (w, put_instance i (lookup_list (sd_instances sd) (ServiceName i))))
        (lookup_list (sd_watches sd) (ServiceName i))"
    by (simp add: RegisterServiceInstance_def Let_def notifyWatchers_def)
  have absent: "lookup_list (sd_instances sd) name = []" if "name \<notin> set order" for name
    using that assms(2) by (auto simp: lookup_list_def fmlookup_dom_iff split: option.split)
  have iff: "res = Ret () \<longleftrightarrow> (\<exists>name. sd_table sd (name, d) \<noteq> None)"
    using Deregister_Fail [of order d sd] assms(3) absent
    by (simp add: sd_table_def find_None_ID) (metis empty_iff image_empty list.set(1))
  have gone: "\<exists>name. sd_table sd (name, d) \<noteq> None \<and>
      sd_table sd' = (sd_table sd)((name, d) := None) \<and> sd_ok sd'" if "res = Ret ()"
  proof -
    from Deregister_Ret assms(3) that obtain name rest where
      r: "drop_instance d (lookup_list (sd_instances sd) name) = Some rest"
      "sd' = sd\<lparr>sd_instances := fmupd name rest (sd_instances sd)\<rparr>" by blast
    have f: "rest = filter (\<lambda>x. inst_ID x \<noteq> d) (lookup_list (sd_instances sd) name)"
      using r(1) assms(1) by (intro drop_instance_Some) (simp_all add: sd_ok_def)
    have "sd_table sd (name, d) \<noteq> None"
      using r(1) by (simp add: sd_table_def find_None_ID drop_instance_None [symmetric])
    moreover have "sd_table sd' = (sd_table sd)((name, d) := None)"
      by (rule ext) (auto simp: sd_table_def r(2) f find_filter_ID prod_eq_iff)
    moreover have "sd_ok sd'"
      using assms(1) by (auto simp: sd_ok_def r(2) f distinct_map_filter)
    ultimately show ?thesis by blast
  qed
  have "sd_ok sd'"
  proof (cases "res = Ret ()")
    case False
    have "DeregisterServiceInstance order d sd = (sd', notes', res) \<Longrightarrow> res \<noteq> Ret () \<Longrightarrow> sd' = sd"
      for notes'
      by (induction order d sd rule: DeregisterServiceInstance.induct)
        (auto simp: Let_def split: option.splits)
    with False assms show ?thesis by blast
  qed (use gone in blast)
  with reg sent iff gone Register_table show ?thesis by blast
qed

theorem discovery_refines_table_witness:
  "let sd = \<lparr>sd_instances = fmupd ''chat'' sample_pool fmempty,
              sd_watches = fmupd ''chat'' [7::nat] fmempty\<rparr> in
   DeregisterServiceInstance [''chat''] ''b'' sd =
     (sd\<lparr>sd_instances := fmupd ''chat'' [sample_instance ''a'' 1 ''up'',
        sample_instance ''c'' 2 ''up''] (sd_instances sd)\<rparr>,
      [(7, [sample_instance ''a'' 1 ''up'', sample_instance ''c'' 2 ''up''])], Ret ()) \<and>
   sd_ok (fst (DeregisterServiceInstance [''chat''] ''b'' sd))"
proof -
  let ?sd = "\<lparr>sd_instances = fmupd ''chat'' sample_pool fmempty,
              sd_watches = fmupd ''chat'' [7::nat] fmempty\<rparr>"
  let ?l = "[sample_instance ''a'' 1 ''up'', sample_instance ''c'' 2 ''up'']"
  have d: "DeregisterServiceInstance [''chat''] ''b'' ?sd =
      (?sd\<lparr>sd_instances := fmupd ''chat'' ?l (sd_instances ?sd)\<rparr>, [(7, ?l)], Ret ())"
    by (simp add: sample_pool_def sample_instance_def notifyWatchers_def)
  have "sd_ok ?sd"
    by (simp add: sd_ok_def sample_pool_def sample_instance_def)
      (simp add: lookup_list_def)
  then have "sd_ok (?sd\<lparr>sd_instances := fmupd ''chat'' ?l (sd_instances ?sd)\<rparr>)"
    by (rule discovery_refines_table [OF _ _ d, THEN conjunct2, THEN conjunct2, THEN conjunct2,
          THEN conjunct1]) simp
  then show ?thesis unfolding Let_def d fst_conv by blast
qed

end
