(* ===== verification/Rpc_Balancing.thy ===== *)
theory Rpc_Balancing
  imports Go_Prelude "HOL-Library.Finite_Map"
begin

text \<open>
  Service registry and client-side load balancing of
  \<^verbatim>\<open>src/pkg/rpc/load_balancer.go\<close>. Instances are pointers in the code and
  \<^verbatim>\<open>Deregister\<close> writes through them, so the model has an explicit store of
  instances; services and channel buffers hold addresses. Watch channels have
  one buffer slot, a send on a closed channel or a second close panics. \<^verbatim>\<open>rand.Intn\<close> is
  an argument of the operations that call it.
\<close>

section \<open>Instances and selectors\<close>

record rpc_instance =
  ri_ID :: string
  ri_Name :: string
  ri_Endpoint :: string
  ri_Tags :: "(string, string) fmap"
  ri_Weight :: int
  ri_Status :: string

datatype lb_error = NoInstancesAvailable | NoInstancesFound string | RegInstanceNotFound string

text \<open>\<^verbatim>\<open>rand.Intn(n)\<close> panics unless \<open>n\<close> is positive; \<open>rnd n\<close> is the number drawn.\<close>

definition Intn :: "(int \<Rightarrow> int) \<Rightarrow> int \<Rightarrow> ('e, int) go" where
  "Intn rnd n = (if n \<le> 0 then Panic else Ret (rnd n))"

definition rnd_ok :: "(int \<Rightarrow> int) \<Rightarrow> bool" where
  "rnd_ok rnd \<longleftrightarrow> (\<forall>n > 0. 0 \<le> rnd n \<and> rnd n < n)"

definition RandomSelector_Select :: "(int \<Rightarrow> int) \<Rightarrow> 'i list \<Rightarrow> (lb_error, 'i) go" where
  "RandomSelector_Select rnd instances =
     (if instances = [] then Fail NoInstancesAvailable
      else go_bind (Intn rnd (int (length instances))) (\<lambda>idx. go_index instances idx))"

definition RoundRobinSelector_Select :: "int \<Rightarrow> 'i list \<Rightarrow> int \<times> (lb_error, 'i) go" where
  "RoundRobinSelector_Select nextIdx instances =
     (if instances = [] then (nextIdx, Fail NoInstancesAvailable)
      else
        let idx = go_rem nextIdx (int (length instances))
        in (wrap64 (nextIdx + 1), go_index instances idx))"

text \<open>A weight that is not positive counts as 1.\<close>

definition eff_weight :: "('i \<Rightarrow> rpc_instance) \<Rightarrow> 'i \<Rightarrow> int" where
  "eff_weight deref i = (let w = ri_Weight (deref i) in if w \<le> 0 then 1 else w)"

definition WeightedSelector_Select ::
    "('i \<Rightarrow> rpc_instance) \<Rightarrow> (int \<Rightarrow> int) \<Rightarrow> 'i list \<Rightarrow> (lb_error, 'i) go" where
  "WeightedSelector_Select deref rnd instances =
     (if instances = [] then Fail NoInstancesAvailable
      else
        let totalWeight = total_of (eff_weight deref) instances
        in go_bind (Intn rnd totalWeight) (\<lambda>target.
           case weighted_pick (eff_weight deref) target 0 instances of
             Some inst \<Rightarrow> Ret inst
           | None \<Rightarrow> go_index instances 0))"

text \<open>The three implementations behind the \<^verbatim>\<open>InstanceSelector\<close> interface.\<close>

datatype InstanceSelector = RandomSelector | RoundRobinSelector int | WeightedSelector

fun Select ::
    "('i \<Rightarrow> rpc_instance) \<Rightarrow> (int \<Rightarrow> int) \<Rightarrow> InstanceSelector \<Rightarrow> 'i list \<Rightarrow>
      InstanceSelector \<times> (lb_error, 'i) go" where
  "Select deref rnd RandomSelector is = (RandomSelector, RandomSelector_Select rnd is)"
| "Select deref rnd (RoundRobinSelector n) is =
     (case RoundRobinSelector_Select n is of (n', res) \<Rightarrow> (RoundRobinSelector n', res))"
| "Select deref rnd WeightedSelector is =
     (WeightedSelector, WeightedSelector_Select deref rnd is)"

section \<open>The in-memory registry\<close>

type_synonym addr = nat
type_synonym chan = nat

record InMemoryRegistry =
  objs :: "addr \<Rightarrow> rpc_instance"
  services :: "(string, addr list) fmap"
  watches :: "(string, chan list) fmap"
  buffers :: "chan \<Rightarrow> addr list list"
  closed :: "chan set"
  watchers :: "(string \<times> chan) list"
  next_chan :: chan

definition NewInMemoryRegistry :: "(addr \<Rightarrow> rpc_instance) \<Rightarrow> InMemoryRegistry" where
  "NewInMemoryRegistry h =
     \<lparr>objs = h, services = fmempty, watches = fmempty, buffers = (\<lambda>_. []), closed = {},
      watchers = [], next_chan = 0\<rparr>"

text \<open>A non-blocking send into a buffer of one slot.\<close>

definition try_send :: "chan \<Rightarrow> addr list \<Rightarrow> InMemoryRegistry \<Rightarrow> (lb_error, InMemoryRegistry) go" where
  "try_send ch is r =
     (if ch \<in> closed r then Panic
      else if length (buffers r ch) < 1
      then Ret (r\<lparr>buffers := (buffers r)(ch := buffers r ch @ [is])\<rparr>)
      else Ret r)"

fun send_all ::
    "chan list \<Rightarrow> addr list \<Rightarrow> InMemoryRegistry \<Rightarrow> (lb_error, InMemoryRegistry) go" where
  "send_all [] is r = Ret r"
| "send_all (ch # chs) is r = go_bind (try_send ch is r) (send_all chs is)"

definition reg_notifyWatchers ::
    "string \<Rightarrow> addr list \<Rightarrow> InMemoryRegistry \<Rightarrow> (lb_error, InMemoryRegistry) go" where
  "reg_notifyWatchers serviceName is r =
     (case fmlookup (watches r) serviceName of
        None \<Rightarrow> Ret r
      | Some chs \<Rightarrow> send_all chs is r)"

fun replace_ID :: "(addr \<Rightarrow> rpc_instance) \<Rightarrow> addr \<Rightarrow> addr list \<Rightarrow> addr list" where
  "replace_ID h a [] = [a]"
| "replace_ID h a (x # xs) = (if ri_ID (h x) = ri_ID (h a) then a # xs else x # replace_ID h a xs)"

definition Register :: "addr \<Rightarrow> InMemoryRegistry \<Rightarrow> (lb_error, InMemoryRegistry) go" where
  "Register a r =
     (let name = ri_Name (objs r a) in
      case fmlookup (services r) name of
        None \<Rightarrow> reg_notifyWatchers name [a] (r\<lparr>services := fmupd name [a] (services r)\<rparr>)
      | Some instances \<Rightarrow>
          let instances = replace_ID (objs r) a instances
          in reg_notifyWatchers name instances
               (r\<lparr>services := fmupd name instances (services r)\<rparr>))"

text \<open>The outer loop visits the services in the order \<open>order\<close>.\<close>

fun Deregister :: "string list \<Rightarrow> string \<Rightarrow> InMemoryRegistry \<Rightarrow> (lb_error, InMemoryRegistry) go" where
  "Deregister [] d r = Fail (RegInstanceNotFound d)"
| "Deregister (name # order) d r =
     (case fmlookup (services r) name of
        None \<Rightarrow> Deregister order d r
      | Some instances \<Rightarrow>
          (case List.find (\<lambda>a. ri_ID (objs r a) = d) instances of
             None \<Rightarrow> Deregister order d r
           | Some a \<Rightarrow>
               reg_notifyWatchers name instances
                 (r\<lparr>objs := (objs r)(a := (objs r a)\<lparr>ri_Status := ''down''\<rparr>)\<rparr>)))"

definition reg_active :: "InMemoryRegistry \<Rightarrow> addr list \<Rightarrow> addr list" where
  "reg_active r instances = filter (\<lambda>a. ri_Status (objs r a) \<noteq> ''down'') instances"

definition GetInstances :: "string \<Rightarrow> InMemoryRegistry \<Rightarrow> addr list" where
  "GetInstances serviceName r =
     (case fmlookup (services r) serviceName of
        None \<Rightarrow> []
      | Some instances \<Rightarrow> reg_active r instances)"

text \<open>One tick of the cleanup goroutine.\<close>

fun cleanup_tick :: "string list \<Rightarrow> InMemoryRegistry \<Rightarrow> (lb_error, InMemoryRegistry) go" where
  "cleanup_tick [] r = Ret r"
| "cleanup_tick (name # order) r =
     (case fmlookup (services r) name of
        None \<Rightarrow> cleanup_tick order r
      | Some instances \<Rightarrow>
          let active = reg_active r instances
          in if active = instances then cleanup_tick order r
             else go_bind (reg_notifyWatchers name active
                    (r\<lparr>services := fmupd name active (services r)\<rparr>)) (cleanup_tick order))"

text \<open>
  \<open>WatchService\<close> creates a channel, adds it to the watch list and sends the active instances;
  \<open>ctx_done\<close> is the goroutine it starts, run when the context ends.
\<close>

definition Reg_WatchService :: "string \<Rightarrow> InMemoryRegistry \<Rightarrow> (lb_error, InMemoryRegistry \<times> chan) go" where
  "Reg_WatchService serviceName r =
     (let ch = next_chan r;
          chs = (case fmlookup (watches r) serviceName of None \<Rightarrow> [ch] | Some ws \<Rightarrow> ws @ [ch]);
          r = r\<lparr>next_chan := Suc ch, watches := fmupd serviceName chs (watches r),
                watchers := watchers r @ [(serviceName, ch)]\<rparr>
      in go_bind (try_send ch (GetInstances serviceName r) r) (\<lambda>r. Ret (r, ch)))"

definition close_chan :: "chan \<Rightarrow> InMemoryRegistry \<Rightarrow> (lb_error, InMemoryRegistry) go" where
  "close_chan ch r = (if ch \<in> closed r then Panic else Ret (r\<lparr>closed := insert ch (closed r)\<rparr>))"

definition ctx_done :: "string \<Rightarrow> chan \<Rightarrow> InMemoryRegistry \<Rightarrow> (lb_error, InMemoryRegistry) go" where
  "ctx_done serviceName ch r =
     (let r = r\<lparr>watchers := remove1 (serviceName, ch) (watchers r)\<rparr>;
          r = (case fmlookup (watches r) serviceName of
                 None \<Rightarrow> r
               | Some ws \<Rightarrow>
                   let ws = remove1 ch ws
                   in r\<lparr>watches := (if ws = [] then fmdrop serviceName (watches r)
                                    else fmupd serviceName ws (watches r))\<rparr>)
      in close_chan ch r)"

text \<open>A receive by the watcher.\<close>

definition recv :: "chan \<Rightarrow> InMemoryRegistry \<Rightarrow> InMemoryRegistry \<times> addr list option" where
  "recv ch r =
     (case buffers r ch of
        [] \<Rightarrow> (r, None)
      | m # ms \<Rightarrow> (r\<lparr>buffers := (buffers r)(ch := ms)\<rparr>, Some m))"

section \<open>The load balancer\<close>

record LoadBalancer =
  registry :: InMemoryRegistry
  selectors :: "(string, InstanceSelector) fmap"

definition NewLoadBalancer :: "InMemoryRegistry \<Rightarrow> LoadBalancer" where
  "NewLoadBalancer reg = \<lparr>registry = reg, selectors = fmempty\<rparr>"

definition SetSelector :: "string \<Rightarrow> InstanceSelector \<Rightarrow> LoadBalancer \<Rightarrow> LoadBalancer" where
  "SetSelector serviceName selector lb =
     lb\<lparr>selectors := fmupd serviceName selector (selectors lb)\<rparr>"

definition GetInstance ::
    "(int \<Rightarrow> int) \<Rightarrow> string \<Rightarrow> LoadBalancer \<Rightarrow> LoadBalancer \<times> (lb_error, addr) go" where
  "GetInstance rnd serviceName lb =
     (let instances = GetInstances serviceName (registry lb) in
      if instances = [] then (lb, Fail (NoInstancesFound serviceName))
      else
        case fmlookup (selectors lb) serviceName of
          None \<Rightarrow> (lb, snd (Select (objs (registry lb)) rnd RandomSelector instances))
        | Some selector \<Rightarrow>
            let (selector, res) = Select (objs (registry lb)) rnd selector instances
            in (lb\<lparr>selectors := fmupd serviceName selector (selectors lb)\<rparr>, res))"

section \<open>The selector interface\<close>

text \<open>
  What the balancer relies on: an empty list is an error, a returned instance is one of the
  list, and a selector that is \<open>ready\<close> for a nonempty list returns one.
\<close>

locale instance_selector =
  fixes sel :: "(int \<Rightarrow> int) \<Rightarrow> 's \<Rightarrow> 'i list \<Rightarrow> 's \<times> (lb_error, 'i) go"
    and ready :: "'s \<Rightarrow> 'i list \<Rightarrow> bool"
  assumes sel_empty: "snd (sel rnd s []) = Fail NoInstancesAvailable"
    and sel_in: "snd (sel rnd s is) = Ret i \<Longrightarrow> i \<in> set is"
    and sel_ready: "rnd_ok rnd \<Longrightarrow> ready s is \<Longrightarrow> is \<noteq> [] \<Longrightarrow> \<exists>i. snd (sel rnd s is) = Ret i"
begin

lemma sel_filter:
  "snd (sel rnd s (filter P is)) = Ret i \<Longrightarrow> i \<in> set is \<and> P i"
  using sel_in by fastforce

lemma sel_ready_in:
  assumes "rnd_ok rnd" and "ready s is" and "is \<noteq> []"
  obtains i where "snd (sel rnd s is) = Ret i" and "i \<in> set is"
  using sel_ready [OF assms] sel_in by blast

end

lemma eff_weight_pos: "0 < eff_weight deref i"
  by (simp add: eff_weight_def Let_def)

lemma eff_weights_nonneg: "weights_nonneg (eff_weight deref) is"
  by (simp add: list_all_iff eff_weight_pos order_less_imp_le)

lemma eff_weight_sum_pos: "is \<noteq> [] \<Longrightarrow> 0 < weight_sum (eff_weight deref) is"
proof (cases "is")
  case (Cons i is')
  then show ?thesis
    using eff_weight_pos [of deref i] weight_sum_nonneg [OF eff_weights_nonneg, of deref is']
    by simp
qed simp

definition selector_ready :: "('i \<Rightarrow> rpc_instance) \<Rightarrow> InstanceSelector \<Rightarrow> 'i list \<Rightarrow> bool" where
  "selector_ready deref s is =
     (case s of
        RandomSelector \<Rightarrow> True
      | RoundRobinSelector n \<Rightarrow> 0 \<le> n
      | WeightedSelector \<Rightarrow> weight_sum (eff_weight deref) is \<le> max_int64)"

lemma Weighted_target:
  assumes "is \<noteq> []" and "weight_sum (eff_weight deref) is \<le> max_int64"
    and "0 \<le> rnd (weight_sum (eff_weight deref) is)"
    and "rnd (weight_sum (eff_weight deref) is) < weight_sum (eff_weight deref) is"
  shows "WeightedSelector_Select deref rnd is =
    Ret (slots (eff_weight deref) is ! nat (rnd (weight_sum (eff_weight deref) is)))"
proof -
  have "total_of (eff_weight deref) is = weight_sum (eff_weight deref) is"
    by (rule total_of_sum [OF eff_weights_nonneg assms(2)])
  moreover have "weighted_pick (eff_weight deref) (rnd (weight_sum (eff_weight deref) is)) 0 is =
      Some (slots (eff_weight deref) is ! nat (rnd (weight_sum (eff_weight deref) is) - 0))"
    by (rule weighted_pick_slots) (use assms eff_weights_nonneg in simp_all)
  ultimately show ?thesis
    using assms(1) eff_weight_sum_pos [OF assms(1), of deref]
    by (simp add: WeightedSelector_Select_def Intn_def Let_def)
qed

interpretation selector: instance_selector "Select deref" "selector_ready deref"
  for deref :: "'i \<Rightarrow> rpc_instance"
proof
  fix rnd s and "is" :: "'i list" and i
  show "snd (Select deref rnd s []) = Fail NoInstancesAvailable"
    by (cases s) (simp_all add: RandomSelector_Select_def RoundRobinSelector_Select_def
        WeightedSelector_Select_def)
  show "snd (Select deref rnd s is) = Ret i \<Longrightarrow> i \<in> set is"
    by (cases s) (auto simp: RandomSelector_Select_def RoundRobinSelector_Select_def
        WeightedSelector_Select_def Let_def go_bind_Ret_iff
        dest: go_index_Ret weighted_pick_in split: if_splits option.splits)
  assume rnd: "rnd_ok rnd" and ready: "selector_ready deref s is" and ne: "is \<noteq> []"
  then have len: "0 < int (length is)" by simp
  show "\<exists>i. snd (Select deref rnd s is) = Ret i"
  proof (cases s)
    case RandomSelector
    have "0 \<le> rnd (int (length is))" "rnd (int (length is)) < int (length is)"
      using rnd len by (simp_all add: rnd_ok_def)
    then show ?thesis
      using RandomSelector ne by (simp add: RandomSelector_Select_def Intn_def go_index_def)
  next
    case (RoundRobinSelector n)
    then have "0 \<le> n" using ready by (simp add: selector_ready_def)
    from go_rem_bounds [OF this len] show ?thesis
      using RoundRobinSelector ne
      by (simp add: RoundRobinSelector_Select_def Let_def go_index_def)
  next
    case WeightedSelector
    then have "weight_sum (eff_weight deref) is \<le> max_int64"
      using ready by (simp add: selector_ready_def)
    from Weighted_target [OF ne this] rnd eff_weight_sum_pos [OF ne, of deref]
    show ?thesis using WeightedSelector by (auto simp: rnd_ok_def)
  qed
qed

text \<open>The weighted selector gives every instance its share: over the equally likely random
  targets, an instance is chosen exactly as often as its weight (1 when the weight is not
  positive).\<close>

theorem Weighted_share:
  assumes "is \<noteq> []" and "weight_sum (eff_weight deref) is \<le> max_int64"
  shows "map (\<lambda>t. WeightedSelector_Select deref (\<lambda>_. int t) is)
      [0..<nat (weight_sum (eff_weight deref) is)] = map Ret (slots (eff_weight deref) is)"
proof (rule nth_equalityI)
  have len: "nat (weight_sum (eff_weight deref) is) = length (slots (eff_weight deref) is)"
    using length_slots [OF eff_weights_nonneg, of deref "is"] by simp
  show "length (map (\<lambda>t. WeightedSelector_Select deref (\<lambda>_. int t) is)
      [0..<nat (weight_sum (eff_weight deref) is)]) =
      length (map Ret (slots (eff_weight deref) is))"
    by (simp add: len)
  fix t
  assume "t < length (map (\<lambda>t. WeightedSelector_Select deref (\<lambda>_. int t) is)
      [0..<nat (weight_sum (eff_weight deref) is)])"
  then have t: "t < nat (weight_sum (eff_weight deref) is)" by simp
  then have "WeightedSelector_Select deref (\<lambda>_. int t) is =
      Ret (slots (eff_weight deref) is ! nat (int t))"
    by (intro Weighted_target [OF assms]) simp_all
  with t show "map (\<lambda>t. WeightedSelector_Select deref (\<lambda>_. int t) is)
      [0..<nat (weight_sum (eff_weight deref) is)] ! t = map Ret (slots (eff_weight deref) is) ! t"
    by (simp add: len)
qed

definition rpc_sample :: "nat \<Rightarrow> rpc_instance" where
  "rpc_sample a = \<lparr>ri_ID = [char_of (a + 97)], ri_Name = ''auth'', ri_Endpoint = ''unix'',
     ri_Tags = fmempty, ri_Weight = int a, ri_Status = ''active''\<rparr>"

theorem Weighted_share_witness:
  "map (\<lambda>t. WeightedSelector_Select rpc_sample (\<lambda>_. int t) [2, 0]) [0..<3] =
     [Ret 2, Ret 2, Ret 0]"
  using Weighted_share [of "[2, 0]" rpc_sample]
  by (simp add: eff_weight_def rpc_sample_def max_int64_def numeral_2_eq_2 upt_rec)

text \<open>C37: an instance returned by the balancer is registered under the requested service and is
  not down, whatever selector is set; and when the service has a live instance, the random
  source is sound and the selector is ready, one is returned.\<close>

theorem GetInstance_live:
  "(snd (GetInstance rnd name lb) = Ret a \<longrightarrow>
     (\<exists>is. fmlookup (services (registry lb)) name = Some is \<and> a \<in> set is \<and>
       ri_Status (objs (registry lb) a) \<noteq> ''down'')) \<and>
   (rnd_ok rnd \<and> GetInstances name (registry lb) \<noteq> [] \<and>
     (\<forall>s. fmlookup (selectors lb) name = Some s \<longrightarrow>
       selector_ready (objs (registry lb)) s (GetInstances name (registry lb))) \<longrightarrow>
    (\<exists>a. snd (GetInstance rnd name lb) = Ret a))"
proof (intro conjI impI)
  let ?reg = "registry lb"
  assume "snd (GetInstance rnd name lb) = Ret a"
  then obtain s where "snd (Select (objs ?reg) rnd s (GetInstances name ?reg)) = Ret a"
    by (auto simp: GetInstance_def Let_def split_def simp del: Select.simps
        split: if_splits option.splits)
  then have "a \<in> set (GetInstances name ?reg)" by (rule selector.sel_in)
  then show "\<exists>is. fmlookup (services ?reg) name = Some is \<and> a \<in> set is \<and>
       ri_Status (objs ?reg a) \<noteq> ''down''"
    by (cases "fmlookup (services ?reg) name") (auto simp: GetInstances_def reg_active_def)
next
  let ?reg = "registry lb"
  assume *: "rnd_ok rnd \<and> GetInstances name ?reg \<noteq> [] \<and>
     (\<forall>s. fmlookup (selectors lb) name = Some s \<longrightarrow>
       selector_ready (objs ?reg) s (GetInstances name ?reg))"
  obtain s where s: "fmlookup (selectors lb) name = Some s \<or>
      fmlookup (selectors lb) name = None \<and> s = RandomSelector"
    by (cases "fmlookup (selectors lb) name") auto
  then have "selector_ready (objs ?reg) s (GetInstances name ?reg)"
    using * by (auto simp: selector_ready_def)
  with * obtain i where "snd (Select (objs ?reg) rnd s (GetInstances name ?reg)) = Ret i"
    using selector.sel_ready by blast
  with s * show "\<exists>a. snd (GetInstance rnd name lb) = Ret a"
    by (auto simp: GetInstance_def Let_def split_def)
qed

theorem GetInstance_live_witness:
  "snd (GetInstance (\<lambda>_. 0) ''auth'' (NewLoadBalancer
     ((NewInMemoryRegistry rpc_sample)\<lparr>services := fmupd ''auth'' [3, 1] fmempty\<rparr>))) = Ret 3 \<and>
   ri_Status (rpc_sample 3) \<noteq> ''down''"
proof -
  let ?lb = "NewLoadBalancer
     ((NewInMemoryRegistry rpc_sample)\<lparr>services := fmupd ''auth'' [3, 1] fmempty\<rparr>)"
  have "snd (GetInstance (\<lambda>_. 0) ''auth'' ?lb) = Ret 3"
    by (simp add: GetInstance_def NewLoadBalancer_def NewInMemoryRegistry_def GetInstances_def
        reg_active_def rpc_sample_def RandomSelector_Select_def Intn_def go_index_def)
  with GetInstance_live [of "\<lambda>_. 0" "''auth''" ?lb 3] show ?thesis
    by (simp add: NewLoadBalancer_def NewInMemoryRegistry_def)
qed

section \<open>Channel safety of the registry\<close>

text \<open>
  Every interleaving of the registry's operations: they run under one mutex, so each is a step.
  Instances may be written by their owners at any time; the goroutine that \<open>WatchService\<close>
  starts runs once, when its context ends.
\<close>

inductive reg_reach :: "InMemoryRegistry \<Rightarrow> bool" where
  reach_new: "reg_reach (NewInMemoryRegistry h)"
| reach_obj: "reg_reach r \<Longrightarrow> reg_reach (r\<lparr>objs := h\<rparr>)"
| reach_register: "reg_reach r \<Longrightarrow> Register a r = Ret r' \<Longrightarrow> reg_reach r'"
| reach_deregister: "reg_reach r \<Longrightarrow> Deregister order d r = Ret r' \<Longrightarrow> reg_reach r'"
| reach_cleanup: "reg_reach r \<Longrightarrow> cleanup_tick order r = Ret r' \<Longrightarrow> reg_reach r'"
| reach_watch: "reg_reach r \<Longrightarrow> Reg_WatchService name r = Ret (r', ch) \<Longrightarrow> reg_reach r'"
| reach_done: "reg_reach r \<Longrightarrow> (name, ch) \<in> set (watchers r) \<Longrightarrow> ctx_done name ch r = Ret r' \<Longrightarrow>
    reg_reach r'"
| reach_recv: "reg_reach r \<Longrightarrow> reg_reach (fst (recv ch r))"

definition watch_ok :: "InMemoryRegistry \<Rightarrow> bool" where
  "watch_ok r \<longleftrightarrow>
     distinct (map snd (watchers r)) \<and>
     (\<forall>(name, ch) \<in> set (watchers r). ch < next_chan r \<and> ch \<notin> closed r) \<and>
     (\<forall>name chs. fmlookup (watches r) name = Some chs \<longrightarrow>
        distinct chs \<and> (\<forall>ch \<in> set chs. (name, ch) \<in> set (watchers r))) \<and>
     (\<forall>ch \<in> closed r. ch < next_chan r) \<and>
     (\<forall>ch. length (buffers r ch) \<le> 1 \<and> (next_chan r \<le> ch \<longrightarrow> buffers r ch = []))"

lemma watch_ok_new: "watch_ok (NewInMemoryRegistry h)"
  by (simp add: watch_ok_def NewInMemoryRegistry_def)

text \<open>Changing instances and services does not concern the channels.\<close>

lemma watch_ok_upd [simp]:
  "watch_ok (r\<lparr>objs := h\<rparr>) = watch_ok r"
  "watch_ok (r\<lparr>services := m\<rparr>) = watch_ok r"
  by (simp_all add: watch_ok_def)

text \<open>A notification puts the list into the empty buffers of the watchers, and only there.\<close>

definition deliver :: "chan list \<Rightarrow> addr list \<Rightarrow> (chan \<Rightarrow> addr list list) \<Rightarrow> chan \<Rightarrow> addr list list" where
  "deliver chs is b = (\<lambda>ch. if ch \<in> set chs \<and> b ch = [] then [is] else b ch)"

lemma deliver_full: "b ch \<noteq> [] \<Longrightarrow> deliver chs is b ch = b ch"
  by (simp add: deliver_def)

lemma deliver_Cons: "deliver (ch # chs) is b = deliver chs is (deliver [ch] is b)"
  by (auto simp: deliver_def fun_eq_iff)

lemma try_send_open:
  assumes "ch \<notin> closed r"
  shows "try_send ch is r = Ret (r\<lparr>buffers := deliver [ch] is (buffers r)\<rparr>)"
proof (cases "buffers r ch")
  case Nil
  then have "(buffers r)(ch := buffers r ch @ [is]) = deliver [ch] is (buffers r)"
    by (auto simp: deliver_def)
  with Nil assms show ?thesis by (simp add: try_send_def)
next
  case Cons
  then have "deliver [ch] is (buffers r) = buffers r" by (auto simp: deliver_def fun_eq_iff)
  with Cons assms show ?thesis by (simp add: try_send_def)
qed

lemma send_all_open:
  "\<forall>ch \<in> set chs. ch \<notin> closed r \<Longrightarrow>
    send_all chs is r = Ret (r\<lparr>buffers := deliver chs is (buffers r)\<rparr>)"
proof (induction chs arbitrary: r)
  case Nil
  have "deliver [] is (buffers r) = buffers r" by (simp add: deliver_def)
  then show ?case by simp
next
  case (Cons ch chs)
  then show ?case by (simp add: try_send_open deliver_Cons [of ch chs])
qed

definition watchers_of :: "InMemoryRegistry \<Rightarrow> string \<Rightarrow> chan list" where
  "watchers_of r name = (case fmlookup (watches r) name of None \<Rightarrow> [] | Some chs \<Rightarrow> chs)"

lemma watchers_of_ok:
  assumes "watch_ok r" and "ch \<in> set (watchers_of r name)"
  shows "ch \<notin> closed r" and "ch < next_chan r"
proof -
  obtain chs where "fmlookup (watches r) name = Some chs" and "ch \<in> set chs"
    using assms(2) by (cases "fmlookup (watches r) name") (auto simp: watchers_of_def)
  then have "(name, ch) \<in> set (watchers r)" using assms(1) by (simp add: watch_ok_def)
  then show "ch \<notin> closed r" "ch < next_chan r" using assms(1) by (auto simp: watch_ok_def)
qed

lemma watch_ok_deliver:
  assumes "watch_ok r" and "\<forall>ch \<in> set chs. ch < next_chan r"
  shows "watch_ok (r\<lparr>buffers := deliver chs is (buffers r)\<rparr>)"
  using assms unfolding watch_ok_def deliver_def by auto

lemma notify_deliver:
  assumes "watch_ok r"
  shows "reg_notifyWatchers name is r =
    Ret (r\<lparr>buffers := deliver (watchers_of r name) is (buffers r)\<rparr>)"
proof (cases "fmlookup (watches r) name")
  case None
  have "deliver [] is (buffers r) = buffers r" by (simp add: deliver_def)
  with None show ?thesis by (simp add: reg_notifyWatchers_def watchers_of_def)
next
  case (Some chs)
  then have "watchers_of r name = chs" by (simp add: watchers_of_def)
  moreover from this have "\<forall>ch \<in> set chs. ch \<notin> closed r"
    using watchers_of_ok(1) [OF assms] by blast
  ultimately show ?thesis using Some by (simp add: reg_notifyWatchers_def send_all_open)
qed

lemma watch_ok_notified:
  assumes "watch_ok r"
  shows "watch_ok (r\<lparr>buffers := deliver (watchers_of r name) is (buffers r)\<rparr>)"
  using assms watchers_of_ok(2) [OF assms] by (blast intro: watch_ok_deliver)

lemma watchers_of_upd [simp]:
  "watchers_of (r\<lparr>services := m\<rparr>) = watchers_of r"
  "watchers_of (r\<lparr>objs := h\<rparr>) = watchers_of r"
  by (simp_all add: watchers_of_def fun_eq_iff)

text \<open>Registering and deregistering in closed form.\<close>

definition new_list :: "addr \<Rightarrow> InMemoryRegistry \<Rightarrow> addr list" where
  "new_list a r = replace_ID (objs r) a
     (case fmlookup (services r) (ri_Name (objs r a)) of None \<Rightarrow> [] | Some is \<Rightarrow> is)"

lemma Register_closed_form:
  assumes "watch_ok r"
  shows "Register a r = (let name = ri_Name (objs r a) in
    Ret (r\<lparr>services := fmupd name (new_list a r) (services r),
           buffers := deliver (watchers_of r name) (new_list a r) (buffers r)\<rparr>))"
  using assms
  by (cases "fmlookup (services r) (ri_Name (objs r a))")
    (simp_all add: Register_def Let_def notify_deliver new_list_def)

lemma Deregister_cases:
  assumes "watch_ok r"
  shows "Deregister order d r = Fail (RegInstanceNotFound d) \<or>
    (\<exists>name is a. name \<in> set order \<and> fmlookup (services r) name = Some is \<and> a \<in> set is \<and>
      ri_ID (objs r a) = d \<and>
      Deregister order d r = Ret (r\<lparr>objs := (objs r)(a := (objs r a)\<lparr>ri_Status := ''down''\<rparr>),
        buffers := deliver (watchers_of r name) is (buffers r)\<rparr>))"
proof (induction order)
  case (Cons name order)
  show ?case
  proof (cases "Option.bind (fmlookup (services r) name) (List.find (\<lambda>a. ri_ID (objs r a) = d))")
    case None
    then have "Deregister (name # order) d r = Deregister order d r"
      by (auto split: option.splits)
    with Cons show ?thesis by auto
  next
    case (Some a)
    then obtain "is" where "fmlookup (services r) name = Some is"
      and "List.find (\<lambda>a. ri_ID (objs r a) = d) is = Some a"
      by (auto simp: bind_eq_Some_conv)
    moreover from this(2) have "a \<in> set is" "ri_ID (objs r a) = d"
      by (auto simp: find_Some_iff)
    moreover from calculation have "Deregister (name # order) d r =
        reg_notifyWatchers name is
          (r\<lparr>objs := (objs r)(a := (objs r a)\<lparr>ri_Status := ''down''\<rparr>)\<rparr>)"
      by simp
    ultimately show ?thesis
      using assms notify_deliver [of "r\<lparr>objs := (objs r)(a := (objs r a)\<lparr>ri_Status := ''down''\<rparr>)\<rparr>"]
      by (intro disjI2 exI [of _ name] exI [of _ "is"] exI [of _ a])
        (simp add: fun_upd_def)
  qed
qed simp

lemma cleanup_ok:
  "watch_ok r \<Longrightarrow> \<exists>r'. cleanup_tick order r = Ret r' \<and> watch_ok r'"
proof (induction order arbitrary: r)
  case (Cons name order)
  show ?case
  proof (cases "fmlookup (services r) name")
    case (Some "is")
    let ?r = "r\<lparr>services := fmupd name (reg_active r is) (services r)\<rparr>"
    have "watch_ok ?r" using Cons.prems by simp
    note notify_deliver [OF this] watch_ok_notified [OF this, of name "reg_active r is"]
    with Some Cons show ?thesis by (simp add: Let_def)
  qed (use Cons in simp)
qed simp

lemma watch_fresh:
  assumes "watch_ok r"
  shows "\<exists>r'. Reg_WatchService name r = Ret (r', next_chan r) \<and> watch_ok r' \<and>
    buffers r' = deliver [next_chan r] (GetInstances name r) (buffers r) \<and>
    services r' = services r \<and> objs r' = objs r \<and>
    next_chan r \<in> set (watchers_of r' name)"
proof -
  let ?ch = "next_chan r"
  let ?chs = "watchers_of r name @ [?ch]"
  let ?r = "r\<lparr>next_chan := Suc ?ch, watches := fmupd name ?chs (watches r),
                watchers := watchers r @ [(name, ?ch)]\<rparr>"
  have open_ch: "?ch \<notin> closed r" "?ch \<notin> snd ` set (watchers r)"
    using assms by (auto simp: watch_ok_def)
  have dist: "distinct ?chs"
    using assms watchers_of_ok(2) [OF assms, of _ name]
    by (cases "fmlookup (watches r) name") (auto simp: watch_ok_def watchers_of_def)
  have in_ws: "\<forall>ch \<in> set (watchers_of r name). (name, ch) \<in> set (watchers r)"
    using assms by (cases "fmlookup (watches r) name") (auto simp: watch_ok_def watchers_of_def)
  have ok: "watch_ok ?r"
    using assms open_ch dist in_ws unfolding watch_ok_def
    by (auto simp: less_Suc_eq image_iff)
  have "GetInstances name ?r = GetInstances name r"
    by (simp add: GetInstances_def reg_active_def cong: option.case_cong)
  moreover have "Reg_WatchService name r =
      go_bind (try_send ?ch (GetInstances name ?r) ?r) (\<lambda>r. Ret (r, ?ch))"
    by (cases "fmlookup (watches r) name")
      (simp_all add: Reg_WatchService_def Let_def watchers_of_def)
  moreover have "try_send ?ch (GetInstances name r) ?r =
      Ret (?r\<lparr>buffers := deliver [?ch] (GetInstances name r) (buffers r)\<rparr>)"
    using try_send_open [of ?ch ?r "GetInstances name r"] open_ch by simp
  moreover have "watch_ok (?r\<lparr>buffers := deliver [?ch] (GetInstances name r) (buffers r)\<rparr>)"
    using watch_ok_deliver [OF ok, of "[?ch]" "GetInstances name r"] by simp
  ultimately show ?thesis by (simp add: watchers_of_def)
qed

lemma distinct_map_remove1: "distinct (map f xs) \<Longrightarrow> distinct (map f (remove1 x xs))"
proof (induction xs)
  case (Cons y ys)
  have "f ` set (remove1 x ys) \<subseteq> f ` set ys" by (intro image_mono set_remove1_subset)
  with Cons show ?case by auto
qed simp

lemma done_ok:
  assumes "watch_ok r" and "(name, ch) \<in> set (watchers r)"
  shows "\<exists>r'. ctx_done name ch r = Ret r' \<and> watch_ok r'"
proof -
  have op: "ch \<notin> closed r" "ch < next_chan r" using assms by (auto simp: watch_ok_def)
  let ?ws = "remove1 (name, ch) (watchers r)"
  have set_ws: "set ?ws = set (watchers r) - {(name, ch)}"
    using assms(1) by (simp add: watch_ok_def distinct_map)
  have dist_ws: "distinct (map snd ?ws)"
    using assms(1) by (simp add: watch_ok_def distinct_map_remove1)
  have uniq: "(n, ch) \<in> set ?ws \<Longrightarrow> False" for n
  proof -
    assume n: "(n, ch) \<in> set ?ws"
    have "inj_on snd (set (watchers r))" using assms(1) by (simp add: watch_ok_def distinct_map)
    then have "(n, ch) = (name, ch)" by (rule inj_onD) (use n assms(2) set_ws in auto)
    with n set_ws show False by simp
  qed
  define chs where "chs = remove1 ch (watchers_of r name)"
  define m where "m = (case fmlookup (watches r) name of None \<Rightarrow> watches r
    | Some _ \<Rightarrow> if chs = [] then fmdrop name (watches r) else fmupd name chs (watches r))"
  have form: "ctx_done name ch r =
      Ret (r\<lparr>watchers := ?ws, watches := m, closed := insert ch (closed r)\<rparr>)"
    using op by (cases "fmlookup (watches r) name")
      (simp_all add: ctx_done_def close_chan_def Let_def m_def chs_def watchers_of_def)
  have look: "fmlookup m n = Some cs \<Longrightarrow> distinct cs \<and> (\<forall>c \<in> set cs. (n, c) \<in> set ?ws)" for n cs
  proof -
    assume l: "fmlookup m n = Some cs"
    have old: "fmlookup (watches r) n' = Some cs' \<Longrightarrow>
        distinct cs' \<and> (\<forall>c \<in> set cs'. (n', c) \<in> set (watchers r))" for n' cs'
      using assms(1) by (simp add: watch_ok_def)
    show "distinct cs \<and> (\<forall>c \<in> set cs. (n, c) \<in> set ?ws)"
    proof (cases "n = name")
      case True
      with l obtain cs' where "fmlookup (watches r) name = Some cs'" and "cs = remove1 ch cs'"
        by (auto simp: m_def chs_def watchers_of_def split: option.splits if_splits)
      with old [of name cs'] True show ?thesis by (auto simp: set_ws)
    next
      case False
      with l have "fmlookup (watches r) n = Some cs"
        by (auto simp: m_def split: option.splits if_splits)
      with old [of n cs] False show ?thesis by (auto simp: set_ws)
    qed
  qed
  have "watch_ok (r\<lparr>watchers := ?ws, watches := m, closed := insert ch (closed r)\<rparr>)"
    using assms(1) dist_ws look op uniq set_ws unfolding watch_ok_def by auto
  with form show ?thesis by blast
qed

lemma reach_watch_ok: "reg_reach r \<Longrightarrow> watch_ok r"
proof (induction rule: reg_reach.induct)
  case (reach_register r a r')
  then show ?case
    using watch_ok_notified [of "r\<lparr>services := fmupd (ri_Name (objs r a)) (new_list a r) (services r)\<rparr>"]
    by (auto simp: Register_closed_form Let_def)
next
  case (reach_deregister r order d r')
  then obtain name "is" a where
    "r' = r\<lparr>objs := (objs r)(a := (objs r a)\<lparr>ri_Status := ''down''\<rparr>),
        buffers := deliver (watchers_of r name) is (buffers r)\<rparr>"
    using Deregister_cases [of r order d] by auto
  then show ?case
    using watch_ok_notified [of "r\<lparr>objs := (objs r)(a := (objs r a)\<lparr>ri_Status := ''down''\<rparr>)\<rparr>" name "is"]
      reach_deregister by simp
next
  case (reach_cleanup r order r')
  then show ?case using cleanup_ok [of r order] by auto
next
  case (reach_watch r name r' ch)
  then show ?case using watch_fresh [of r name] by auto
next
  case (reach_done r name ch r')
  then show ?case using done_ok [of r name ch] by auto
next
  case (reach_recv r ch)
  then have "length (buffers r ch) \<le> 1" "next_chan r \<le> ch \<Longrightarrow> buffers r ch = []"
    by (auto simp: watch_ok_def)
  with reach_recv show ?case
    by (cases "buffers r ch") (auto simp: recv_def watch_ok_def)
qed (simp_all add: watch_ok_new)



text \<open>A watcher that has not yet read its buffer misses the update: after \<open>WatchService\<close>, a
  registration for the watched service is dropped, the watcher receives the list of
  before the registration, and then nothing.\<close>

theorem watcher_misses_update:
  assumes "reg_reach r" and "Reg_WatchService name r = Ret (r1, ch)"
    and "Register a r1 = Ret r2" and "ri_Name (objs r1 a) = name"
  shows "snd (recv ch r2) = Some (GetInstances name r) \<and>
    snd (recv ch (fst (recv ch r2))) = None"
proof -
  have ok: "watch_ok r" using assms(1) by (rule reach_watch_ok)
  have ch: "ch = next_chan r" and b1: "buffers r1 = deliver [ch] (GetInstances name r) (buffers r)"
    and ok1: "watch_ok r1"
    using watch_fresh [OF ok, of name] assms(2) by auto
  have "buffers r ch = []" using ok ch by (simp add: watch_ok_def)
  then have "buffers r1 ch = [GetInstances name r]" using b1 by (simp add: deliver_def)
  moreover have "buffers r2 ch = buffers r1 ch"
    using assms(3) calculation
    by (auto simp: Register_closed_form [OF ok1] Let_def deliver_full)
  ultimately show ?thesis by (simp add: recv_def)
qed

theorem watcher_misses_update_witness:
  "\<exists>r1 r2. Reg_WatchService ''auth'' (NewInMemoryRegistry rpc_sample) = Ret (r1, 0) \<and>
     Register 1 r1 = Ret r2 \<and> GetInstances ''auth'' r2 = [1] \<and> snd (recv 0 r2) = Some []"
proof -
  let ?r0 = "NewInMemoryRegistry rpc_sample"
  obtain r1 where r1: "Reg_WatchService ''auth'' ?r0 = Ret (r1, 0)" and o: "objs r1 = rpc_sample"
    and sv: "services r1 = fmempty"
    by (simp add: Reg_WatchService_def NewInMemoryRegistry_def Let_def try_send_def)
  have ok: "watch_ok r1" using reach_watch_ok [OF reach_watch [OF reach_new r1]] .
  then obtain r2 where r2: "Register 1 r1 = Ret r2"
    and g: "GetInstances ''auth'' r2 = [1]"
    by (simp add: Register_closed_form Let_def o sv GetInstances_def new_list_def reg_active_def
        rpc_sample_def)
  have "ri_Name (objs r1 1) = ''auth''" by (simp add: o rpc_sample_def)
  from watcher_misses_update [OF reach_new r1 r2 this] r1 r2 g show ?thesis
    by (auto simp: GetInstances_def NewInMemoryRegistry_def)
qed

end
