(* ===== verification/Text_Codec.thy ===== *)
theory Text_Codec
  imports Go_Prelude
begin

text \<open>
  The pieces of the Go standard library that the text formats use, as executable functions:
  \<^verbatim>\<open>strings.Split\<close> at a one-byte separator, decimal printing and
  \<^verbatim>\<open>strconv.ParseUint\<close> in base 10, and standard base64 with padding. Each comes with its
  round trip.
\<close>

section \<open>Splitting\<close>

fun split_on :: "char \<Rightarrow> string \<Rightarrow> string list" where
  "split_on c [] = [[]]"
| "split_on c (x # xs) =
     (if x = c then [] # split_on c xs
      else (case split_on c xs of [] \<Rightarrow> [[x]] | p # ps \<Rightarrow> (x # p) # ps))"

lemma split_on_not_Nil [simp]: "split_on c s \<noteq> []"
  by (cases s) (auto split: list.splits)

lemma split_on_none: "c \<notin> set s \<Longrightarrow> split_on c s = [s]"
  by (induction s) auto

lemma split_on_append: "c \<notin> set s \<Longrightarrow> split_on c (s @ c # t) = s # split_on c t"
  by (induction s) auto

lemma split_on_parts: "p \<in> set (split_on c s) \<Longrightarrow> c \<notin> set p"
  by (induction c s arbitrary: p rule: split_on.induct)
    (auto split: if_splits list.splits)

section \<open>Decimal numbers\<close>

definition digit_char :: "nat \<Rightarrow> char" where
  "digit_char d = char_of (48 + d)"

fun show_nat :: "nat \<Rightarrow> string" where
  "show_nat n = (if n < 10 then [digit_char n] else show_nat (n div 10) @ [digit_char (n mod 10)])"

declare show_nat.simps [simp del]

definition digit_val :: "char \<Rightarrow> nat option" where
  "digit_val c = (let k = of_char c in if 48 \<le> k \<and> k \<le> 57 then Some (k - 48) else None)"

definition digit_step :: "nat option \<Rightarrow> char \<Rightarrow> nat option" where
  "digit_step acc c = Option.bind acc (\<lambda>n. map_option (\<lambda>d. 10 * n + d) (digit_val c))"

text \<open>\<^verbatim>\<open>strconv.ParseUint(s, 10, bits)\<close>: digits only, at least one, below \<open>2 ^ bits\<close>.\<close>

definition parse_uint :: "nat \<Rightarrow> string \<Rightarrow> nat option" where
  "parse_uint bits s =
     (if s = [] then None
      else Option.bind (foldl digit_step (Some 0) s) (\<lambda>n. if n < 2 ^ bits then Some n else None))"

lemma of_char_char_of: "n < 256 \<Longrightarrow> of_char (char_of n :: char) = (n :: nat)"
  by (simp add: of_char_of)

lemma digit_val_char: "d < 10 \<Longrightarrow> digit_val (digit_char d) = Some d"
  by (simp add: digit_val_def digit_char_def of_char_char_of)

lemma show_nat_not_Nil [simp]: "show_nat n \<noteq> []"
  by (subst show_nat.simps) simp

lemma fold_show_nat: "foldl digit_step (Some 0) (show_nat n) = Some n"
proof (induction n rule: show_nat.induct)
  case (1 n)
  show ?case
  proof (cases "n < 10")
    case True
    then show ?thesis by (simp add: show_nat.simps digit_step_def digit_val_char)
  next
    case False
    then have "show_nat n = show_nat (n div 10) @ [digit_char (n mod 10)]"
      by (subst show_nat.simps) simp
    moreover have "10 * (n div 10) + n mod 10 = n" by simp
    ultimately show ?thesis
      using 1 False by (simp add: digit_step_def digit_val_char)
  qed
qed

lemma parse_show: "n < 2 ^ bits \<Longrightarrow> parse_uint bits (show_nat n) = Some n"
  by (simp add: parse_uint_def fold_show_nat)

lemma show_nat_digits: "c \<in> set (show_nat n) \<Longrightarrow> \<exists>d < 10. c = digit_char d"
proof (induction n rule: show_nat.induct)
  case (1 n)
  then show ?case
    by (subst (asm) (2) show_nat.simps) (force split: if_splits)
qed

lemma show_nat_inj: "show_nat m = show_nat n \<Longrightarrow> m = n"
  by (metis fold_show_nat option.inject)

section \<open>Base64\<close>

definition b64_char :: "nat \<Rightarrow> char" where
  "b64_char n =
     (if n < 26 then char_of (65 + n)
      else if n < 52 then char_of (97 + (n - 26))
      else if n < 62 then char_of (48 + (n - 52))
      else if n = 62 then CHR ''+'' else CHR ''/'')"

definition b64_val :: "char \<Rightarrow> nat option" where
  "b64_val c =
     (let k = of_char c :: nat in
      if 65 \<le> k \<and> k \<le> 90 then Some (k - 65)
      else if 97 \<le> k \<and> k \<le> 122 then Some (k - 97 + 26)
      else if 48 \<le> k \<and> k \<le> 57 then Some (k - 48 + 52)
      else if c = CHR ''+'' then Some 62
      else if c = CHR ''/'' then Some 63
      else None)"

text \<open>Four characters for the 24 bits of \<open>n\<close>.\<close>

definition b64_digits :: "nat \<Rightarrow> string" where
  "b64_digits n = [b64_char (n div 262144), b64_char (n div 4096 mod 64),
     b64_char (n div 64 mod 64), b64_char (n mod 64)]"

fun b64_encode :: "byte list \<Rightarrow> string" where
  "b64_encode [] = []"
| "b64_encode [a] = take 2 (b64_digits (be_val [a, 0, 0])) @ ''==''"
| "b64_encode [a, b] = take 3 (b64_digits (be_val [a, b, 0])) @ ''=''"
| "b64_encode (a # b # c # bs) =
     b64_digits (be_val [a, b, c]) @ b64_encode bs"

abbreviation b64_bytes :: "nat \<Rightarrow> byte list" where
  "b64_bytes \<equiv> be_bytes 3"

fun b64_quads :: "string \<Rightarrow> byte list option" where
  "b64_quads [] = Some []"
| "b64_quads (a # b # c # d # rest) =
     (if c = CHR ''='' then
        (if d = CHR ''='' \<and> rest = [] then
           Option.bind (b64_val a) (\<lambda>a. Option.bind (b64_val b) (\<lambda>b.
             Some (take 1 (b64_bytes (a * 262144 + b * 4096)))))
         else None)
      else if d = CHR ''='' then
        (if rest = [] then
           Option.bind (b64_val a) (\<lambda>a. Option.bind (b64_val b) (\<lambda>b. Option.bind (b64_val c) (\<lambda>c.
             Some (take 2 (b64_bytes (a * 262144 + b * 4096 + c * 64))))))
         else None)
      else
        Option.bind (b64_val a) (\<lambda>a. Option.bind (b64_val b) (\<lambda>b.
        Option.bind (b64_val c) (\<lambda>c. Option.bind (b64_val d) (\<lambda>d.
        map_option ((@) (b64_bytes (a * 262144 + b * 4096 + c * 64 + d))) (b64_quads rest))))))"
| "b64_quads _ = None"

text \<open>\<^verbatim>\<open>DecodeString\<close> skips line breaks.\<close>

definition b64_decode :: "string \<Rightarrow> byte list option" where
  "b64_decode s = b64_quads (filter (\<lambda>c. of_char c \<noteq> (10::nat) \<and> of_char c \<noteq> (13::nat)) s)"

lemma b64_val_char:
  assumes "n < 64"
  shows "b64_val (b64_char n) = Some n"
proof -
  consider "n < 26" | "26 \<le> n" "n < 52" | "52 \<le> n" "n < 62" | "n = 62" | "n = 63"
    using assms by linarith
  then show ?thesis
    by cases (auto simp: b64_char_def b64_val_def Let_def of_char_char_of)
qed

lemma b64_char_plain:
  assumes "n < 64"
  shows "b64_char n \<noteq> CHR ''=''" and "b64_char n \<noteq> CHR '':''"
    and "of_char (b64_char n) \<noteq> (10::nat)" and "of_char (b64_char n) \<noteq> (13::nat)"
proof -
  have "b64_val (b64_char n) = Some n" using assms by (rule b64_val_char)
  then show "b64_char n \<noteq> CHR ''=''" "b64_char n \<noteq> CHR '':''"
    by (auto simp: b64_val_def)
  from \<open>b64_val (b64_char n) = Some n\<close>
  show "of_char (b64_char n) \<noteq> (10::nat)" "of_char (b64_char n) \<noteq> (13::nat)"
    by (auto simp: b64_val_def Let_def split: if_splits)
qed

lemma b64_split:
  fixes n :: nat
  shows "n div 262144 * 262144 + n div 4096 mod 64 * 4096 + n div 64 mod 64 * 64 + n mod 64 = n"
proof -
  have "n div 262144 = n div 4096 div 64" by (simp add: div_mult2_eq [symmetric])
  moreover have "n div 4096 = n div 64 div 64" by (simp add: div_mult2_eq [symmetric])
  ultimately show ?thesis
    using div_mult_mod_eq [of n 64] div_mult_mod_eq [of "n div 64" 64]
      div_mult_mod_eq [of "n div 4096" 64]
    by linarith
qed

lemma be_val3: "be_val [a, b, c] = unat a * 65536 + unat b * 256 + unat c"
  by simp

lemma be_val3_less: "be_val [a, b, c] < 16777216"
  using be_val_less [of "[a, b, c]"] by simp

lemma b64_bytes_val: "b64_bytes (be_val [a, b, c]) = [a, b, c]"
  using be_bytes_be_val [of "[a, b, c]"] by (simp only: list.size) (simp add: numeral_3_eq_3)

text \<open>The four digits of three bytes.\<close>

lemma b64_digits_vals:
  assumes "n < 16777216"
  shows "b64_val (b64_char (n div 262144)) = Some (n div 262144)"
    and "b64_val (b64_char (n div 4096 mod 64)) = Some (n div 4096 mod 64)"
    and "b64_val (b64_char (n div 64 mod 64)) = Some (n div 64 mod 64)"
    and "b64_val (b64_char (n mod 64)) = Some (n mod 64)"
    and "c \<in> set (b64_digits n) \<Longrightarrow> c \<noteq> CHR ''='' \<and> c \<noteq> CHR '':'' \<and>
      of_char c \<noteq> (10::nat) \<and> of_char c \<noteq> (13::nat)"
proof -
  have t: "n div 262144 < 64" using assms by (simp add: div_less_iff_less_mult)
  show "b64_val (b64_char (n div 262144)) = Some (n div 262144)" using t by (rule b64_val_char)
  show "b64_val (b64_char (n div 4096 mod 64)) = Some (n div 4096 mod 64)"
    "b64_val (b64_char (n div 64 mod 64)) = Some (n div 64 mod 64)"
    "b64_val (b64_char (n mod 64)) = Some (n mod 64)"
    by (simp_all add: b64_val_char)
  show "c \<in> set (b64_digits n) \<Longrightarrow> c \<noteq> CHR ''='' \<and> c \<noteq> CHR '':'' \<and>
      of_char c \<noteq> (10::nat) \<and> of_char c \<noteq> (13::nat)"
    using t b64_char_plain by (auto simp: b64_digits_def)
qed

lemma b64_quads_full:
  assumes "n < 16777216"
  shows "b64_quads (b64_digits n @ rest) = map_option ((@) (b64_bytes n)) (b64_quads rest)"
proof -
  note v = b64_digits_vals [OF assms]
  have "b64_char (n div 64 mod 64) \<noteq> CHR ''=''" "b64_char (n mod 64) \<noteq> CHR ''=''"
    by (simp_all add: b64_char_plain)
  then show ?thesis
    using b64_split [of n] by (simp add: b64_digits_def v(1-4))
qed

lemma b64_quads_two:
  assumes "n < 16777216" and "n mod 64 = 0"
  shows "b64_quads (take 3 (b64_digits n) @ ''='') = Some (take 2 (b64_bytes n))"
proof -
  note v = b64_digits_vals [OF assms(1)]
  have "b64_char (n div 64 mod 64) \<noteq> CHR ''=''" by (simp add: b64_char_plain)
  then show ?thesis
    using b64_split [of n] assms(2) by (simp add: b64_digits_def v(1-3))
qed

lemma b64_quads_one:
  assumes "n < 16777216" and "n mod 64 = 0" and "n div 64 mod 64 = 0"
  shows "b64_quads (take 2 (b64_digits n) @ ''=='') = Some (take 1 (b64_bytes n))"
  using b64_split [of n] assms b64_digits_vals(1,2) [OF assms(1)] by (simp add: b64_digits_def)

lemma b64_quads_encode: "b64_quads (b64_encode bs) = Some bs"
proof (induction bs rule: b64_encode.induct)
  case (2 a)
  have "be_val [a, 0, 0] mod 64 = 0" "be_val [a, 0, 0] div 64 mod 64 = 0"
    unfolding be_val3 by simp_all
  then show ?case
    unfolding b64_encode.simps by (simp only: b64_quads_one [OF be_val3_less] b64_bytes_val) simp
next
  case (3 a b)
  have "be_val [a, b, 0] mod 64 = 0"
    unfolding be_val3 by simp
  then show ?case
    unfolding b64_encode.simps by (simp only: b64_quads_two [OF be_val3_less] b64_bytes_val) simp
next
  case (4 a b c bs)
  then show ?case
    unfolding b64_encode.simps by (simp only: b64_quads_full [OF be_val3_less] b64_bytes_val) simp
qed simp

lemma b64_encode_chars:
  "c \<in> set (b64_encode bs) \<Longrightarrow>
    c \<noteq> CHR '':'' \<and> of_char c \<noteq> (10::nat) \<and> of_char c \<noteq> (13::nat)"
proof (induction bs rule: b64_encode.induct)
  case (2 a)
  then show ?case
    using b64_digits_vals(5) [OF be_val3_less, of c a 0 0] set_take_subset [of 2]
    unfolding b64_encode.simps by (auto simp del: be_val.simps dest: in_set_takeD)
next
  case (3 a b)
  then show ?case
    using b64_digits_vals(5) [OF be_val3_less, of c a b 0]
    unfolding b64_encode.simps by (auto simp del: be_val.simps dest: in_set_takeD)
next
  case (4 a b d bs)
  then show ?case
    using b64_digits_vals(5) [OF be_val3_less, of c a b d]
    unfolding b64_encode.simps by (auto simp del: be_val.simps)
qed simp

lemma b64_round_trip: "b64_decode (b64_encode bs) = Some bs"
proof -
  have "filter (\<lambda>c. of_char c \<noteq> (10::nat) \<and> of_char c \<noteq> (13::nat)) (b64_encode bs) = b64_encode bs"
    using b64_encode_chars by (simp add: filter_id_conv)
  then show ?thesis by (simp add: b64_decode_def b64_quads_encode)
qed

end
