(* ===== verification/Protocol_Converter.thy ===== *)
theory Protocol_Converter
  imports Handler_Registry Text_Codec
begin

text \<open>
  The protocol converter of \<^verbatim>\<open>src/pkg/protocol/converter.go\<close>: the translation between the
  client formats (binary, JSON, text, protobuf over WebSocket, QUIC or internal
  connections) and the internal message, the processor table and the registry of message
  types. The binary and text formats are modelled byte by byte. The text of a JSON document
  and the protobuf wire format are parameters: \<open>wire\<close> holds the calls of the JSON and protobuf
  encoders and decoders that the code makes.
\<close>

section \<open>Types\<close>

type_synonym ConnectionType = string

definition ConnectionTypeWebSocket :: ConnectionType where "ConnectionTypeWebSocket = ''WebSocket''"
definition ConnectionTypeQUIC :: ConnectionType where "ConnectionTypeQUIC = ''QUIC''"
definition ConnectionTypeInternal :: ConnectionType where "ConnectionTypeInternal = ''Internal''"

type_synonym FormatType = int

definition FormatTypeBinary :: FormatType where "FormatTypeBinary = 0"
definition FormatTypeJSON :: FormatType where "FormatTypeJSON = 1"
definition FormatTypeText :: FormatType where "FormatTypeText = 2"
definition FormatTypeProtobuf :: FormatType where "FormatTypeProtobuf = 3"

lemmas conn_defs = ConnectionTypeWebSocket_def ConnectionTypeQUIC_def ConnectionTypeInternal_def
lemmas format_defs = FormatTypeBinary_def FormatTypeJSON_def FormatTypeText_def
  FormatTypeProtobuf_def

datatype conv_error =
    ErrInvalidFormat
  | ErrUnsupportedFormat
  | JsonFailed
  | ProtoFailed
  | DecodeFailed decode_error
  | EncodeFailed encode_error

text \<open>The fields of the JSON message; the payload is raw JSON (QUIC) or a string (WebSocket).\<close>

record 'p json_msg =
  j_ServiceType :: u16
  j_MessageType :: u16
  j_Flags :: byte
  j_Payload :: 'p
  j_SessionID :: string

record wire =
  unmarshal_msg :: "byte list \<Rightarrow> byte list json_msg option"
  unmarshal_string :: "byte list \<Rightarrow> string option"
  marshal_raw :: "byte list json_msg \<Rightarrow> byte list option"
  marshal_str :: "string json_msg \<Rightarrow> byte list option"
  recompact :: "byte list \<Rightarrow> byte list option"
  unmarshal_any :: "byte list \<Rightarrow> (string \<times> byte list) option"
  marshal_any :: "string \<times> byte list \<Rightarrow> byte list option"

definition from_opt :: "'e \<Rightarrow> 'a option \<Rightarrow> ('e, 'a) go" where
  "from_opt e x = (case x of None \<Rightarrow> Fail e | Some a \<Rightarrow> Ret a)"

lemma from_opt_simps [simp]: "from_opt e None = Fail e" "from_opt e (Some a) = Ret a"
  by (simp_all add: from_opt_def)

section \<open>Processors\<close>

definition makeProcessorKey :: "ServiceType \<Rightarrow> MessageType \<Rightarrow> u32" where
  "makeProcessorKey serviceType messageType =
     push_bit 16 (ucast serviceType) OR ucast messageType"

type_synonym 'p processors = "(u32, 'p) fmap"

definition RegisterProcessor :: "ServiceType \<Rightarrow> MessageType \<Rightarrow> 'p \<Rightarrow> 'p processors \<Rightarrow> 'p processors" where
  "RegisterProcessor serviceType messageType processor c =
     fmupd (makeProcessorKey serviceType messageType) processor c"

definition GetProcessor :: "ServiceType \<Rightarrow> MessageType \<Rightarrow> 'p processors \<Rightarrow> 'p option" where
  "GetProcessor serviceType messageType c = fmlookup c (makeProcessorKey serviceType messageType)"

section \<open>Names and hashes\<close>

definition hashString :: "string \<Rightarrow> int" where
  "hashString s = foldl (\<lambda>h c. wrap64 (31 * h + int (of_char c))) 0 s"

text \<open>\<^verbatim>\<open>uint16(hashString(name) % 65535)\<close>; the remainder may be negative and then wraps.\<close>

definition name_type :: "string \<Rightarrow> u16" where
  "name_type name = word_of_int (go_rem (hashString name) 65535)"

definition serviceTypeToName :: "ServiceType \<Rightarrow> string" where
  "serviceTypeToName serviceType =
     (if serviceType = 1 then ''Gateway''
      else if serviceType = 2 then ''Chat''
      else if serviceType = 3 then ''Game''
      else if serviceType = 4 then ''Auth''
      else ''Service'' @ show_nat (unat serviceType))"

definition messageTypeToName :: "MessageType \<Rightarrow> string" where
  "messageTypeToName messageType =
     (if messageType = 1 then ''Request''
      else if messageType = 2 then ''Response''
      else if messageType = 3 then ''Notification''
      else if messageType = 4 then ''Error''
      else ''Message'' @ show_nat (unat messageType))"

section \<open>To the internal format\<close>

text \<open>\<open>now\<close> is the time that \<^verbatim>\<open>NewMessage\<close> reads.\<close>

definition binary_to_internal :: "u64 \<Rightarrow> go_slice \<Rightarrow> (conv_error, Message) go" where
  "binary_to_internal now rawData =
     (if length (visible rawData) < 5 then Fail ErrInvalidFormat
      else
        go_bind (byte_at rawData 0) (\<lambda>msgFlag.
        go_bind (read_with get16 (sub_slice rawData 1 3)) (\<lambda>serviceType.
        go_bind (read_with get16 (sub_slice rawData 3 5)) (\<lambda>messageType.
        go_bind (tail_slice rawData 5) (\<lambda>payload.
        Ret ((NewMessage now serviceType messageType payload)\<lparr>Flags := msgFlag\<rparr>))))))"

definition json_payload :: "wire \<Rightarrow> byte list \<Rightarrow> byte list" where
  "json_payload w raw =
     (if raw = [] then []
      else (case unmarshal_string w raw of Some s \<Rightarrow> bytes_of s | None \<Rightarrow> raw))"

definition json_to_internal :: "wire \<Rightarrow> conv_error \<Rightarrow> u64 \<Rightarrow> byte list \<Rightarrow> (conv_error, Message) go" where
  "json_to_internal w err now rawData =
     go_bind (from_opt err (unmarshal_msg w rawData)) (\<lambda>j.
     Ret ((NewMessage now (j_ServiceType j) (j_MessageType j) (json_payload w (j_Payload j)))
            \<lparr>Flags := j_Flags j, SessionID := j_SessionID j\<rparr>))"

definition proto_to_internal :: "wire \<Rightarrow> conv_error \<Rightarrow> u64 \<Rightarrow> byte list \<Rightarrow> (conv_error, Message) go" where
  "proto_to_internal w err now rawData =
     go_bind (from_opt err (unmarshal_any w rawData)) (\<lambda>(typeURL, value).
     case split_on CHR ''/'' typeURL of
       [_, typeName] \<Rightarrow>
         (case split_on CHR ''.'' typeName of
            [serviceName, messageName] \<Rightarrow>
              Ret (NewMessage now (name_type serviceName) (name_type messageName) value)
          | _ \<Rightarrow> Fail ErrInvalidFormat)
     | _ \<Rightarrow> Fail ErrInvalidFormat)"

definition text_to_internal :: "u64 \<Rightarrow> byte list \<Rightarrow> (conv_error, Message) go" where
  "text_to_internal now rawData =
     (case split_on CHR '':'' (string_of rawData) of
        [st, mt, body] \<Rightarrow>
          go_bind (from_opt ErrInvalidFormat (parse_uint 16 st)) (\<lambda>serviceTypeVal.
          go_bind (from_opt ErrInvalidFormat (parse_uint 16 mt)) (\<lambda>messageTypeVal.
          go_bind (from_opt ErrInvalidFormat (b64_decode body)) (\<lambda>payload.
          Ret (NewMessage now (word_of_nat serviceTypeVal) (word_of_nat messageTypeVal) payload))))
      | _ \<Rightarrow> Fail ErrInvalidFormat)"

definition convertWebSocketToInternal ::
    "wire \<Rightarrow> u64 \<Rightarrow> FormatType \<Rightarrow> go_slice \<Rightarrow> (conv_error, Message) go" where
  "convertWebSocketToInternal w now formatType rawData =
     (if formatType = FormatTypeBinary then binary_to_internal now rawData
      else if formatType = FormatTypeJSON then json_to_internal w JsonFailed now (visible rawData)
      else if formatType = FormatTypeProtobuf
      then proto_to_internal w ProtoFailed now (visible rawData)
      else Fail ErrUnsupportedFormat)"

definition convertQUICToInternal ::
    "wire \<Rightarrow> u64 \<Rightarrow> FormatType \<Rightarrow> go_slice \<Rightarrow> (conv_error, Message) go" where
  "convertQUICToInternal w now formatType rawData =
     (if formatType = FormatTypeBinary then binary_to_internal now rawData
      else if formatType = FormatTypeJSON
      then json_to_internal w ErrInvalidFormat now (visible rawData)
      else if formatType = FormatTypeProtobuf
      then proto_to_internal w ErrInvalidFormat now (visible rawData)
      else if formatType = FormatTypeText then text_to_internal now (visible rawData)
      else Fail ErrUnsupportedFormat)"

definition ToInternal ::
    "wire \<Rightarrow> u64 \<Rightarrow> ConnectionType \<Rightarrow> FormatType \<Rightarrow> go_slice \<Rightarrow> (conv_error, Message) go" where
  "ToInternal w now connType formatType rawData =
     (if connType = ConnectionTypeWebSocket then convertWebSocketToInternal w now formatType rawData
      else if connType = ConnectionTypeQUIC then convertQUICToInternal w now formatType rawData
      else if connType = ConnectionTypeInternal then go_map_err DecodeFailed (Decode rawData)
      else Fail ErrUnsupportedFormat)"

section \<open>From the internal format\<close>

definition internal_to_binary :: "Message \<Rightarrow> (conv_error, byte list) go" where
  "internal_to_binary msg =
     go_bind (poke 0 [Flags msg] (replicate (5 + length (Payload msg)) 0)) (\<lambda>result.
     go_bind (poke 1 (be16 (ServiceTypeOf msg)) result) (\<lambda>result.
     go_bind (poke 3 (be16 (MessageTypeOf msg)) result) (\<lambda>result.
     copy_into 5 (length result) (Payload msg) result)))"

definition convertInternalToWebSocket ::
    "wire \<Rightarrow> FormatType \<Rightarrow> Message \<Rightarrow> (conv_error, byte list) go" where
  "convertInternalToWebSocket w formatType msg =
     (if formatType = FormatTypeBinary then internal_to_binary msg
      else if formatType = FormatTypeJSON then
        let payload = (if Payload msg = [] then []
              else (case unmarshal_string w (Payload msg) of
                      Some s \<Rightarrow> s | None \<Rightarrow> string_of (Payload msg)))
        in from_opt JsonFailed (marshal_str w
             \<lparr>j_ServiceType = ServiceTypeOf msg, j_MessageType = MessageTypeOf msg,
              j_Flags = Flags msg, j_Payload = payload, j_SessionID = SessionID msg\<rparr>)
      else if formatType = FormatTypeProtobuf then
        let typeURL = ''type.googleapis.com/service'' @ show_nat (unat (ServiceTypeOf msg)) @
              ''.message'' @ show_nat (unat (MessageTypeOf msg))
        in from_opt ProtoFailed (marshal_any w (typeURL, Payload msg))
      else Fail ErrUnsupportedFormat)"

text \<open>A payload in braces that parses as JSON is replaced by its compact form.\<close>

definition quic_payload :: "wire \<Rightarrow> byte list \<Rightarrow> byte list" where
  "quic_payload w payload =
     (if payload \<noteq> [] \<and> hd payload = 123 \<and> last payload = 125
      then (case recompact w payload of Some bs \<Rightarrow> bs | None \<Rightarrow> payload)
      else payload)"

definition convertInternalToQUIC ::
    "wire \<Rightarrow> FormatType \<Rightarrow> Message \<Rightarrow> (conv_error, byte list) go" where
  "convertInternalToQUIC w formatType msg =
     (if formatType = FormatTypeBinary then internal_to_binary msg
      else if formatType = FormatTypeJSON then
        from_opt JsonFailed (marshal_raw w
          \<lparr>j_ServiceType = ServiceTypeOf msg, j_MessageType = MessageTypeOf msg,
           j_Flags = Flags msg, j_Payload = quic_payload w (Payload msg),
           j_SessionID = SessionID msg\<rparr>)
      else if formatType = FormatTypeProtobuf then
        let typeName = ''type.googleapis.com/'' @ serviceTypeToName (ServiceTypeOf msg) @ ''.'' @
              messageTypeToName (MessageTypeOf msg)
        in from_opt ProtoFailed (marshal_any w (typeName, Payload msg))
      else if formatType = FormatTypeText then
        Ret (bytes_of (show_nat (unat (ServiceTypeOf msg)) @ '':'' @
               show_nat (unat (MessageTypeOf msg)) @ '':'' @ b64_encode (Payload msg)))
      else Fail ErrUnsupportedFormat)"

definition FromInternal ::
    "wire \<Rightarrow> ConnectionType \<Rightarrow> FormatType \<Rightarrow> Message \<Rightarrow> (conv_error, byte list) go" where
  "FromInternal w connType formatType msg =
     (if connType = ConnectionTypeWebSocket then convertInternalToWebSocket w formatType msg
      else if connType = ConnectionTypeQUIC then convertInternalToQUIC w formatType msg
      else if connType = ConnectionTypeInternal then go_map_err EncodeFailed (Encode msg)
      else Fail ErrUnsupportedFormat)"

section \<open>The registry of message types\<close>

record 'r MessageTypeInfo =
  mt_ServiceType :: ServiceType
  mt_MessageType :: MessageType
  mt_ServiceName :: string
  mt_MessageName :: string
  mt_RequestType :: "'r option"
  mt_ResponseType :: "'r option"
  mt_IsRequest :: bool
  mt_CorrelationKey :: string

record 'r MessageRegistry =
  typeInfoByID :: "(u32, 'r MessageTypeInfo) fmap"
  typeInfoByName :: "(string, 'r MessageTypeInfo) fmap"
  typeInfoByReqType :: "('r, 'r MessageTypeInfo) fmap"

definition NewMessageRegistry :: "'r MessageRegistry" where
  "NewMessageRegistry =
     \<lparr>typeInfoByID = fmempty, typeInfoByName = fmempty, typeInfoByReqType = fmempty\<rparr>"

definition RegisterTypeInfo :: "'r MessageTypeInfo \<Rightarrow> 'r MessageRegistry \<Rightarrow> 'r MessageRegistry" where
  "RegisterTypeInfo info r =
     (let key = makeProcessorKey (mt_ServiceType info) (mt_MessageType info);
          fullName = mt_ServiceName info @ ''.'' @ mt_MessageName info;
          r = r\<lparr>typeInfoByID := fmupd key info (typeInfoByID r),
                typeInfoByName := fmupd fullName info (typeInfoByName r)\<rparr>
      in case mt_RequestType info of
           None \<Rightarrow> r
         | Some t \<Rightarrow> r\<lparr>typeInfoByReqType := fmupd t info (typeInfoByReqType r)\<rparr>)"

definition GetTypeInfoByID ::
    "ServiceType \<Rightarrow> MessageType \<Rightarrow> 'r MessageRegistry \<Rightarrow> 'r MessageTypeInfo option" where
  "GetTypeInfoByID serviceType messageType r =
     fmlookup (typeInfoByID r) (makeProcessorKey serviceType messageType)"

definition GetTypeInfoByName :: "string \<Rightarrow> 'r MessageRegistry \<Rightarrow> 'r MessageTypeInfo option" where
  "GetTypeInfoByName fullName r = fmlookup (typeInfoByName r) fullName"

definition GetTypeInfoByRequestType :: "'r \<Rightarrow> 'r MessageRegistry \<Rightarrow> 'r MessageTypeInfo option" where
  "GetTypeInfoByRequestType reqType r = fmlookup (typeInfoByReqType r) reqType"

section \<open>Keys\<close>

lemma makeProcessorKey_inj:
  assumes "makeProcessorKey s t = makeProcessorKey s' t'"
  shows "s = s' \<and> t = t'"
proof -
  have low: "take_bit 16 (makeProcessorKey s t) = ucast t" for s t
    by (rule bit_word_eqI) (auto simp: makeProcessorKey_def bit_simps dest: bit_imp_le_length)
  have high: "drop_bit 16 (makeProcessorKey s t) = ucast s" for s t
    by (rule bit_word_eqI) (auto simp: makeProcessorKey_def bit_simps dest: bit_imp_le_length)
  have narrow: "ucast (ucast a :: u32) = a" for a :: u16
    by (rule bit_word_eqI) (simp add: bit_simps)
  have "(ucast t :: u32) = ucast t'" using low [of s t] low [of s' t'] assms by simp
  moreover have "(ucast s :: u32) = ucast s'" using high [of s t] high [of s' t'] assms by simp
  ultimately show ?thesis using narrow by metis
qed

lemma key_eq_iff: "makeProcessorKey s t = makeProcessorKey s' t' \<longleftrightarrow> s = s' \<and> t = t'"
  using makeProcessorKey_inj by blast

text \<open>The processor table behaves as a map indexed by the pair of service type and message
  type, although it is stored under one 32-bit key: a registration is found under exactly its
  pair and no other pair is affected. The same holds for the registry of message types by ID.\<close>

theorem processor_table:
  "GetProcessor s' t' (RegisterProcessor s t p c) =
     (if s' = s \<and> t' = t then Some p else GetProcessor s' t' c) \<and>
   GetTypeInfoByID s' t' (RegisterTypeInfo info r) =
     (if s' = mt_ServiceType info \<and> t' = mt_MessageType info then Some info
      else GetTypeInfoByID s' t' r)"
  by (auto simp: GetProcessor_def RegisterProcessor_def GetTypeInfoByID_def RegisterTypeInfo_def
      Let_def key_eq_iff split: option.split)

section \<open>Round trips\<close>

definition binary_wire :: "Message \<Rightarrow> byte list" where
  "binary_wire m = [Flags m] @ be16 (ServiceTypeOf m) @ be16 (MessageTypeOf m) @ Payload m"

lemma internal_to_binary_wire: "internal_to_binary m = Ret (binary_wire m)"
proof -
  let ?n = "length (Payload m)"
  note next_write = poke_next [where 'e = conv_error]
  have "poke 0 [Flags m] (replicate (5 + ?n) 0) =
      (Ret ([Flags m] @ replicate (4 + ?n) 0) :: (conv_error, byte list) go)"
    by (simp add: poke_def numeral_eq_Suc)
  moreover have "poke 1 (be16 (ServiceTypeOf m)) ([Flags m] @ replicate (4 + ?n) 0) =
      (Ret (([Flags m] @ be16 (ServiceTypeOf m)) @ replicate (2 + ?n) 0) ::
        (conv_error, byte list) go)"
    using next_write [of "[Flags m]" 1 "be16 (ServiceTypeOf m)" "4 + ?n"] by simp
  moreover have "poke 3 (be16 (MessageTypeOf m))
        (([Flags m] @ be16 (ServiceTypeOf m)) @ replicate (2 + ?n) 0) =
      (Ret ((([Flags m] @ be16 (ServiceTypeOf m)) @ be16 (MessageTypeOf m)) @ replicate ?n 0) ::
        (conv_error, byte list) go)"
    using next_write [of "[Flags m] @ be16 (ServiceTypeOf m)" 3 "be16 (MessageTypeOf m)" "2 + ?n"]
    by simp
  moreover have "copy_into 5
        (length ((([Flags m] @ be16 (ServiceTypeOf m)) @ be16 (MessageTypeOf m)) @
          replicate ?n (0::byte))) (Payload m)
        ((([Flags m] @ be16 (ServiceTypeOf m)) @ be16 (MessageTypeOf m)) @ replicate ?n 0) =
      (Ret (((([Flags m] @ be16 (ServiceTypeOf m)) @ be16 (MessageTypeOf m)) @ Payload m) @
        replicate 0 0) :: (conv_error, byte list) go)"
    by (rule copy_into_tail) simp_all
  ultimately show ?thesis
    unfolding internal_to_binary_def by (simp only: go_bind.simps) (simp add: binary_wire_def)
qed

lemma binary_to_internal_wire:
  assumes "visible d = binary_wire m"
  shows "binary_to_internal now d =
    Ret ((NewMessage now (ServiceTypeOf m) (MessageTypeOf m) (Payload m))\<lparr>Flags := Flags m\<rparr>)"
proof -
  have "byte_at d 0 = (Ret (Flags m) :: (conv_error, byte) go)"
    using assms by (simp add: byte_at_def binary_wire_def)
  moreover have "read_with get16 (sub_slice d 1 3) = (Ret (ServiceTypeOf m) :: (conv_error, u16) go)"
    by (rule be16.read_with_sub_slice [of d "[Flags m]"]) (simp_all add: assms binary_wire_def)
  moreover have "read_with get16 (sub_slice d 3 5) = (Ret (MessageTypeOf m) :: (conv_error, u16) go)"
    by (rule be16.read_with_sub_slice [of d "[Flags m] @ be16 (ServiceTypeOf m)"])
      (simp_all add: assms binary_wire_def)
  moreover have "tail_slice d 5 = (Ret (Payload m) :: (conv_error, byte list) go)"
    using assms by (simp add: tail_slice_def binary_wire_def)
  ultimately show ?thesis
    using assms by (simp add: binary_to_internal_def binary_wire_def)
qed

text \<open>Over WebSocket and QUIC, a message sent in binary format and parsed again keeps flags,
  service type, message type and payload, for every message; the other fields are those of a
  new message.\<close>

theorem binary_round_trip:
  "go_bind (FromInternal w ConnectionTypeWebSocket FormatTypeBinary m)
     (\<lambda>bs. ToInternal w now ConnectionTypeWebSocket FormatTypeBinary (exact_slice bs)) =
   Ret ((NewMessage now (ServiceTypeOf m) (MessageTypeOf m) (Payload m))\<lparr>Flags := Flags m\<rparr>) \<and>
   go_bind (FromInternal w ConnectionTypeQUIC FormatTypeBinary m)
     (\<lambda>bs. ToInternal w now ConnectionTypeQUIC FormatTypeBinary (exact_slice bs)) =
   Ret ((NewMessage now (ServiceTypeOf m) (MessageTypeOf m) (Payload m))\<lparr>Flags := Flags m\<rparr>)"
  using binary_to_internal_wire [of "exact_slice (binary_wire m)" m now]
  by (simp add: FromInternal_def ToInternal_def convertInternalToWebSocket_def
      convertInternalToQUIC_def convertWebSocketToInternal_def convertQUICToInternal_def conn_defs
      internal_to_binary_wire)

lemma digit_char_plain:
  assumes "d < 10"
  shows "digit_char d \<noteq> CHR '':''" and "digit_char d \<noteq> CHR ''/''" and "digit_char d \<noteq> CHR ''.''"
proof -
  have "digit_val (digit_char d) = Some d" using assms by (rule digit_val_char)
  then show "digit_char d \<noteq> CHR '':''" "digit_char d \<noteq> CHR ''/''" "digit_char d \<noteq> CHR ''.''"
    by (auto simp: digit_val_def)
qed

lemma show_nat_plain:
  "CHR '':'' \<notin> set (show_nat n)" "CHR ''/'' \<notin> set (show_nat n)" "CHR ''.'' \<notin> set (show_nat n)"
  using show_nat_digits [of _ n] digit_char_plain by metis+

lemma u16_bound: "unat (x :: u16) < 2 ^ 16"
  using unsigned_less [where w = x] by simp

text \<open>Over QUIC, a message sent as text (decimal types and base64 payload separated by colons)
  and parsed again keeps service type, message type and payload, for every message, and
  loses its flags.\<close>

theorem text_round_trip:
  "go_bind (FromInternal w ConnectionTypeQUIC FormatTypeText m)
     (\<lambda>bs. ToInternal w now ConnectionTypeQUIC FormatTypeText (exact_slice bs)) =
   Ret (NewMessage now (ServiceTypeOf m) (MessageTypeOf m) (Payload m))"
proof -
  let ?s = "show_nat (unat (ServiceTypeOf m))" and ?t = "show_nat (unat (MessageTypeOf m))"
  let ?b = "b64_encode (Payload m)"
  have "CHR '':'' \<notin> set ?b" using b64_encode_chars by blast
  then have "split_on CHR '':'' (?s @ CHR '':'' # ?t @ CHR '':'' # ?b) = [?s, ?t, ?b]"
    by (simp add: split_on_append split_on_none show_nat_plain)
  then have "text_to_internal now (bytes_of (?s @ '':'' @ ?t @ '':'' @ ?b)) =
      Ret (NewMessage now (ServiceTypeOf m) (MessageTypeOf m) (Payload m))"
    by (simp add: text_to_internal_def parse_show [OF u16_bound] b64_round_trip)
  then show ?thesis
    by (simp add: FromInternal_def ToInternal_def convertInternalToQUIC_def
        convertQUICToInternal_def conn_defs format_defs)
qed

text \<open>The documented round trip of the protobuf encoder on \<^verbatim>\<open>anypb.Any\<close>.\<close>

definition any_codec :: "wire \<Rightarrow> bool" where
  "any_codec w \<longleftrightarrow> (\<forall>x bs. marshal_any w x = Some bs \<longrightarrow> unmarshal_any w bs = Some x)"

lemma split_type_url:
  assumes "CHR ''/'' \<notin> set a" "CHR ''.'' \<notin> set a" "CHR ''/'' \<notin> set b" "CHR ''.'' \<notin> set b"
  shows "split_on CHR ''/'' (''type.googleapis.com/'' @ a @ ''.'' @ b) =
      [''type.googleapis.com'', a @ ''.'' @ b]"
    and "split_on CHR ''.'' (a @ ''.'' @ b) = [a, b]"
  using assms split_on_append [of "CHR ''/''" "''type.googleapis.com''" "a @ ''.'' @ b"]
  by (simp_all add: split_on_none split_on_append)

text \<open>The protobuf format does not preserve the message's types: what comes back over WebSocket
  has the hashes of the printed names as service type and message type, while the payload is
  kept.\<close>

theorem protobuf_types_hashed:
  assumes "any_codec w"
    and "FromInternal w ConnectionTypeWebSocket FormatTypeProtobuf m = Ret bs"
  shows "ToInternal w now ConnectionTypeWebSocket FormatTypeProtobuf (exact_slice bs) =
    Ret (NewMessage now (name_type (''service'' @ show_nat (unat (ServiceTypeOf m))))
           (name_type (''message'' @ show_nat (unat (MessageTypeOf m)))) (Payload m))"
proof -
  let ?a = "''service'' @ show_nat (unat (ServiceTypeOf m))"
  let ?b = "''message'' @ show_nat (unat (MessageTypeOf m))"
  have "marshal_any w (''type.googleapis.com/'' @ ?a @ ''.'' @ ?b, Payload m) = Some bs"
    using assms(2)
    by (simp add: FromInternal_def convertInternalToWebSocket_def conn_defs format_defs
        from_opt_def split: option.splits)
  then have "unmarshal_any w bs = Some (''type.googleapis.com/'' @ ?a @ ''.'' @ ?b, Payload m)"
    using assms(1) by (simp only: any_codec_def)
  moreover have "CHR ''/'' \<notin> set ?a" "CHR ''.'' \<notin> set ?a" "CHR ''/'' \<notin> set ?b" "CHR ''.'' \<notin> set ?b"
    by (simp_all add: show_nat_plain)
  note split_type_url [OF this]
  ultimately show ?thesis
    by (simp only: ToInternal_def convertWebSocketToInternal_def proto_to_internal_def)
      (simp add: conn_defs format_defs)
qed

text \<open>An encoder with the documented round trip: the URL, a zero byte, the value.\<close>

definition sample_any :: wire where
  "sample_any = \<lparr>unmarshal_msg = (\<lambda>_. None), unmarshal_string = (\<lambda>_. None),
     marshal_raw = (\<lambda>_. None), marshal_str = (\<lambda>_. None), recompact = (\<lambda>_. None),
     unmarshal_any = (\<lambda>bs. let n = unat (hd bs) in Some (string_of (take n (tl bs)), drop n (tl bs))),
     marshal_any = (\<lambda>(u, v). if length u < 256
       then Some (word_of_nat (length u) # bytes_of u @ v) else None)\<rparr>"

lemma sample_any_codec: "any_codec sample_any"
  by (auto simp: any_codec_def sample_any_def unat_of_nat split: if_splits)

theorem protobuf_types_hashed_witness:
  "let m = NewMessage 0 2 1 [9] in
   \<exists>bs. FromInternal sample_any ConnectionTypeWebSocket FormatTypeProtobuf m = Ret bs \<and>
     ToInternal sample_any 5 ConnectionTypeWebSocket FormatTypeProtobuf (exact_slice bs) =
       Ret (NewMessage 5 (name_type ''service2'') (name_type ''message1'') [9]) \<and>
     name_type ''service2'' \<noteq> 2"
proof -
  let ?m = "NewMessage 0 2 1 [9]"
  have s: "show_nat 2 = ''2''" "show_nat (Suc 0) = ''1''"
    by code_simp+
  obtain bs where bs: "FromInternal sample_any ConnectionTypeWebSocket FormatTypeProtobuf ?m = Ret bs"
    by (simp add: FromInternal_def convertInternalToWebSocket_def conn_defs format_defs
        NewMessage_def s sample_any_def)
  have "hashString ''service2'' = 3256964419613"
    by (simp add: hashString_def wrap64_def)
  then have "name_type ''service2'' \<noteq> 2"
    by (simp add: name_type_def go_rem_nonneg)
  with protobuf_types_hashed [OF sample_any_codec bs, of 5] bs show ?thesis
    by (auto simp: NewMessage_def s Let_def)
qed

end
