(* ===== verification/Crypto_Channel.thy ===== *)
theory Crypto_Channel
  imports Text_Codec "HOL-Library.Finite_Map"
begin

text \<open>
  Session encryption: the \<^verbatim>\<open>CryptoManager\<close> of
  \<^verbatim>\<open>src/pkg/security/crypto.go\<close> and the framed, encrypted WebSocket connection of
  \<^verbatim>\<open>src/pkg/gateway/secure_connection.go\<close>. AES-GCM, the elliptic curve, SHA-256 and the JSON
  text of the messages are parameters with their documented laws; random bytes, new key pairs and
  the clock are arguments. Frame parsing is modelled with its 32-bit arithmetic.
\<close>

section \<open>Primitives\<close>

record aead =
  seal :: "byte list \<Rightarrow> byte list \<Rightarrow> byte list \<Rightarrow> byte list"
  opn :: "byte list \<Rightarrow> byte list \<Rightarrow> byte list \<Rightarrow> byte list option"

text \<open>GCM opens exactly what it sealed under the same key and nonce.\<close>

definition aead_ok :: "aead \<Rightarrow> bool" where
  "aead_ok a \<longleftrightarrow> (\<forall>k n p. opn a k n (seal a k n p) = Some p)"

record ('k, 'pt) curve =
  pub_bytes :: "'k \<Rightarrow> byte list"
  unmarshal_point :: "byte list \<Rightarrow> 'pt option"
  scalar_mult :: "'pt \<Rightarrow> 'k \<Rightarrow> byte list"
  sha256 :: "byte list \<Rightarrow> byte list"

text \<open>Diffie-Hellman on the marshalled points, and the digest length.\<close>

definition curve_ok :: "('k, 'pt) curve \<Rightarrow> bool" where
  "curve_ok c \<longleftrightarrow>
     (\<forall>k. \<exists>p. unmarshal_point c (pub_bytes c k) = Some p) \<and>
     (\<forall>k l p q. unmarshal_point c (pub_bytes c k) = Some p \<longrightarrow>
        unmarshal_point c (pub_bytes c l) = Some q \<longrightarrow> scalar_mult c p l = scalar_mult c q k) \<and>
     (\<forall>bs. length (sha256 c bs) = 32)"

section \<open>The crypto manager\<close>

datatype crypto_error =
    KeyGenFailed
  | RandomFailed
  | ErrInvalidPublicKey
  | CryptoPayloadTooLarge
  | SessionKeyNotFound string
  | BadKeySize
  | ErrInvalidNonceSize
  | OpenFailed
  | BadTimestampedFormat
  | MessageExpired
  | InvalidTimestamp

definition GcmNonceSize :: nat where "GcmNonceSize = 12"
definition CryptoMaxPayloadSize :: nat where "CryptoMaxPayloadSize = 16 * 1024 * 1024"
definition DefaultKeyRotationInterval :: int where
  "DefaultKeyRotationInterval = 24 * 60 * 60 * 10 ^ 9"

record 'k CryptoManager =
  sessionKeys :: "(string, byte list) fmap"
  privateKey :: 'k
  keyExpiration :: int
  rotationPeriod :: int

record EncryptedMessage =
  em_Nonce :: "byte list"
  em_Ciphertext :: "byte list"
  em_SessionID :: string

text \<open>\<open>gen\<close> is the result of generating a key pair, \<open>now\<close> the clock in nanoseconds.\<close>

definition NewCryptoManager ::
    "int option \<Rightarrow> 'k option \<Rightarrow> int \<Rightarrow> (crypto_error, 'k CryptoManager) go" where
  "NewCryptoManager config gen now =
     (case gen of
        None \<Rightarrow> Fail KeyGenFailed
      | Some k \<Rightarrow>
          let period = (case config of
                Some interval \<Rightarrow> if 0 < interval then wrap64 (interval * 10 ^ 9)
                                 else DefaultKeyRotationInterval
              | None \<Rightarrow> DefaultKeyRotationInterval)
          in Ret \<lparr>sessionKeys = fmempty, privateKey = k, keyExpiration = now + period,
                  rotationPeriod = period\<rparr>)"

definition GenerateSessionKey ::
    "byte list option \<Rightarrow> string \<Rightarrow> 'k CryptoManager \<Rightarrow>
      'k CryptoManager \<times> (crypto_error, byte list) go" where
  "GenerateSessionKey random sessionID cm =
     (case random of
        None \<Rightarrow> (cm, Fail RandomFailed)
      | Some key \<Rightarrow> (cm\<lparr>sessionKeys := fmupd sessionID key (sessionKeys cm)\<rparr>, Ret key))"

definition RotateKeys ::
    "'k option \<Rightarrow> int \<Rightarrow> 'k CryptoManager \<Rightarrow> 'k CryptoManager \<times> (crypto_error, unit) go" where
  "RotateKeys gen now cm =
     (case gen of
        None \<Rightarrow> (cm, Fail KeyGenFailed)
      | Some k \<Rightarrow> (cm\<lparr>privateKey := k, keyExpiration := now + rotationPeriod cm\<rparr>, Ret ()))"

definition DeriveSharedKey ::
    "('k, 'pt) curve \<Rightarrow> 'k option \<Rightarrow> int \<Rightarrow> string \<Rightarrow> byte list \<Rightarrow> 'k CryptoManager \<Rightarrow>
      'k CryptoManager \<times> (crypto_error, byte list) go" where
  "DeriveSharedKey c gen now sessionID peerPublicKeyBytes cm =
     (let (cm, rotated) = (if keyExpiration cm < now then RotateKeys gen now cm else (cm, Ret ()))
      in with_recv cm rotated (\<lambda>_.
         case unmarshal_point c peerPublicKeyBytes of
           None \<Rightarrow> (cm, Fail ErrInvalidPublicKey)
         | Some p \<Rightarrow>
             let key = sha256 c (scalar_mult c p (privateKey cm))
             in (cm\<lparr>sessionKeys := fmupd sessionID key (sessionKeys cm)\<rparr>, Ret key)))"

definition GetPublicKeyBytes :: "('k, 'pt) curve \<Rightarrow> 'k CryptoManager \<Rightarrow> byte list" where
  "GetPublicKeyBytes c cm = pub_bytes c (privateKey cm)"

definition GetSessionKey :: "string \<Rightarrow> 'k CryptoManager \<Rightarrow> byte list option" where
  "GetSessionKey sessionID cm = fmlookup (sessionKeys cm) sessionID"

definition RemoveSessionKey :: "string \<Rightarrow> 'k CryptoManager \<Rightarrow> 'k CryptoManager" where
  "RemoveSessionKey sessionID cm = cm\<lparr>sessionKeys := fmdrop sessionID (sessionKeys cm)\<rparr>"

text \<open>\<^verbatim>\<open>aes.NewCipher\<close> accepts keys of 16, 24 and 32 bytes.\<close>

definition NewCipher :: "byte list \<Rightarrow> (crypto_error, byte list) go" where
  "NewCipher key = (if length key \<in> {16, 24, 32} then Ret key else Fail BadKeySize)"

text \<open>\<open>random\<close> is what reading the nonce from the random source gave.\<close>

definition Encrypt ::
    "aead \<Rightarrow> byte list option \<Rightarrow> byte list \<Rightarrow> string \<Rightarrow> 'k CryptoManager \<Rightarrow>
      (crypto_error, EncryptedMessage) go" where
  "Encrypt a random plaintext sessionID cm =
     (if CryptoMaxPayloadSize < length plaintext then Fail CryptoPayloadTooLarge
      else
        case fmlookup (sessionKeys cm) sessionID of
          None \<Rightarrow> Fail (SessionKeyNotFound sessionID)
        | Some key \<Rightarrow>
            go_bind (NewCipher key) (\<lambda>block.
            case random of
              None \<Rightarrow> Fail RandomFailed
            | Some nonce \<Rightarrow>
                Ret \<lparr>em_Nonce = nonce, em_Ciphertext = seal a block nonce plaintext,
                     em_SessionID = sessionID\<rparr>))"

definition Decrypt :: "aead \<Rightarrow> EncryptedMessage \<Rightarrow> 'k CryptoManager \<Rightarrow> (crypto_error, byte list) go" where
  "Decrypt a em cm =
     (case fmlookup (sessionKeys cm) (em_SessionID em) of
        None \<Rightarrow> Fail (SessionKeyNotFound (em_SessionID em))
      | Some key \<Rightarrow>
          go_bind (NewCipher key) (\<lambda>block.
          if length (em_Nonce em) \<noteq> GcmNonceSize then Fail ErrInvalidNonceSize
          else
            case opn a block (em_Nonce em) (em_Ciphertext em) of
              None \<Rightarrow> Fail OpenFailed
            | Some plaintext \<Rightarrow> Ret plaintext))"

text \<open>\<open>now\<close> is the Unix time in seconds.\<close>

definition EncryptWithTimestamp ::
    "aead \<Rightarrow> byte list option \<Rightarrow> int \<Rightarrow> byte list \<Rightarrow> string \<Rightarrow> int \<Rightarrow> 'k CryptoManager \<Rightarrow>
      (crypto_error, EncryptedMessage) go" where
  "EncryptWithTimestamp a random now plaintext sessionID ttlSeconds cm =
     Encrypt a random (be64 (word_of_int now) @ be32 (word_of_int ttlSeconds) @ plaintext)
       sessionID cm"

definition DecryptWithTimestamp ::
    "aead \<Rightarrow> int \<Rightarrow> EncryptedMessage \<Rightarrow> 'k CryptoManager \<Rightarrow> (crypto_error, byte list) go" where
  "DecryptWithTimestamp a now em cm =
     go_bind (Decrypt a em cm) (\<lambda>plaintext.
     if length plaintext < 12 then Fail BadTimestampedFormat
     else
       let d = exact_slice plaintext in
       go_bind (read_with get64 (sub_slice d 0 8)) (\<lambda>ts.
       go_bind (read_with get32 (sub_slice d 8 12)) (\<lambda>tl.
       let timestamp = sint ts; ttl = int (unat tl) in
       if wrap64 (timestamp + ttl) < now then Fail MessageExpired
       else if now < timestamp \<or> wrap64 (timestamp + ttl) < now then Fail InvalidTimestamp
       else tail_slice d 12)))"

section \<open>The secure connection\<close>

definition MessageTypeHandshake :: byte where "MessageTypeHandshake = 0x01"
definition MessageTypeData :: byte where "MessageTypeData = 0x02"
definition MessageTypePing :: byte where "MessageTypePing = 0x03"
definition MessageTypePong :: byte where "MessageTypePong = 0x04"
definition MessageTypeClose :: byte where "MessageTypeClose = 0x05"
definition MessageTypeHandshakeRequest :: byte where "MessageTypeHandshakeRequest = 0x01"
definition MessageTypeHandshakeResponse :: byte where "MessageTypeHandshakeResponse = 0x02"

lemmas frame_types = MessageTypeHandshake_def MessageTypeData_def MessageTypePing_def
  MessageTypePong_def MessageTypeClose_def MessageTypeHandshakeRequest_def
  MessageTypeHandshakeResponse_def

record HandshakeMessage =
  hs_Type :: int
  hs_PublicKey :: string
  hs_SessionID :: string
  hs_Timestamp :: int
  hs_TTL :: int
  hs_Nonce :: string

record json_codec =
  put_em :: "EncryptedMessage \<Rightarrow> byte list option"
  get_em :: "byte list \<Rightarrow> EncryptedMessage option"
  put_hs :: "HandshakeMessage \<Rightarrow> byte list option"
  get_hs :: "byte list \<Rightarrow> HandshakeMessage option"

definition json_ok :: "json_codec \<Rightarrow> bool" where
  "json_ok j \<longleftrightarrow> (\<forall>em bs. put_em j em = Some bs \<longrightarrow> get_em j bs = Some em)"

datatype conn_error =
    ReadFailed
  | WriteFailed
  | HandshakeFormat
  | UnexpectedHandshakeType
  | HandshakeTooShort
  | HandshakeUnmarshal
  | SessionMismatch string string
  | DeriveFailed crypto_error
  | MarshalError
  | NotEncrypted
  | EncryptError crypto_error
  | FrameTooShort
  | ContentTooShort
  | EmUnmarshal
  | DecryptError crypto_error
  | EOF
  | UnknownMessageType byte

text \<open>
  The WebSocket: the results of the coming reads, what was written, and the results of the
  coming writes (\<open>True\<close> is a failure; an exhausted list means success).
\<close>

record websocket =
  reads :: "go_slice option list"
  written :: "byte list list"
  write_fails :: "bool list"

definition WriteMessage :: "byte list \<Rightarrow> websocket \<Rightarrow> websocket \<times> (conn_error, unit) go" where
  "WriteMessage bs w =
     (let w' = w\<lparr>write_fails := tl (write_fails w)\<rparr>
      in if write_fails w \<noteq> [] \<and> hd (write_fails w) then (w', Fail WriteFailed)
         else (w'\<lparr>written := written w @ [bs]\<rparr>, Ret ()))"

definition ReadMessage :: "websocket \<Rightarrow> websocket \<times> (conn_error, go_slice) go" where
  "ReadMessage w =
     (case reads w of
        Some m # rs \<Rightarrow> (w\<lparr>reads := rs\<rparr>, Ret m)
      | None # rs \<Rightarrow> (w\<lparr>reads := rs\<rparr>, Fail ReadFailed)
      | [] \<Rightarrow> (w, Fail ReadFailed))"

record 'k SecureConnection =
  conn :: websocket
  sessionID :: string
  cryptoManager :: "'k CryptoManager"
  isEncrypted :: bool
  handshakeDone :: bool

text \<open>
  The body of a frame with a header of \<open>h\<close> bytes and the length field \<open>n\<close>: the
  comparison and the slice bound are computed in \<^verbatim>\<open>uint32\<close>, so both wrap.
\<close>

definition frame_fits :: "u32 \<Rightarrow> u32 \<Rightarrow> go_slice \<Rightarrow> bool" where
  "frame_fits h n message \<longleftrightarrow> unat (h + n) \<le> length (visible message)"

definition frame_slice :: "u32 \<Rightarrow> u32 \<Rightarrow> go_slice \<Rightarrow> (conn_error, byte list) go" where
  "frame_slice h n message = sub_slice message (unat h) (unat (h + n))"

text \<open>A frame under construction: the header bytes, the length in \<^verbatim>\<open>uint32\<close>, the body.\<close>

definition build_frame :: "byte list \<Rightarrow> byte list \<Rightarrow> (conn_error, byte list) go" where
  "build_frame hdr body =
     (let len = word_of_nat (length body) :: u32;
          h = length hdr + 4
      in
      go_bind (poke 0 hdr (replicate (unat (word_of_nat h + len)) 0)) (\<lambda>message.
      go_bind (poke (length hdr) (be32 len) message) (\<lambda>message.
      copy_into h (length message) body message)))"

definition generateNonce :: "byte list option \<Rightarrow> u64 \<Rightarrow> string" where
  "generateNonce random nanos =
     b64_encode (case random of Some bs \<Rightarrow> bs | None \<Rightarrow> be64 nanos @ replicate 4 0)"

text \<open>
  What a handshake reads from outside: the generated key pair, the clock (nanoseconds and
  seconds), the random nonce.
\<close>

record 'k hs_env =
  env_gen :: "'k option"
  env_now :: int
  env_unix :: int
  env_random :: "byte list option"

definition Handshake ::
    "('k, 'pt) curve \<Rightarrow> json_codec \<Rightarrow> 'k hs_env \<Rightarrow> 'k SecureConnection \<Rightarrow>
      'k SecureConnection \<times> (conn_error, unit) go" where
  "Handshake c j env sc =
     (if handshakeDone sc then (sc, Ret ())
      else
        let (w, rd) = ReadMessage (conn sc); sc = sc\<lparr>conn := w\<rparr> in
        with_recv sc rd (\<lambda>message.
        if length (visible message) < 6 then (sc, Fail HandshakeFormat)
        else
          with_recv sc (byte_at message 0) (\<lambda>msgType.
          with_recv sc (byte_at message 1) (\<lambda>handshakeType.
          with_recv sc (read_with get32 (sub_slice message 2 6)) (\<lambda>handshakeMsgLen.
          if msgType \<noteq> MessageTypeHandshake \<or> handshakeType \<noteq> MessageTypeHandshakeRequest
          then (sc, Fail UnexpectedHandshakeType)
          else if \<not> frame_fits 6 handshakeMsgLen message then (sc, Fail HandshakeTooShort)
          else
            with_recv sc (frame_slice 6 handshakeMsgLen message) (\<lambda>body.
            case get_hs j body of
              None \<Rightarrow> (sc, Fail HandshakeUnmarshal)
            | Some hs \<Rightarrow>
                if hs_SessionID hs \<noteq> sessionID sc
                then (sc, Fail (SessionMismatch (sessionID sc) (hs_SessionID hs)))
                else
                  let (cm, derived) = DeriveSharedKey c (env_gen env) (env_now env) (sessionID sc)
                        (bytes_of (hs_PublicKey hs)) (cryptoManager sc);
                      sc = sc\<lparr>cryptoManager := cm\<rparr>
                  in
                  with_recv sc (go_map_err DeriveFailed derived) (\<lambda>_.
                  case put_hs j
                    \<lparr>hs_Type = int (unat MessageTypeHandshakeResponse),
                     hs_PublicKey = b64_encode (GetPublicKeyBytes c cm),
                     hs_SessionID = sessionID sc, hs_Timestamp = env_unix env, hs_TTL = 60,
                     hs_Nonce = generateNonce (env_random env) (word_of_int (env_now env))\<rparr> of
                    None \<Rightarrow> (sc, Fail MarshalError)
                  | Some hsResponseBytes \<Rightarrow>
                      with_recv sc (build_frame
                          [MessageTypeHandshake, MessageTypeHandshakeResponse] hsResponseBytes)
                        (\<lambda>response.
                      let (w, wr) = WriteMessage response (conn sc); sc = sc\<lparr>conn := w\<rparr> in
                      with_recv sc wr (\<lambda>_.
                      (sc\<lparr>isEncrypted := True, handshakeDone := True\<rparr>, Ret ()))))))))))"

definition Send ::
    "aead \<Rightarrow> json_codec \<Rightarrow> byte list option \<Rightarrow> int \<Rightarrow> byte list \<Rightarrow> 'k SecureConnection \<Rightarrow>
      'k SecureConnection \<times> (conn_error, unit) go" where
  "Send a j random now data sc =
     (if \<not> isEncrypted sc then (sc, Fail NotEncrypted)
      else
        with_recv sc (go_map_err EncryptError
            (EncryptWithTimestamp a random now data (sessionID sc) 60 (cryptoManager sc))) (\<lambda>em.
        case put_em j em of
          None \<Rightarrow> (sc, Fail MarshalError)
        | Some emBytes \<Rightarrow>
            with_recv sc (build_frame [MessageTypeData] emBytes) (\<lambda>message.
            let (w, wr) = WriteMessage message (conn sc)
            in (sc\<lparr>conn := w\<rparr>, wr))))"

definition pong_frame :: "byte list" where
  "pong_frame = MessageTypePong # be32 0"

definition close_frame :: "byte list" where
  "close_frame = MessageTypeClose # be32 0"

text \<open>
  One received frame: a result for the caller, or \<open>None\<close> for a ping, after which the code
  writes a pong and calls itself.
\<close>

definition handle_frame ::
    "aead \<Rightarrow> json_codec \<Rightarrow> int \<Rightarrow> go_slice \<Rightarrow> 'k CryptoManager \<Rightarrow> (conn_error, byte list option) go" where
  "handle_frame a j now message cm =
     (if length (visible message) < 5 then Fail FrameTooShort
      else
        go_bind (byte_at message 0) (\<lambda>msgType.
        go_bind (read_with get32 (sub_slice message 1 5)) (\<lambda>msgLen.
        if \<not> frame_fits 5 msgLen message then Fail ContentTooShort
        else if msgType = MessageTypeData then
          go_bind (frame_slice 5 msgLen message) (\<lambda>body.
          case get_em j body of
            None \<Rightarrow> Fail EmUnmarshal
          | Some em \<Rightarrow>
              go_bind (go_map_err DecryptError (DecryptWithTimestamp a now em cm)) (\<lambda>data.
              Ret (Some data)))
        else if msgType = MessageTypePing then Ret None
        else if msgType = MessageTypeClose then Fail EOF
        else Fail (UnknownMessageType msgType))))"

text \<open>\<open>Receive\<close> and its recursive call after a ping, over the coming reads.\<close>

fun receive_loop ::
    "aead \<Rightarrow> json_codec \<Rightarrow> int \<Rightarrow> 'k CryptoManager \<Rightarrow> go_slice option list \<Rightarrow> websocket \<Rightarrow>
      websocket \<times> (conn_error, byte list) go" where
  "receive_loop a j now cm [] w = (w\<lparr>reads := []\<rparr>, Fail ReadFailed)"
| "receive_loop a j now cm (None # rs) w = (w\<lparr>reads := rs\<rparr>, Fail ReadFailed)"
| "receive_loop a j now cm (Some message # rs) w =
     with_recv (w\<lparr>reads := rs\<rparr>) (handle_frame a j now message cm) (\<lambda>r.
     case r of
       Some data \<Rightarrow> (w\<lparr>reads := rs\<rparr>, Ret data)
     | None \<Rightarrow>
         let (w, wr) = WriteMessage pong_frame (w\<lparr>reads := rs\<rparr>)
         in with_recv w wr (\<lambda>_. receive_loop a j now cm rs w))"

definition Receive ::
    "aead \<Rightarrow> json_codec \<Rightarrow> int \<Rightarrow> 'k SecureConnection \<Rightarrow>
      'k SecureConnection \<times> (conn_error, byte list) go" where
  "Receive a j now sc =
     (if \<not> isEncrypted sc then (sc, Fail NotEncrypted)
      else
        let (w, res) = receive_loop a j now (cryptoManager sc) (reads (conn sc)) (conn sc)
        in (sc\<lparr>conn := w\<rparr>, res))"

text \<open>The errors of writing the close frame are ignored.\<close>

definition Close :: "'k SecureConnection \<Rightarrow> 'k SecureConnection" where
  "Close sc =
     (let sc = (if isEncrypted sc then sc\<lparr>conn := fst (WriteMessage close_frame (conn sc))\<rparr> else sc)
      in sc\<lparr>cryptoManager := RemoveSessionKey (sessionID sc) (cryptoManager sc)\<rparr>)"

section \<open>Encryption\<close>

lemma Decrypt_Encrypt:
  assumes "aead_ok a" and "Encrypt a (Some nonce) p sid cm = Ret em"
    and "fmlookup (sessionKeys cm') sid = fmlookup (sessionKeys cm) sid"
    and "length nonce = GcmNonceSize"
  shows "Decrypt a em cm' = Ret p"
proof -
  from assms(2) obtain key where k: "fmlookup (sessionKeys cm) sid = Some key"
    and n: "NewCipher key = Ret key"
    and em: "em = \<lparr>em_Nonce = nonce, em_Ciphertext = seal a key nonce p, em_SessionID = sid\<rparr>"
    by (auto simp: Encrypt_def NewCipher_def split: if_splits option.splits)
  show ?thesis
    using assms(1,3,4) k n em by (simp add: Decrypt_def aead_ok_def)
qed

lemma sint_word_of_int:
  assumes "0 \<le> t" and "t < 2 ^ 63"
  shows "sint (word_of_int t :: u64) = t"
  using assms by (simp add: signed_of_int signed_take_bit_int_eq_self)

lemma timestamp_header:
  fixes ts :: u64 and tl :: u32
  assumes "pt = be64 ts @ be32 tl @ p"
  shows "(read_with get64 (sub_slice (exact_slice pt) 0 8) :: (crypto_error, u64) go) = Ret ts"
    and "(read_with get32 (sub_slice (exact_slice pt) 8 12) :: (crypto_error, u32) go) = Ret tl"
    and "(tail_slice (exact_slice pt) 12 :: (crypto_error, byte list) go) = Ret p"
    and "\<not> length pt < 12"
proof -
  show "(read_with get64 (sub_slice (exact_slice pt) 0 8) :: (crypto_error, u64) go) = Ret ts"
    by (rule be64.read_with_sub_slice [of _ "[]"]) (simp_all add: assms)
  show "(read_with get32 (sub_slice (exact_slice pt) 8 12) :: (crypto_error, u32) go) = Ret tl"
    by (rule be32.read_with_sub_slice [of _ "be64 ts"]) (simp_all add: assms)
  show "(tail_slice (exact_slice pt) 12 :: (crypto_error, byte list) go) = Ret p"
    by (simp add: tail_slice_def assms)
  show "\<not> length pt < 12" by (simp add: assms)
qed

lemma timestamp_window:
  assumes "aead_ok a" and "EncryptWithTimestamp a (Some nonce) t p sid ttl cm = Ret em"
    and "fmlookup (sessionKeys cm') sid = fmlookup (sessionKeys cm) sid"
    and "length nonce = GcmNonceSize" and "0 \<le> t" and "t < 2 ^ 62" and "0 \<le> ttl" and "ttl < 2 ^ 32"
  shows "DecryptWithTimestamp a now em cm' =
    (if t + ttl < now then Fail MessageExpired
     else if now < t then Fail InvalidTimestamp else Ret p)"
proof -
  let ?pt = "be64 (word_of_int t) @ be32 (word_of_int ttl) @ p"
  have d: "Decrypt a em cm' = Ret ?pt"
    using Decrypt_Encrypt [OF assms(1) _ assms(3,4)] assms(2)
    by (simp add: EncryptWithTimestamp_def)
  have ts: "sint (word_of_int t :: u64) = t" using assms(5,6) by (intro sint_word_of_int) simp_all
  have tl: "uint (word_of_int ttl :: u32) = ttl"
    using assms(7,8) by (simp add: take_bit_int_eq_self unsigned_of_int)
  have w: "wrap64 (t + ttl) = t + ttl"
    using assms(5-8) by (intro wrap64_id) (simp_all add: min_int64_def max_int64_def)
  note h = timestamp_header [where pt = ?pt, OF refl]
  show ?thesis
    using h(4) unfolding DecryptWithTimestamp_def d
    by (simp add: Let_def h(1-3) ts tl w del: length_append)
qed

text \<open>C10: the timestamp window: a message encrypted at time \<open>t\<close> with a time to live and decrypted at
  time \<open>now\<close> under the same session key gives back the plaintext exactly when
  \<open>now\<close> lies between \<open>t\<close> and \<open>t\<close> plus the time to live; later it is expired, earlier it is
  rejected as a message from the future.\<close>

theorem DecryptWithTimestamp_window:
  assumes "aead_ok a" and "EncryptWithTimestamp a (Some nonce) t p sid ttl cm = Ret em"
    and "fmlookup (sessionKeys cm') sid = fmlookup (sessionKeys cm) sid"
    and "length nonce = GcmNonceSize" and "0 \<le> t" and "t < 2 ^ 62" and "0 \<le> ttl" and "ttl < 2 ^ 32"
  shows "DecryptWithTimestamp a now em cm' =
    (if t + ttl < now then Fail MessageExpired
     else if now < t then Fail InvalidTimestamp else Ret p)"
  using assms by (rule timestamp_window)

text \<open>A toy cipher with the required law, for the concrete instances.\<close>

definition xor_aead :: aead where
  "xor_aead = \<lparr>seal = (\<lambda>k n p. map (\<lambda>b. b XOR hd k) p), opn = (\<lambda>k n c. Some (map (\<lambda>b. b XOR hd k) c))\<rparr>"

lemma xor_aead_ok: "aead_ok xor_aead"
proof -
  have "(b XOR x) XOR x = b" for x b :: byte
    by (simp add: xor.assoc)
  then show ?thesis by (simp add: aead_ok_def xor_aead_def comp_def)
qed

definition sample_cm :: "nat CryptoManager" where
  "sample_cm = \<lparr>sessionKeys = fmupd ''s'' (replicate 32 7) fmempty, privateKey = 1,
     keyExpiration = 100, rotationPeriod = 100\<rparr>"

theorem DecryptWithTimestamp_window_witness:
  "\<exists>em. EncryptWithTimestamp xor_aead (Some (replicate 12 0)) 1000 [1, 2] ''s'' 60 sample_cm = Ret em \<and>
     DecryptWithTimestamp xor_aead 1060 em sample_cm = Ret [1, 2] \<and>
     DecryptWithTimestamp xor_aead 1061 em sample_cm = Fail MessageExpired"
proof -
  obtain em where em:
    "EncryptWithTimestamp xor_aead (Some (replicate 12 0)) 1000 [1, 2] ''s'' 60 sample_cm = Ret em"
    by (simp add: EncryptWithTimestamp_def Encrypt_def sample_cm_def NewCipher_def
        CryptoMaxPayloadSize_def)
  from DecryptWithTimestamp_window [OF xor_aead_ok em refl, of 1060]
    DecryptWithTimestamp_window [OF xor_aead_ok em refl, of 1061] em
  show ?thesis by (simp add: GcmNonceSize_def)
qed

section \<open>Key agreement\<close>

lemma DeriveSharedKey_fresh:
  assumes "now \<le> keyExpiration cm" and "unmarshal_point c peer = Some p"
  shows "DeriveSharedKey c gen now sid peer cm =
    (cm\<lparr>sessionKeys := fmupd sid (sha256 c (scalar_mult c p (privateKey cm))) (sessionKeys cm)\<rparr>,
     Ret (sha256 c (scalar_mult c p (privateKey cm))))"
  using assms by (simp add: DeriveSharedKey_def Let_def)

text \<open>Key agreement: when each of two managers whose key pairs have not expired derives the
  session key from the other's public key, both store the same key, and it is a valid AES key.\<close>

theorem shared_key_agreement:
  assumes "curve_ok c" and "now \<le> keyExpiration A" and "now' \<le> keyExpiration B"
    and "DeriveSharedKey c gen now sid (GetPublicKeyBytes c B) A = (A', ra)"
    and "DeriveSharedKey c gen' now' sid (GetPublicKeyBytes c A) B = (B', rb)"
  shows "\<exists>key. GetSessionKey sid A' = Some key \<and> GetSessionKey sid B' = Some key \<and>
    ra = Ret key \<and> rb = Ret key \<and> NewCipher key = Ret key"
proof -
  obtain p q where p: "unmarshal_point c (pub_bytes c (privateKey B)) = Some p"
    and q: "unmarshal_point c (pub_bytes c (privateKey A)) = Some q"
    using assms(1) by (meson curve_ok_def)
  then have "scalar_mult c p (privateKey A) = scalar_mult c q (privateKey B)"
    using assms(1) unfolding curve_ok_def by blast
  moreover have "length (sha256 c bs) = 32" for bs using assms(1) by (simp add: curve_ok_def)
  ultimately show ?thesis
    using DeriveSharedKey_fresh [OF assms(2), of c "GetPublicKeyBytes c B" p gen sid]
      DeriveSharedKey_fresh [OF assms(3), of c "GetPublicKeyBytes c A" q gen' sid]
      p q assms(4,5)
    by (intro exI [of _ "sha256 c (scalar_mult c q (privateKey B))"])
      (auto simp: GetPublicKeyBytes_def GetSessionKey_def NewCipher_def)
qed

text \<open>A toy group: powers of two under multiplication of exponents.\<close>

definition toy_curve :: "(nat, nat) curve" where
  "toy_curve = \<lparr>pub_bytes = (\<lambda>k. [word_of_nat k]), unmarshal_point = (\<lambda>bs. Some (unat (hd bs) mod 2)),
     scalar_mult = (\<lambda>p k. [word_of_nat (p * (k mod 2))]),
     sha256 = (\<lambda>bs. replicate 32 (if bs = [] then 0 else hd bs))\<rparr>"

lemma toy_curve_ok: "curve_ok toy_curve"
proof -
  have "unat (word_of_nat k :: byte) mod 2 = k mod 2" for k
    by (simp add: unat_of_nat mod_mod_cancel)
  then show ?thesis by (auto simp: curve_ok_def toy_curve_def mult.commute)
qed

theorem shared_key_agreement_witness:
  "\<exists>key A' B'. DeriveSharedKey toy_curve None 5 ''s''
       (GetPublicKeyBytes toy_curve (sample_cm\<lparr>privateKey := 3\<rparr>)) sample_cm = (A', Ret key) \<and>
     DeriveSharedKey toy_curve None 6 ''s'' (GetPublicKeyBytes toy_curve sample_cm)
       (sample_cm\<lparr>privateKey := 3\<rparr>) = (B', Ret key) \<and>
     GetSessionKey ''s'' A' = GetSessionKey ''s'' B'"
proof -
  let ?B = "sample_cm\<lparr>privateKey := 3\<rparr>"
  obtain A' ra where a: "DeriveSharedKey toy_curve None 5 ''s'' (GetPublicKeyBytes toy_curve ?B)
      sample_cm = (A', ra)" by fastforce
  obtain B' rb where b: "DeriveSharedKey toy_curve None 6 ''s''
      (GetPublicKeyBytes toy_curve sample_cm) ?B = (B', rb)" by fastforce
  have "5 \<le> keyExpiration sample_cm" "6 \<le> keyExpiration ?B" by (simp_all add: sample_cm_def)
  from shared_key_agreement [OF toy_curve_ok this a b] a b show ?thesis by fastforce
qed

section \<open>Frames\<close>

lemma build_frame_ok:
  assumes "length hdr + 4 + length body < 2 ^ 32"
  shows "build_frame hdr body = Ret (hdr @ be32 (word_of_nat (length body)) @ body)"
proof -
  let ?len = "be32 (word_of_nat (length body))"
  have size: "unat (word_of_nat (length hdr + 4) + word_of_nat (length body) :: u32) =
      length hdr + (4 + length body)"
    using assms by (simp only: of_nat_add [symmetric]) (simp add: unat_of_nat del: of_nat_add)
  have "poke 0 hdr (replicate (length hdr + (4 + length body)) 0) =
      (Ret (hdr @ replicate (4 + length body) 0) :: (conn_error, byte list) go)"
    by (simp add: poke_def)
  moreover have "poke (length hdr) ?len (hdr @ replicate (4 + length body) 0) =
      (Ret ((hdr @ ?len) @ replicate (length body) 0) :: (conn_error, byte list) go)"
    using poke_next [where 'e = conn_error, of hdr "length hdr" ?len "4 + length body"] by simp
  moreover have "copy_into (length hdr + 4)
        (length ((hdr @ ?len) @ replicate (length body) (0::byte))) body
        ((hdr @ ?len) @ replicate (length body) 0) =
      (Ret (((hdr @ ?len) @ body) @ replicate 0 0) :: (conn_error, byte list) go)"
    by (rule copy_into_tail) simp_all
  ultimately show ?thesis
    unfolding build_frame_def Let_def size by (simp only: go_bind.simps) simp
qed

text \<open>The 32-bit bound of a frame body: it wraps exactly for the largest lengths.\<close>

lemma frame_bound:
  fixes h n :: u32
  shows "unat (h + n) = (if unat h + unat n < 2 ^ 32 then unat h + unat n
    else unat h + unat n - 2 ^ 32)"
proof -
  have "unat h < 2 ^ 32" "unat n < 2 ^ 32"
    using unsigned_less [where w = h] unsigned_less [where w = n] by simp_all
  then show ?thesis
    by (auto simp: unat_word_ariths mod_if le_mod_geq)
qed

lemma frame_slice_Panic_iff:
  assumes "frame_fits h n m" and "unat h \<le> length (visible m)"
  shows "frame_slice h n m = Panic \<longleftrightarrow> 2 ^ 32 \<le> unat h + unat n"
proof -
  have "unat h < 2 ^ 32" "unat n < 2 ^ 32"
    using unsigned_less [where w = h] unsigned_less [where w = n] by simp_all
  then show ?thesis
    using assms frame_bound [of h n]
    by (auto simp: frame_slice_def frame_fits_def sub_slice_def slice_cap_def split: if_splits)
qed

lemma frame_slice_not_Fail [simp]: "frame_slice h n m \<noteq> Fail e"
  by (simp add: frame_slice_def sub_slice_def)

lemma Decrypt_not_Panic: "Decrypt a em cm \<noteq> Panic"
  by (auto simp: Decrypt_def NewCipher_def go_bind_Panic_iff split: option.splits if_splits)

lemma DecryptWithTimestamp_not_Panic: "DecryptWithTimestamp a now em cm \<noteq> Panic"
proof -
  have "(read_with get64 (sub_slice (exact_slice p) 0 8) :: (crypto_error, u64) go) \<noteq> Panic"
    "(read_with get32 (sub_slice (exact_slice p) 8 12) :: (crypto_error, u32) go) \<noteq> Panic"
    if "12 \<le> length p" for p
    using that by (simp_all add: be64.read_sub_Panic_iff be32.read_sub_Panic_iff)
  then show ?thesis
    by (auto simp: DecryptWithTimestamp_def go_bind_Panic_iff Decrypt_not_Panic Let_def
        tail_slice_def split: if_splits)
qed

text \<open>C38: a received frame makes the connection panic exactly when it is a data frame of at least
  five bytes whose length field is one of the five largest 32-bit numbers, for
  which the bound computed in \<open>uint32\<close> wraps below the header; every other frame, however
  malformed, gives data, a ping or an error.\<close>

theorem handle_frame_Panic_iff:
  "handle_frame a j now message cm = Panic \<longleftrightarrow>
     5 \<le> length (visible message) \<and> visible message ! 0 = MessageTypeData \<and>
     2 ^ 32 - 5 \<le> be_val (take 4 (drop 1 (visible message)))"
proof (cases "5 \<le> length (visible message)")
  case True
  let ?n = "be_val (take 4 (drop 1 (visible message)))"
  have b: "byte_at message 0 = (Ret (visible message ! 0) :: (conn_error, byte) go)"
    using True by (auto simp: byte_at_def)
  have bound: "?n < 2 ^ 32" using be_val_less [of "take 4 (drop 1 (visible message))"] True by simp
  have r: "read_with get32 (sub_slice message 1 5) = (Ret (word_of_nat ?n) :: (conn_error, u32) go)"
    using True by (simp add: read_with_def sub_slice_visible get32_def get_be_def)
  have n: "unat (word_of_nat ?n :: u32) = ?n" using bound by (simp add: unat_of_nat)
  show ?thesis
  proof (cases "frame_fits 5 (word_of_nat ?n) message")
    case fits: True
    have "frame_slice 5 (word_of_nat ?n) message = Panic \<longleftrightarrow> 2 ^ 32 - 5 \<le> ?n"
      using frame_slice_Panic_iff [OF fits] True n by auto
    with True b r fits show ?thesis
      by (auto simp: handle_frame_def go_bind_Panic_iff frame_types DecryptWithTimestamp_not_Panic
          split: option.splits)
  next
    case False
    then have "\<not> 2 ^ 32 - 5 \<le> ?n"
      using True frame_bound [of 5 "word_of_nat ?n"] n bound
      by (auto simp: frame_fits_def split: if_splits)
    with True b r False show ?thesis by (simp add: handle_frame_def)
  qed
qed (simp add: handle_frame_def)

section \<open>The channel\<close>

lemma handle_data_frame:
  assumes "visible m = MessageTypeData # be32 (word_of_nat (length body)) @ body"
    and "5 + length body < 2 ^ 32" and "get_em j body = Some em"
  shows "handle_frame a j now m cm =
    go_map_err DecryptError (go_bind (DecryptWithTimestamp a now em cm) (\<lambda>data. Ret (Some data)))"
proof -
  let ?n = "word_of_nat (length body) :: u32"
  have n: "unat ?n = length body" using assms(2) by (simp add: unat_of_nat)
  have b5: "unat (5 + ?n) = 5 + length body"
    using assms(2) n frame_bound [of 5 ?n] by simp
  have "byte_at m 0 = (Ret MessageTypeData :: (conn_error, byte) go)"
    using assms(1) by (simp add: byte_at_def)
  moreover have "read_with get32 (sub_slice m 1 5) = (Ret ?n :: (conn_error, u32) go)"
    by (rule be32.read_with_sub_slice [of m "[MessageTypeData]"]) (simp_all add: assms(1))
  moreover have "frame_fits 5 ?n m" using b5 assms(1) by (simp add: frame_fits_def)
  moreover have "frame_slice 5 ?n m = Ret body"
    using b5 assms(1) by (simp add: frame_slice_def sub_slice_visible)
  ultimately show ?thesis
    using assms(1,3)
    by (cases "DecryptWithTimestamp a now em cm") (simp_all add: handle_frame_def)
qed

lemma Send_frame:
  assumes "isEncrypted sc" and "hd (write_fails (conn sc) @ [False]) = False"
    and "EncryptWithTimestamp a random t data (sessionID sc) 60 (cryptoManager sc) = Ret em"
    and "put_em j em = Some body" and "5 + length body < 2 ^ 32"
  shows "Send a j random t data sc =
    (sc\<lparr>conn := (conn sc)\<lparr>write_fails := tl (write_fails (conn sc)), written := written (conn sc) @
        [MessageTypeData # be32 (word_of_nat (length body)) @ body]\<rparr>\<rparr>, Ret ())"
  using assms build_frame_ok [of "[MessageTypeData]" body]
  by (cases "write_fails (conn sc)") (simp_all add: Send_def WriteMessage_def Let_def)


text \<open>A toy encoding of encrypted messages for the concrete instances.\<close>

definition toy_json :: json_codec where
  "toy_json = \<lparr>
     put_em = (\<lambda>em. if length (em_Nonce em) = 12 \<and> length (em_SessionID em) = 1 \<and>
         length (em_Ciphertext em) < 1000
       then Some (bytes_of (em_SessionID em) @ em_Nonce em @ em_Ciphertext em) else None),
     get_em = (\<lambda>bs. Some \<lparr>em_Nonce = take 12 (drop 1 bs), em_Ciphertext = drop 13 bs,
         em_SessionID = string_of (take 1 bs)\<rparr>),
     put_hs = (\<lambda>_. None), get_hs = (\<lambda>_. None)\<rparr>"

lemma toy_json_ok: "json_ok toy_json"
  by (auto simp: json_ok_def toy_json_def split: if_splits)

definition toy_conn :: "go_slice option list \<Rightarrow> nat SecureConnection" where
  "toy_conn rs = \<lparr>conn = \<lparr>reads = rs, written = [], write_fails = []\<rparr>, sessionID = ''s'',
     cryptoManager = sample_cm, isEncrypted = True, handshakeDone = True\<rparr>"

lemma toy_small: "put_em toy_json em = Some body \<Longrightarrow> 5 + length body < 2 ^ 32"
  by (auto simp: toy_json_def split: if_splits)

lemma toy_send:
  "\<exists>A'. Send xor_aead toy_json (Some (replicate 12 0)) 1000 [1, 2] (toy_conn []) = (A', Ret ())"
  by (simp add: Send_def toy_conn_def EncryptWithTimestamp_def Encrypt_def sample_cm_def
      NewCipher_def CryptoMaxPayloadSize_def toy_json_def xor_aead_def build_frame_ok
      WriteMessage_def Let_def)


text \<open>Nothing in the connection detects a replay: the same data frame read twice in a row is
  accepted both times and delivers the same data.\<close>

theorem replay_accepted:
  assumes "reads (conn sc) = Some f # Some f # rs" and "visible f ! 0 = MessageTypeData"
    and "Receive a j now sc = (sc', Ret data)"
  shows "snd (Receive a j now sc') = Ret data"
proof -
  have e: "isEncrypted sc" using assms(3) by (auto simp: Receive_def split: if_splits)
  let ?h = "handle_frame a j now f (cryptoManager sc)"
  have "?h \<noteq> Ret None"
  proof
    assume "?h = Ret None"
    then have "visible f ! 0 = MessageTypePing"
      by (auto simp: handle_frame_def byte_at_def go_bind_Ret_iff split: if_splits option.splits)
    with assms(2) show False by (simp add: frame_types)
  qed
  then have h: "?h = Ret (Some data) \<and> sc' = sc\<lparr>conn := (conn sc)\<lparr>reads := Some f # rs\<rparr>\<rparr>"
    using assms(1,3) e
    by (cases ?h) (auto simp: Receive_def split_def split: option.splits)
  then show ?thesis using e by (simp add: Receive_def split_def)
qed

theorem replay_accepted_witness:
  "\<exists>f sc'. Receive xor_aead toy_json 1030 (toy_conn [Some f, Some f]) = (sc', Ret [1, 2]) \<and>
     snd (Receive xor_aead toy_json 1030 sc') = Ret [1, 2]"
proof -
  obtain em where em:
    "EncryptWithTimestamp xor_aead (Some (replicate 12 0)) 1000 [1, 2] ''s'' 60 sample_cm = Ret em"
    and p: "\<exists>body. put_em toy_json em = Some body"
    by (simp add: EncryptWithTimestamp_def Encrypt_def sample_cm_def NewCipher_def
        CryptoMaxPayloadSize_def toy_json_def xor_aead_def)
  then obtain body where body: "put_em toy_json em = Some body" by blast
  define f where "f = exact_slice (MessageTypeData # be32 (word_of_nat (length body)) @ body)"
  have "DecryptWithTimestamp xor_aead 1030 em sample_cm = Ret [1, 2]"
    using timestamp_window [OF xor_aead_ok em refl, of 1030] by (simp add: GcmNonceSize_def)
  moreover have "get_em toy_json body = Some em" using toy_json_ok body by (simp add: json_ok_def)
  ultimately have h: "handle_frame xor_aead toy_json 1030 f sample_cm = Ret (Some [1, 2])"
    using handle_data_frame [of f body toy_json em xor_aead 1030 sample_cm] toy_small [OF body]
    by (simp add: f_def)
  obtain sc' where r: "Receive xor_aead toy_json 1030 (toy_conn [Some f, Some f]) = (sc', Ret [1, 2])"
    using h by (simp add: Receive_def toy_conn_def)
  have "snd (Receive xor_aead toy_json 1030 sc') = Ret [1, 2]"
  proof (rule replay_accepted [OF _ _ r])
    show "reads (conn (toy_conn [Some f, Some f])) = Some f # Some f # []"
      by (simp add: toy_conn_def)
    show "visible f ! 0 = MessageTypeData" by (simp add: f_def)
  qed
  with r show ?thesis by blast
qed

section \<open>The handshake\<close>

lemma with_recv_rule:
  assumes "\<And>a. m = Ret a \<Longrightarrow> P (f a)" and "\<And>e. P (r, Fail e)" and "P (r, Panic)"
  shows "P (with_recv r m f)"
  using assms by (cases m) auto

definition hs_result ::
    "'k SecureConnection \<Rightarrow> 'k SecureConnection \<times> (conn_error, unit) go \<Rightarrow> bool" where
  "hs_result sc res \<longleftrightarrow> sessionID (fst res) = sessionID sc \<and>
     (if snd res = Ret ()
      then isEncrypted (fst res) \<and> handshakeDone (fst res) \<and>
        GetSessionKey (sessionID sc) (cryptoManager (fst res)) \<noteq> None
      else isEncrypted (fst res) = isEncrypted sc \<and> handshakeDone (fst res) = handshakeDone sc)"

lemma Derive_key_stored:
  "DeriveSharedKey c gen now sid peer cm = (cm', Ret key) \<Longrightarrow> GetSessionKey sid cm' = Some key"
  by (auto simp: DeriveSharedKey_def GetSessionKey_def Let_def with_recv_eq_Ret
      split: option.splits prod.splits)

lemma hs_leaf:
  "hs_result sc (sc', Fail e) \<longleftrightarrow> sessionID sc' = sessionID sc \<and>
     isEncrypted sc' = isEncrypted sc \<and> handshakeDone sc' = handshakeDone sc"
  "hs_result sc (sc', Panic) \<longleftrightarrow> sessionID sc' = sessionID sc \<and>
     isEncrypted sc' = isEncrypted sc \<and> handshakeDone sc' = handshakeDone sc"
  "hs_result sc (sc', Ret ()) \<longleftrightarrow> sessionID sc' = sessionID sc \<and> isEncrypted sc' \<and>
     handshakeDone sc' \<and> GetSessionKey (sessionID sc) (cryptoManager sc') \<noteq> None"
  by (auto simp: hs_result_def)

text \<open>A handshake that succeeds leaves the connection marked encrypted and done, with a session
  key stored for its session; a handshake that fails or panics at any point leaves both
  marks as they were. The session ID never changes.\<close>

theorem Handshake_result:
  assumes "\<not> handshakeDone sc"
  shows "hs_result sc (Handshake c j env sc)"
  using assms Derive_key_stored [of c "env_gen env" "env_now env" "sessionID sc" _ "cryptoManager sc"]
  unfolding Handshake_def Let_def split_def
  by (auto simp: hs_leaf prod_eq_iff intro!: with_recv_rule [where P = "hs_result sc"]
      split: option.splits)

end
