(* ===== verification/Gateway_Sessions.thy ===== *)
theory Gateway_Sessions
  imports Handler_Registry Service_Routing Protocol_Converter
begin

text \<open>
  Client sessions of the gateway: \<^verbatim>\<open>src/pkg/gateway/session.go\<close> (the session and the
  session manager) and the session tables, message handling, internal handlers and broadcasts of
  \<^verbatim>\<open>src/pkg/gateway/handler.go\<close>. Sessions are shared by pointer, so they live in a store;
  the secure connection is an interface in the code and a parameter here; WebSocket and QUIC
  connections are the sequences of what the coming reads and writes return.
\<close>

section \<open>Connections\<close>

datatype sess_error =
    SessionClosed
  | NoValidConnection
  | ConnReadFailed
  | ConnWriteFailed
  | ConnCloseFailed

record ws_conn =
  ws_in :: "(int \<times> go_slice) option list"
  ws_out :: "(int \<times> byte list) list"
  ws_fail :: "bool list"
  ws_closed :: bool
  ws_close_fail :: bool

definition ws_read :: "ws_conn \<Rightarrow> ws_conn \<times> (sess_error, int \<times> go_slice) go" where
  "ws_read c =
     (case ws_in c of
        Some m # rest \<Rightarrow> (c\<lparr>ws_in := rest\<rparr>, Ret m)
      | None # rest \<Rightarrow> (c\<lparr>ws_in := rest\<rparr>, Fail ConnReadFailed)
      | [] \<Rightarrow> (c, Fail ConnReadFailed))"

definition ws_write :: "int \<Rightarrow> byte list \<Rightarrow> ws_conn \<Rightarrow> ws_conn \<times> (sess_error, unit) go" where
  "ws_write messageType bs c =
     (let c' = c\<lparr>ws_fail := tl (ws_fail c)\<rparr>
      in if ws_fail c \<noteq> [] \<and> hd (ws_fail c) then (c', Fail ConnWriteFailed)
         else (c'\<lparr>ws_out := ws_out c @ [(messageType, bs)]\<rparr>, Ret ()))"

text \<open>
  A QUIC stream: the bytes to come, how many bytes beyond the first a \<^verbatim>\<open>Read\<close> hands out
  at most, the bytes written, and which of the coming writes fail.
\<close>

record quic_stream =
  qs_in :: "byte list"
  qs_chunk :: nat
  qs_out :: "byte list"
  qs_fail :: "bool list"
  qs_closed :: bool

record quic_conn =
  qc_closed :: bool
  qc_close_fail :: bool

text \<open>\<^verbatim>\<open>binary.Read\<close> waits for all bytes of the value; the end of the stream is an error.\<close>

definition qs_read_full :: "nat \<Rightarrow> quic_stream \<Rightarrow> quic_stream \<times> (sess_error, byte list) go" where
  "qs_read_full n q =
     (if length (qs_in q) < n then (q\<lparr>qs_in := []\<rparr>, Fail ConnReadFailed)
      else (q\<lparr>qs_in := drop n (qs_in q)\<rparr>, Ret (take n (qs_in q))))"

text \<open>A single \<^verbatim>\<open>Read\<close> into a buffer of \<open>n\<close> bytes may fill only a part of it.\<close>

definition qs_read_some :: "nat \<Rightarrow> quic_stream \<Rightarrow> quic_stream \<times> (sess_error, byte list) go" where
  "qs_read_some n q =
     (if 0 < n \<and> qs_in q = [] then (q, Fail ConnReadFailed)
      else
        let k = min n (min (Suc (qs_chunk q)) (length (qs_in q)))
        in (q\<lparr>qs_in := drop k (qs_in q)\<rparr>, Ret (take k (qs_in q))))"

definition qs_write :: "byte list \<Rightarrow> quic_stream \<Rightarrow> quic_stream \<times> (sess_error, unit) go" where
  "qs_write bs q =
     (let q' = q\<lparr>qs_fail := tl (qs_fail q)\<rparr>
      in if qs_fail q \<noteq> [] \<and> hd (qs_fail q) then (q', Fail ConnWriteFailed)
         else (q'\<lparr>qs_out := qs_out q @ bs\<rparr>, Ret ()))"

text \<open>The operations behind the \<^verbatim>\<open>SecureConnection\<close> interface that a session calls.\<close>

record 'sc secure_ops =
  sc_receive :: "'sc \<Rightarrow> 'sc \<times> (sess_error, byte list) go"
  sc_send :: "byte list \<Rightarrow> 'sc \<Rightarrow> 'sc \<times> (sess_error, unit) go"
  sc_close :: "'sc \<Rightarrow> 'sc \<times> (sess_error, unit) go"

section \<open>Sessions\<close>

record 'sc Session =
  s_ID :: string
  UserID :: string
  ConnType :: ConnectionType
  LastActivity :: int
  wsConn :: "ws_conn option"
  secureConn :: "'sc option"
  quicConn :: "quic_conn option"
  quicStream :: "quic_stream option"
  closed :: bool

definition NewSession :: "string \<Rightarrow> ConnectionType \<Rightarrow> int \<Rightarrow> ws_conn \<Rightarrow> 'sc Session" where
  "NewSession i connType now c =
     \<lparr>s_ID = i, UserID = [], ConnType = connType, LastActivity = now, wsConn = Some c,
      secureConn = None, quicConn = None, quicStream = None, closed = False\<rparr>"

definition NewSessionWithSecureConnection ::
    "string \<Rightarrow> ConnectionType \<Rightarrow> int \<Rightarrow> 'sc \<Rightarrow> 'sc Session" where
  "NewSessionWithSecureConnection i connType now c =
     \<lparr>s_ID = i, UserID = [], ConnType = connType, LastActivity = now, wsConn = None,
      secureConn = Some c, quicConn = None, quicStream = None, closed = False\<rparr>"

definition NewSessionWithQUIC ::
    "string \<Rightarrow> ConnectionType \<Rightarrow> int \<Rightarrow> quic_conn \<Rightarrow> 'sc Session" where
  "NewSessionWithQUIC i connType now c =
     \<lparr>s_ID = i, UserID = [], ConnType = connType, LastActivity = now, wsConn = None,
      secureConn = None, quicConn = Some c, quicStream = None, closed = False\<rparr>"

definition SetUserID :: "string \<Rightarrow> 'sc Session \<Rightarrow> 'sc Session" where
  "SetUserID u s = s\<lparr>UserID := u\<rparr>"

definition UpdateLastActiveTime :: "int \<Rightarrow> 'sc Session \<Rightarrow> 'sc Session" where
  "UpdateLastActiveTime now s = s\<lparr>LastActivity := now\<rparr>"

definition websocket_BinaryMessage :: int where "websocket_BinaryMessage = 2"
definition websocket_TextMessage :: int where "websocket_TextMessage = 1"

definition read_quic :: "quic_stream \<Rightarrow> quic_stream \<times> (sess_error, int \<times> go_slice) go" where
  "read_quic q =
     (let (q, r) = qs_read_full 4 q in
      with_recv q (read_with get32 r) (\<lambda>msgLen.
      let (q, r) = qs_read_full 1 q in
      with_recv q (go_bind r (\<lambda>bs. byte_at (exact_slice bs) 0)) (\<lambda>msgType.
      let (q, r) = qs_read_some (unat msgLen) q in
      with_recv q r (\<lambda>bs.
      (q, Ret (int (unat msgType), exact_slice (bs @ replicate (unat msgLen - length bs) 0)))))))"

definition Session_ReadMessage ::
    "'sc secure_ops \<Rightarrow> int \<Rightarrow> 'sc Session \<Rightarrow> 'sc Session \<times> (sess_error, int \<times> go_slice) go" where
  "Session_ReadMessage ops now s =
     (if closed s then (s, Fail SessionClosed)
      else
        let s = s\<lparr>LastActivity := now\<rparr> in
        if ConnType s = ConnectionTypeWebSocket then
          (case wsConn s of
             Some c \<Rightarrow> (let (c, r) = ws_read c in (s\<lparr>wsConn := Some c\<rparr>, r))
           | None \<Rightarrow>
               (case secureConn s of
                  Some sc \<Rightarrow>
                    let (sc, r) = sc_receive ops sc
                    in (s\<lparr>secureConn := Some sc\<rparr>,
                        go_bind r (\<lambda>data. Ret (websocket_BinaryMessage, exact_slice data)))
                | None \<Rightarrow> (s, Fail NoValidConnection)))
        else if ConnType s = ConnectionTypeQUIC then
          (case quicStream s of
             Some q \<Rightarrow> (let (q, r) = read_quic q in (s\<lparr>quicStream := Some q\<rparr>, r))
           | None \<Rightarrow> (s, Fail NoValidConnection))
        else (s, Fail NoValidConnection))"

text \<open>The three writes of a QUIC message: length, type byte, data.\<close>

definition write_quic :: "int \<Rightarrow> byte list \<Rightarrow> quic_stream \<Rightarrow> quic_stream \<times> (sess_error, unit) go" where
  "write_quic messageType data q =
     (let (q, r) = qs_write (be32 (word_of_nat (length data))) q in
      with_recv q r (\<lambda>_.
      let (q, r) = qs_write [word_of_int messageType] q in
      with_recv q r (\<lambda>_. qs_write data q)))"

definition Session_WriteMessage ::
    "'sc secure_ops \<Rightarrow> int \<Rightarrow> int \<Rightarrow> byte list \<Rightarrow> 'sc Session \<Rightarrow> 'sc Session \<times> (sess_error, unit) go" where
  "Session_WriteMessage ops now messageType data s =
     (if closed s then (s, Fail SessionClosed)
      else
        let s = s\<lparr>LastActivity := now\<rparr> in
        if ConnType s = ConnectionTypeWebSocket then
          (case wsConn s of
             Some c \<Rightarrow> (let (c, r) = ws_write messageType data c in (s\<lparr>wsConn := Some c\<rparr>, r))
           | None \<Rightarrow>
               (case secureConn s of
                  Some sc \<Rightarrow> (let (sc, r) = sc_send ops data sc in (s\<lparr>secureConn := Some sc\<rparr>, r))
                | None \<Rightarrow> (s, Fail NoValidConnection)))
        else if ConnType s = ConnectionTypeQUIC then
          (case quicStream s of
             Some q \<Rightarrow> (let (q, r) = write_quic messageType data q in (s\<lparr>quicStream := Some q\<rparr>, r))
           | None \<Rightarrow> (s, Fail NoValidConnection))
        else (s, Fail NoValidConnection))"

definition ws_close :: "ws_conn \<Rightarrow> ws_conn \<times> (sess_error, unit) go" where
  "ws_close c = (c\<lparr>ws_closed := True\<rparr>, if ws_close_fail c then Fail ConnCloseFailed else Ret ())"

definition qc_close :: "quic_conn \<Rightarrow> quic_conn \<times> (sess_error, unit) go" where
  "qc_close c = (c\<lparr>qc_closed := True\<rparr>, if qc_close_fail c then Fail ConnCloseFailed else Ret ())"

definition Session_Close :: "'sc secure_ops \<Rightarrow> 'sc Session \<Rightarrow> 'sc Session \<times> (sess_error, unit) go" where
  "Session_Close ops s =
     (if closed s then (s, Ret ())
      else
        let s = s\<lparr>closed := True\<rparr> in
        if ConnType s = ConnectionTypeWebSocket then
          (case wsConn s of
             Some c \<Rightarrow> (let (c, r) = ws_close c in (s\<lparr>wsConn := Some c\<rparr>, r))
           | None \<Rightarrow>
               (case secureConn s of
                  Some sc \<Rightarrow> (let (sc, r) = sc_close ops sc in (s\<lparr>secureConn := Some sc\<rparr>, r))
                | None \<Rightarrow> (s, Ret ())))
        else if ConnType s = ConnectionTypeQUIC then
          let s = s\<lparr>quicStream := map_option (\<lambda>q. q\<lparr>qs_closed := True\<rparr>) (quicStream s)\<rparr> in
          (case quicConn s of
             Some c \<Rightarrow> (let (c, r) = qc_close c in (s\<lparr>quicConn := Some c\<rparr>, r))
           | None \<Rightarrow> (s, Ret ()))
        else (s, Ret ()))"

section \<open>The session manager\<close>

type_synonym addr = nat

record 'sc SessionManager =
  sm_heap :: "addr \<Rightarrow> 'sc Session"
  sm_sessions :: "(string, addr) fmap"
  heartbeatTTL :: int

datatype sm_error = ErrSessionNotFound | ErrSessionAlreadyExists

definition NewSessionManager :: "(addr \<Rightarrow> 'sc Session) \<Rightarrow> int \<Rightarrow> 'sc SessionManager" where
  "NewSessionManager h ttl = \<lparr>sm_heap = h, sm_sessions = fmempty, heartbeatTTL = ttl\<rparr>"

definition SM_GetSession :: "string \<Rightarrow> 'sc SessionManager \<Rightarrow> addr option" where
  "SM_GetSession i sm = fmlookup (sm_sessions sm) i"

text \<open>\<open>order\<close> is the order in which the loop visits the map.\<close>

definition SM_GetAllSessions :: "string list \<Rightarrow> 'sc SessionManager \<Rightarrow> addr list" where
  "SM_GetAllSessions order sm = map (\<lambda>i. the (fmlookup (sm_sessions sm) i)) order"

definition SM_RemoveSession ::
    "string \<Rightarrow> 'sc SessionManager \<Rightarrow> 'sc SessionManager \<times> (sm_error, unit) go" where
  "SM_RemoveSession i sm =
     (case fmlookup (sm_sessions sm) i of
        None \<Rightarrow> (sm, Fail ErrSessionNotFound)
      | Some a \<Rightarrow>
          (sm\<lparr>sm_heap := (sm_heap sm)(a := (sm_heap sm a)\<lparr>closed := True\<rparr>),
              sm_sessions := fmdrop i (sm_sessions sm)\<rparr>, Ret ()))"

definition SM_AddSession ::
    "addr \<Rightarrow> 'sc SessionManager \<Rightarrow> 'sc SessionManager \<times> (sm_error, unit) go" where
  "SM_AddSession a sm =
     (case fmlookup (sm_sessions sm) (s_ID (sm_heap sm a)) of
        Some _ \<Rightarrow> (sm, Fail ErrSessionAlreadyExists)
      | None \<Rightarrow> (sm\<lparr>sm_sessions := fmupd (s_ID (sm_heap sm a)) a (sm_sessions sm)\<rparr>, Ret ()))"

text \<open>\<open>fresh\<close> is the address of the session that is created when there is none.\<close>

definition SM_GetOrCreate :: "addr \<Rightarrow> int \<Rightarrow> string \<Rightarrow> 'sc SessionManager \<Rightarrow> 'sc SessionManager \<times> addr" where
  "SM_GetOrCreate fresh now i sm =
     (case fmlookup (sm_sessions sm) i of
        Some a \<Rightarrow>
          (sm\<lparr>sm_heap := (sm_heap sm)(a := UpdateLastActiveTime now (sm_heap sm a))\<rparr>, a)
      | None \<Rightarrow>
          (sm\<lparr>sm_heap := (sm_heap sm)(fresh :=
                \<lparr>s_ID = i, UserID = [], ConnType = ConnectionTypeQUIC, LastActivity = now,
                 wsConn = None, secureConn = None, quicConn = None, quicStream = None,
                 closed = False\<rparr>),
              sm_sessions := fmupd i fresh (sm_sessions sm)\<rparr>, fresh))"

definition SM_expired :: "int \<Rightarrow> 'sc SessionManager \<Rightarrow> string \<Rightarrow> bool" where
  "SM_expired now sm i =
     (case fmlookup (sm_sessions sm) i of
        None \<Rightarrow> False
      | Some a \<Rightarrow> heartbeatTTL sm < now - LastActivity (sm_heap sm a))"

text \<open>\<open>order\<close> is the order in which the first loop visits the sessions.\<close>

definition SM_checkHeartbeats :: "string list \<Rightarrow> int \<Rightarrow> 'sc SessionManager \<Rightarrow> 'sc SessionManager" where
  "SM_checkHeartbeats order now sm =
     foldl (\<lambda>sm i. fst (SM_RemoveSession i sm)) sm (filter (SM_expired now sm) order)"

definition SM_Stop :: "'sc SessionManager \<Rightarrow> 'sc SessionManager" where
  "SM_Stop sm =
     sm\<lparr>sm_heap := (\<lambda>a. if a |\<in>| fmran (sm_sessions sm)
          then (sm_heap sm a)\<lparr>closed := True\<rparr> else sm_heap sm a),
        sm_sessions := fmempty\<rparr>"

definition SM_GetSessionCount :: "'sc SessionManager \<Rightarrow> nat" where
  "SM_GetSessionCount sm = fcard (fmdom (sm_sessions sm))"

section \<open>The gateway handler\<close>

text \<open>The internal handlers are closures over the gateway; they are named by a tag here.\<close>

datatype internal_handler = HeartbeatHandler | SessionInfoHandler

record ('sc, 'lb, 'cb) GatewayHandler =
  heap :: "addr \<Rightarrow> 'sc Session"
  sessions :: "(string, addr) fmap"
  sessionsByUser :: "(string, (string, addr) fmap) fmap"
  router :: "('lb, 'cb) MessageRouter"
  handlers :: "internal_handler HandlerRegistry"

datatype gw_error =
    ToInternalFailed conv_error
  | RouteFailed route_error
  | FromInternalFailed conv_error
  | SendFailed sess_error
  | NoSessionsFor string

definition registerInternalHandlers ::
    "('sc, 'lb, 'cb) GatewayHandler \<Rightarrow> ('sc, 'lb, 'cb) GatewayHandler" where
  "registerInternalHandlers h =
     (let reg = fst (RegisterHandler ServiceTypeGateway 1 HeartbeatHandler (handlers h));
          reg = fst (RegisterHandler ServiceTypeGateway 2 SessionInfoHandler reg)
      in h\<lparr>handlers := reg\<rparr>)"

definition NewGatewayHandler ::
    "(addr \<Rightarrow> 'sc Session) \<Rightarrow> 'lb \<Rightarrow> int \<Rightarrow> (int \<times> string) list \<Rightarrow> ('sc, 'lb, 'cb) GatewayHandler" where
  "NewGatewayHandler store lb timeoutMs svcMap =
     (let r = NewMessageRouter NewInMemoryServiceDiscovery lb;
          r = (if 0 < timeoutMs then SetTimeout (wrap64 (timeoutMs * 1000000)) r else r);
          r = foldl (\<lambda>r (serviceType, serviceName).
                RegisterServiceType (word_of_int serviceType) serviceName r) r svcMap
      in registerInternalHandlers
           \<lparr>heap = store, sessions = fmempty, sessionsByUser = fmempty, router = r,
            handlers = NewHandlerRegistry\<rparr>)"

definition registerSession ::
    "addr \<Rightarrow> ('sc, 'lb, 'cb) GatewayHandler \<Rightarrow> ('sc, 'lb, 'cb) GatewayHandler" where
  "registerSession a h =
     (let s = heap h a;
          h = h\<lparr>sessions := fmupd (s_ID s) a (sessions h)\<rparr>
      in if UserID s \<noteq> [] then
           let byUser = (case fmlookup (sessionsByUser h) (UserID s) of
                           None \<Rightarrow> fmupd (UserID s) fmempty (sessionsByUser h)
                         | Some _ \<Rightarrow> sessionsByUser h);
               inner = the (fmlookup byUser (UserID s))
           in h\<lparr>sessionsByUser := fmupd (UserID s) (fmupd (s_ID s) a inner) byUser\<rparr>
         else h)"

text \<open>The deletion from the user index, shared by the two ways a session goes.\<close>

definition unindex :: "string \<Rightarrow> string \<Rightarrow> (string, (string, addr) fmap) fmap \<Rightarrow>
    (string, (string, addr) fmap) fmap" where
  "unindex u i byUser =
     (if u \<noteq> [] then
        (case fmlookup byUser u of
           None \<Rightarrow> byUser
         | Some userSessions \<Rightarrow>
             let userSessions = fmdrop i userSessions
             in if userSessions = fmempty then fmdrop u byUser else fmupd u userSessions byUser)
      else byUser)"

definition unregisterSession ::
    "string \<Rightarrow> ('sc, 'lb, 'cb) GatewayHandler \<Rightarrow> ('sc, 'lb, 'cb) GatewayHandler" where
  "unregisterSession i h =
     (case fmlookup (sessions h) i of
        None \<Rightarrow> h
      | Some a \<Rightarrow>
          h\<lparr>sessionsByUser := unindex (UserID (heap h a)) i (sessionsByUser h),
            sessions := fmdrop i (sessions h)\<rparr>)"

definition handleWebSocketConnection ::
    "addr \<Rightarrow> string \<Rightarrow> int \<Rightarrow> ws_conn \<Rightarrow> ('sc, 'lb, 'cb) GatewayHandler \<Rightarrow> ('sc, 'lb, 'cb) GatewayHandler" where
  "handleWebSocketConnection a i now c h =
     registerSession a (h\<lparr>heap := (heap h)(a := NewSession i ConnectionTypeWebSocket now c)\<rparr>)"

definition handleSecureWebSocketConnection ::
    "addr \<Rightarrow> string \<Rightarrow> int \<Rightarrow> 'sc \<Rightarrow> ('sc, 'lb, 'cb) GatewayHandler \<Rightarrow> ('sc, 'lb, 'cb) GatewayHandler" where
  "handleSecureWebSocketConnection a i now c h =
     registerSession a (h\<lparr>heap := (heap h)(a :=
       NewSessionWithSecureConnection i ConnectionTypeWebSocket now c)\<rparr>)"

definition handleQUICConnection ::
    "addr \<Rightarrow> string \<Rightarrow> int \<Rightarrow> quic_conn \<Rightarrow> ('sc, 'lb, 'cb) GatewayHandler \<Rightarrow> ('sc, 'lb, 'cb) GatewayHandler" where
  "handleQUICConnection a i now c h =
     registerSession a (h\<lparr>heap := (heap h)(a := NewSessionWithQUIC i ConnectionTypeQUIC now c)\<rparr>)"

text \<open>
  One message. \<open>now\<close> is the wall clock (for the session), \<open>stamp\<close> the timestamp of a converted
  message, \<open>ev\<close> what ends the wait for the routed reply.
\<close>

definition handleMessage ::
    "'sc secure_ops \<Rightarrow> wire \<Rightarrow> 'lb selector \<Rightarrow> int \<Rightarrow> u64 \<Rightarrow> route_event \<Rightarrow> addr \<Rightarrow> int \<Rightarrow> go_slice \<Rightarrow>
      ('sc, 'lb, 'cb) GatewayHandler \<Rightarrow> ('sc, 'lb, 'cb) GatewayHandler \<times> (gw_error, unit) go" where
  "handleMessage ops w select now stamp ev a msgType data h =
     with_recv h (go_map_err ToInternalFailed (ToInternal w stamp (ConnType (heap h a)) msgType data))
       (\<lambda>m.
     let m = m\<lparr>SessionID := s_ID (heap h a)\<rparr>;
         m = (if SourceService m = [] then m\<lparr>SourceService := ''gateway''\<rparr> else m);
         (r, _, res) = Route select ev (router h) m;
         h = h\<lparr>router := r\<rparr>
     in with_recv h (go_map_err RouteFailed res) (\<lambda>response.
     with_recv h (go_map_err FromInternalFailed
       (FromInternal w (ConnType (heap h a)) msgType response)) (\<lambda>responseData.
     let (s, res) = Session_WriteMessage ops now msgType responseData (heap h a)
     in (h\<lparr>heap := (heap h)(a := s)\<rparr>, go_map_err SendFailed res))))"

text \<open>
  The read loop of one session. Each round has its own clock readings and routing outcome; the list
  of rounds is the fuel, and \<^term>\<open>None\<close> means that the loop has not returned yet. The text
  of an error is a parameter.
\<close>

record round =
  rd_now :: int
  rd_stamp :: u64
  rd_event :: route_event

definition end_session ::
    "'sc secure_ops \<Rightarrow> addr \<Rightarrow> ('sc, 'lb, 'cb) GatewayHandler \<Rightarrow> ('sc, 'lb, 'cb) GatewayHandler" where
  "end_session ops a h =
     (let h = unregisterSession (s_ID (heap h a)) h
      in h\<lparr>heap := (heap h)(a := fst (Session_Close ops (heap h a)))\<rparr>)"

fun handleSessionMessages ::
    "'sc secure_ops \<Rightarrow> wire \<Rightarrow> 'lb selector \<Rightarrow> (gw_error \<Rightarrow> string) \<Rightarrow> addr \<Rightarrow> round list \<Rightarrow>
      ('sc, 'lb, 'cb) GatewayHandler \<Rightarrow> (unit, ('sc, 'lb, 'cb) GatewayHandler) go option" where
  "handleSessionMessages ops w select errText a [] h = None"
| "handleSessionMessages ops w select errText a (rd # rds) h =
     (let (s, res) = Session_ReadMessage ops (rd_now rd) (heap h a);
          h = h\<lparr>heap := (heap h)(a := s)\<rparr>
      in case res of
           Panic \<Rightarrow> Some Panic
         | Fail e \<Rightarrow> Some (Ret (end_session ops a h))
         | Ret (msgType, data) \<Rightarrow>
             (let (h, res) =
                handleMessage ops w select (rd_now rd) (rd_stamp rd) (rd_event rd) a msgType data h
              in case res of
                   Panic \<Rightarrow> Some Panic
                 | Ret _ \<Rightarrow> handleSessionMessages ops w select errText a rds h
                 | Fail e \<Rightarrow>
                     (let (s, res) = Session_WriteMessage ops (rd_now rd) msgType
                            (bytes_of (''Error: '' @ errText e)) (heap h a);
                          h = h\<lparr>heap := (heap h)(a := s)\<rparr>
                      in case res of
                           Panic \<Rightarrow> Some Panic
                         | Fail _ \<Rightarrow> Some (Ret (end_session ops a h))
                         | Ret _ \<Rightarrow> handleSessionMessages ops w select errText a rds h)))"

text \<open>One visited entry of the clean-up loop, and the loop over the visiting order \<open>order\<close>.\<close>

definition cleanup_one ::
    "'sc secure_ops \<Rightarrow> int \<Rightarrow> int \<Rightarrow> ('sc, 'lb, 'cb) GatewayHandler \<Rightarrow> string \<Rightarrow>
      ('sc, 'lb, 'cb) GatewayHandler" where
  "cleanup_one ops now maxInactiveTime h i =
     (case fmlookup (sessions h) i of
        None \<Rightarrow> h
      | Some a \<Rightarrow>
          if maxInactiveTime < now - LastActivity (heap h a) then
            h\<lparr>sessionsByUser := unindex (UserID (heap h a)) i (sessionsByUser h),
              sessions := fmdrop i (sessions h),
              heap := (heap h)(a := fst (Session_Close ops (heap h a)))\<rparr>
          else h)"

definition cleanupInactiveSessions ::
    "'sc secure_ops \<Rightarrow> string list \<Rightarrow> int \<Rightarrow> int \<Rightarrow> ('sc, 'lb, 'cb) GatewayHandler \<Rightarrow>
      ('sc, 'lb, 'cb) GatewayHandler" where
  "cleanupInactiveSessions ops order now MaxSessionInactiveTime h =
     foldl (cleanup_one ops now (wrap64 (MaxSessionInactiveTime * 1000000000))) h order"

text \<open>The session part of \<^verbatim>\<open>Stop\<close>: every session is closed, none is removed.\<close>

definition close_sessions ::
    "'sc secure_ops \<Rightarrow> string list \<Rightarrow> ('sc, 'lb, 'cb) GatewayHandler \<Rightarrow> ('sc, 'lb, 'cb) GatewayHandler" where
  "close_sessions ops order h =
     foldl (\<lambda>h i. case fmlookup (sessions h) i of
                None \<Rightarrow> h
              | Some a \<Rightarrow> h\<lparr>heap := (heap h)(a := fst (Session_Close ops (heap h a)))\<rparr>) h order"

definition GetUserSessions ::
    "string list \<Rightarrow> string \<Rightarrow> ('sc, 'lb, 'cb) GatewayHandler \<Rightarrow> addr list" where
  "GetUserSessions order userID h =
     (case fmlookup (sessionsByUser h) userID of
        None \<Rightarrow> []
      | Some userSessions \<Rightarrow> List.map_filter (fmlookup userSessions) order)"

text \<open>The loop that writes to the collected sessions; a failed write is logged and skipped.\<close>

definition write_all ::
    "'sc secure_ops \<Rightarrow> int \<Rightarrow> int \<Rightarrow> byte list \<Rightarrow> addr list \<Rightarrow> ('sc, 'lb, 'cb) GatewayHandler \<Rightarrow>
      ('sc, 'lb, 'cb) GatewayHandler" where
  "write_all ops now msgType data as h =
     h\<lparr>heap := foldl (\<lambda>st a. st(a := fst (Session_WriteMessage ops now msgType data (st a))))
        (heap h) as\<rparr>"

definition BroadcastToUser ::
    "'sc secure_ops \<Rightarrow> string list \<Rightarrow> int \<Rightarrow> string \<Rightarrow> int \<Rightarrow> byte list \<Rightarrow> ('sc, 'lb, 'cb) GatewayHandler \<Rightarrow>
      ('sc, 'lb, 'cb) GatewayHandler \<times> (gw_error, unit) go" where
  "BroadcastToUser ops order now userID msgType data h =
     (let as = GetUserSessions order userID h
      in if as = [] then (h, Fail (NoSessionsFor userID))
         else (write_all ops now msgType data as h, Ret ()))"

definition BroadcastToAll ::
    "'sc secure_ops \<Rightarrow> string list \<Rightarrow> int \<Rightarrow> int \<Rightarrow> byte list \<Rightarrow> ('sc, 'lb, 'cb) GatewayHandler \<Rightarrow>
      ('sc, 'lb, 'cb) GatewayHandler" where
  "BroadcastToAll ops order now msgType data h =
     write_all ops now msgType data (List.map_filter (fmlookup (sessions h)) order) h"

definition GW_GetSession :: "string \<Rightarrow> ('sc, 'lb, 'cb) GatewayHandler \<Rightarrow> addr option" where
  "GW_GetSession i h = fmlookup (sessions h) i"

definition GW_GetSessionCount :: "('sc, 'lb, 'cb) GatewayHandler \<Rightarrow> nat" where
  "GW_GetSessionCount h = fcard (fmdom (sessions h))"

definition GW_GetUserCount :: "('sc, 'lb, 'cb) GatewayHandler \<Rightarrow> nat" where
  "GW_GetUserCount h = fcard (fmdom (sessionsByUser h))"

definition internal_response ::
    "byte \<Rightarrow> u16 \<Rightarrow> u64 \<Rightarrow> u32 \<Rightarrow> byte list \<Rightarrow> Message \<Rightarrow> Message" where
  "internal_response flags t now_micro len payload msg =
     \<lparr>Version = ProtocolVersion, Flags = flags, ServiceTypeOf = ServiceTypeGateway,
      MessageTypeOf = t, SequenceID = SequenceID msg, Timestamp = now_micro, PayloadLength = len,
      SourceService = ''gateway'', DestinationService = SourceService msg,
      CorrelationID = CorrelationID msg, SessionID = SessionID msg, Payload = payload\<rparr>"

definition info_text :: "('sc, 'lb, 'cb) GatewayHandler \<Rightarrow> string" where
  "info_text h =
     ''{'' @ [CHR 0x22] @ ''sessions'' @ [CHR 0x22] @ '': '' @ show_nat (GW_GetSessionCount h) @
     '', '' @ [CHR 0x22] @ ''users'' @ [CHR 0x22] @ '': '' @ show_nat (GW_GetUserCount h) @ ''}''"

fun run_internal :: "u64 \<Rightarrow> ('sc, 'lb, 'cb) GatewayHandler \<Rightarrow> internal_handler \<Rightarrow> Message \<Rightarrow> Message" where
  "run_internal now_micro h HeartbeatHandler msg =
     internal_response FlagPong 1 now_micro 0 (bytes_of ''pong'') msg"
| "run_internal now_micro h SessionInfoHandler msg =
     internal_response FlagNone 2 now_micro (word_of_nat (length (info_text h)))
       (bytes_of (info_text h)) msg"

section \<open>What the connection operations keep of a session\<close>

named_theorems session_ops

lemma ReadMessage_keeps:
  "s_ID (fst (Session_ReadMessage ops now s)) = s_ID s"
  "UserID (fst (Session_ReadMessage ops now s)) = UserID s"
  "ConnType (fst (Session_ReadMessage ops now s)) = ConnType s"
  "closed (fst (Session_ReadMessage ops now s)) = closed s"
  by (auto simp: Session_ReadMessage_def Let_def split_def split: option.splits)

lemma WriteMessage_keeps:
  "s_ID (fst (Session_WriteMessage ops now t d s)) = s_ID s"
  "UserID (fst (Session_WriteMessage ops now t d s)) = UserID s"
  "ConnType (fst (Session_WriteMessage ops now t d s)) = ConnType s"
  "closed (fst (Session_WriteMessage ops now t d s)) = closed s"
  by (auto simp: Session_WriteMessage_def Let_def split_def split: option.splits)

lemma Close_keeps:
  "s_ID (fst (Session_Close ops s)) = s_ID s"
  "UserID (fst (Session_Close ops s)) = UserID s"
  "ConnType (fst (Session_Close ops s)) = ConnType s"
  "LastActivity (fst (Session_Close ops s)) = LastActivity s"
  "closed (fst (Session_Close ops s))"
  by (auto simp: Session_Close_def Let_def split_def split: option.splits)

lemmas [simp, session_ops] = ReadMessage_keeps WriteMessage_keeps Close_keeps

section \<open>The user index\<close>

text \<open>The user index as one map from users and session IDs to sessions.\<close>

definition indexed :: "(string, (string, addr) fmap) fmap \<Rightarrow> string \<Rightarrow> string \<Rightarrow> addr option" where
  "indexed byUser u i = (case fmlookup byUser u of None \<Rightarrow> None | Some m \<Rightarrow> fmlookup m i)"

definition index_ok :: "('sc, 'lb, 'cb) GatewayHandler \<Rightarrow> bool" where
  "index_ok h \<longleftrightarrow>
     (\<forall>i a. fmlookup (sessions h) i = Some a \<longrightarrow> s_ID (heap h a) = i) \<and>
     (\<forall>u. fmlookup (sessionsByUser h) u \<noteq> Some fmempty) \<and>
     (\<forall>u i. indexed (sessionsByUser h) u i =
        (case fmlookup (sessions h) i of
           None \<Rightarrow> None
         | Some a \<Rightarrow> if u \<noteq> [] \<and> UserID (heap h a) = u then Some a else None))"

lemma index_ok_I:
  assumes "\<And>i a. fmlookup (sessions h) i = Some a \<Longrightarrow> s_ID (heap h a) = i"
    and "\<And>u. fmlookup (sessionsByUser h) u \<noteq> Some fmempty"
    and "\<And>u i. indexed (sessionsByUser h) u i =
        (case fmlookup (sessions h) i of
           None \<Rightarrow> None
         | Some a \<Rightarrow> if u \<noteq> [] \<and> UserID (heap h a) = u then Some a else None)"
  shows "index_ok h"
  using assms by (simp add: index_ok_def)

lemma index_okD:
  assumes "index_ok h"
  shows "fmlookup (sessions h) i = Some a \<Longrightarrow> s_ID (heap h a) = i"
    and "fmlookup (sessionsByUser h) u \<noteq> Some fmempty"
    and "indexed (sessionsByUser h) u i =
        (case fmlookup (sessions h) i of
           None \<Rightarrow> None
         | Some a \<Rightarrow> if u \<noteq> [] \<and> UserID (heap h a) = u then Some a else None)"
  using assms by (simp_all add: index_ok_def)

text \<open>One address per ID.\<close>

lemma index_ok_inj:
  assumes "index_ok h" "fmlookup (sessions h) i = Some a" "fmlookup (sessions h) j = Some a"
  shows "i = j"
  using index_okD(1) [OF assms(1)] assms(2,3) by metis

lemma fmdrop_empty_other:
  assumes "fmdrop i m = fmempty" "j \<noteq> i"
  shows "fmlookup m j = None"
proof -
  have "fmlookup (fmdrop i m) j = None" by (simp add: assms(1))
  then show ?thesis using assms(2) by simp
qed

lemma indexed_unindex:
  "indexed (unindex u i m) v j = (if u \<noteq> [] \<and> v = u \<and> j = i then None else indexed m v j)"
  by (auto simp: unindex_def indexed_def Let_def dest: fmdrop_empty_other split: option.splits)

lemma unindex_nonempty:
  assumes "\<And>v. fmlookup m v \<noteq> Some fmempty"
  shows "fmlookup (unindex u i m) v \<noteq> Some fmempty"
  using assms by (auto simp: unindex_def Let_def split: option.splits if_splits)

lemma index_ok_register:
  assumes h: "index_ok h" and fresh: "fmlookup (sessions h) (s_ID (heap h a)) = None"
  shows "index_ok (registerSession a h)"
proof -
  let ?i = "s_ID (heap h a)"
  let ?u = "UserID (heap h a)"
  have s: "sessions (registerSession a h) = fmupd ?i a (sessions h)"
    and hp: "heap (registerSession a h) = heap h"
    by (simp_all add: registerSession_def Let_def)
  have ix: "indexed (sessionsByUser (registerSession a h)) v j =
      (if ?u \<noteq> [] \<and> v = ?u \<and> j = ?i then Some a else indexed (sessionsByUser h) v j)" for v j
    by (auto simp: registerSession_def Let_def indexed_def split: option.splits)
  show ?thesis
  proof (rule index_ok_I)
    fix i b assume "fmlookup (sessions (registerSession a h)) i = Some b"
    then show "s_ID (heap (registerSession a h) b) = i"
      using index_okD(1) [OF h] by (auto simp: s hp split: if_splits)
  next
    fix u show "fmlookup (sessionsByUser (registerSession a h)) u \<noteq> Some fmempty"
      using index_okD(2) [OF h, of u]
      by (auto simp: registerSession_def Let_def split: option.splits)
  next
    fix u i
    show "indexed (sessionsByUser (registerSession a h)) u i =
        (case fmlookup (sessions (registerSession a h)) i of
           None \<Rightarrow> None
         | Some b \<Rightarrow> if u \<noteq> [] \<and> UserID (heap (registerSession a h) b) = u then Some b else None)"
      using fresh by (auto simp: ix s hp index_okD(3) [OF h] split: option.splits)
  qed
qed

lemma index_ok_drop:
  assumes h: "index_ok h" and a: "fmlookup (sessions h) i = Some a"
    and u': "sessionsByUser h' = unindex (UserID (heap h a)) i (sessionsByUser h)"
    and s': "sessions h' = fmdrop i (sessions h)"
    and st: "\<And>b. s_ID (heap h' b) = s_ID (heap h b)" "\<And>b. UserID (heap h' b) = UserID (heap h b)"
  shows "index_ok h'"
proof (rule index_ok_I)
  fix j b assume "fmlookup (sessions h') j = Some b"
  then show "s_ID (heap h' b) = j"
    using index_okD(1) [OF h] by (auto simp: s' st split: if_splits)
next
  fix u show "fmlookup (sessionsByUser h') u \<noteq> Some fmempty"
    using unindex_nonempty [OF index_okD(2) [OF h]] by (simp add: u')
next
  fix u j
  show "indexed (sessionsByUser h') u j = (case fmlookup (sessions h') j of None \<Rightarrow> None
      | Some b \<Rightarrow> if u \<noteq> [] \<and> UserID (heap h' b) = u then Some b else None)"
    using a by (auto simp: u' s' indexed_unindex index_okD(3) [OF h] st split: option.splits)
qed

lemma index_ok_heap:
  assumes "index_ok h" "sessions h' = sessions h" "sessionsByUser h' = sessionsByUser h"
    and "\<And>b. s_ID (heap h' b) = s_ID (heap h b)" "\<And>b. UserID (heap h' b) = UserID (heap h b)"
  shows "index_ok h'"
  using index_okD [OF assms(1)] by (intro index_ok_I) (simp_all add: assms(2-) split: option.splits)

lemma index_ok_unregister:
  assumes "index_ok h" shows "index_ok (unregisterSession i h)"
proof (cases "fmlookup (sessions h) i")
  case (Some a)
  then show ?thesis
    by (intro index_ok_drop [OF assms Some]) (simp_all add: unregisterSession_def)
qed (simp add: unregisterSession_def assms)

lemma index_ok_cleanup_one:
  assumes "index_ok h" shows "index_ok (cleanup_one ops now t h i)"
proof (cases "fmlookup (sessions h) i")
  case (Some a)
  show ?thesis
  proof (cases "t < now - LastActivity (heap h a)")
    case True
    then show ?thesis
      by (intro index_ok_drop [OF assms Some]) (simp_all add: cleanup_one_def Some)
  qed (simp add: cleanup_one_def Some assms)
qed (simp add: cleanup_one_def assms)

lemma index_ok_cleanup:
  assumes "index_ok h" shows "index_ok (cleanupInactiveSessions ops order now t h)"
proof -
  have "index_ok (foldl (cleanup_one ops now x) h order)" for x
    using assms by (induction order arbitrary: h) (auto intro: index_ok_cleanup_one)
  then show ?thesis by (simp add: cleanupInactiveSessions_def)
qed

lemma end_session_fields:
  "heap (end_session ops a h) = (heap h)(a := fst (Session_Close ops (heap h a)))"
  "sessions (end_session ops a h) = fmdrop (s_ID (heap h a)) (sessions h)"
  "router (end_session ops a h) = router h"
  by (auto simp: end_session_def unregisterSession_def Let_def fmdrop_idle fmdom_notI
      split: option.splits)

lemma index_ok_end_session:
  assumes "index_ok h" shows "index_ok (end_session ops a h)"
  by (rule index_ok_heap [OF index_ok_unregister [OF assms, of "s_ID (heap h a)"]])
    (auto simp: end_session_def unregisterSession_def Let_def split: option.splits)

section \<open>Clean-up\<close>

definition gw_expired :: "int \<Rightarrow> int \<Rightarrow> ('sc, 'lb, 'cb) GatewayHandler \<Rightarrow> string \<Rightarrow> addr \<Rightarrow> bool" where
  "gw_expired now t h i a \<longleftrightarrow>
     fmlookup (sessions h) i = Some a \<and> t < now - LastActivity (heap h a)"

lemma cleanup_one_fields:
  "sessions (cleanup_one ops now t h i) =
     (if \<exists>a. gw_expired now t h i a then fmdrop i (sessions h) else sessions h)"
  "heap (cleanup_one ops now t h i) b =
     (if gw_expired now t h i b then fst (Session_Close ops (heap h b)) else heap h b)"
  "LastActivity (heap (cleanup_one ops now t h i) b) = LastActivity (heap h b)"
  by (auto simp: cleanup_one_def gw_expired_def split: option.splits)

lemma cleanup_one_expired:
  "j \<noteq> i \<Longrightarrow> gw_expired now t (cleanup_one ops now t h i) j b = gw_expired now t h j b"
  by (simp add: gw_expired_def cleanup_one_fields)

lemma cleanup_fold:
  assumes "index_ok h" "distinct order"
  shows "fmlookup (sessions (foldl (cleanup_one ops now t) h order)) i =
      (if i \<in> set order \<and> (\<exists>a. gw_expired now t h i a) then None else fmlookup (sessions h) i)
    \<and> heap (foldl (cleanup_one ops now t) h order) b =
      (if \<exists>j \<in> set order. gw_expired now t h j b then fst (Session_Close ops (heap h b))
       else heap h b)"
  using assms
proof (induction order arbitrary: h)
  case (Cons k order)
  let ?h = "cleanup_one ops now t h k"
  have IH: "fmlookup (sessions (foldl (cleanup_one ops now t) ?h order)) i =
      (if i \<in> set order \<and> (\<exists>a. gw_expired now t ?h i a) then None else fmlookup (sessions ?h) i)
    \<and> heap (foldl (cleanup_one ops now t) ?h order) b =
      (if \<exists>j \<in> set order. gw_expired now t ?h j b then fst (Session_Close ops (heap ?h b))
       else heap ?h b)"
    using Cons.prems by (intro Cons.IH index_ok_cleanup_one) auto
  have other: "gw_expired now t ?h j c = gw_expired now t h j c" if "j \<in> set order" for j c
    using that Cons.prems(2) by (intro cleanup_one_expired) auto
  have once: "\<not> gw_expired now t h j b" if "gw_expired now t h k b" "j \<in> set order" for j
    using that Cons.prems index_ok_inj [OF Cons.prems(1), of j b k] by (auto simp: gw_expired_def)
  show ?case
  proof
    show "fmlookup (sessions (foldl (cleanup_one ops now t) h (k # order))) i =
      (if i \<in> set (k # order) \<and> (\<exists>a. gw_expired now t h i a) then None else fmlookup (sessions h) i)"
      using IH other by (auto simp: cleanup_one_fields(1))
    show "heap (foldl (cleanup_one ops now t) h (k # order)) b =
      (if \<exists>j \<in> set (k # order). gw_expired now t h j b then fst (Session_Close ops (heap h b))
       else heap h b)"
      using IH other once by (auto simp: cleanup_one_fields(2))
  qed
qed simp

section \<open>The read loop\<close>

lemma not_Panic_from_opt [simp]: "from_opt e x \<noteq> Panic"
  by (cases x) simp_all

lemma go_map_err_Panic [simp]: "go_map_err f m = Panic \<longleftrightarrow> m = Panic"
  by (cases m) simp_all

lemma binary_to_internal_not_Panic: "binary_to_internal now d \<noteq> Panic"
  by (auto simp: binary_to_internal_def go_bind_Panic_iff byte_at_def tail_slice_def
      be16.read_sub_Panic_iff slice_cap_def)

lemma ToInternal_not_Panic:
  assumes "ct = ConnectionTypeWebSocket \<or> ct = ConnectionTypeQUIC"
  shows "ToInternal w now ct t d \<noteq> Panic"
proof -
  have "json_to_internal w e now bs \<noteq> Panic" for e bs
    by (simp add: json_to_internal_def go_bind_Panic_iff)
  moreover have "proto_to_internal w e now bs \<noteq> Panic" for e bs
    by (auto simp: proto_to_internal_def go_bind_Panic_iff split: list.splits)
  moreover have "text_to_internal now bs \<noteq> Panic" for bs
    by (auto simp: text_to_internal_def go_bind_Panic_iff split: list.splits)
  ultimately show ?thesis
    using assms binary_to_internal_not_Panic
    by (auto simp: ToInternal_def convertWebSocketToInternal_def convertQUICToInternal_def)
qed

lemma FromInternal_not_Panic:
  assumes "ct = ConnectionTypeWebSocket \<or> ct = ConnectionTypeQUIC"
  shows "FromInternal w ct t m \<noteq> Panic"
  using assms
  by (auto simp: FromInternal_def convertInternalToWebSocket_def convertInternalToQUIC_def
      internal_to_binary_wire Let_def)

text \<open>What one read and one write do to a WebSocket session.\<close>

definition ws_session :: "'sc Session \<Rightarrow> ws_conn \<Rightarrow> bool" where
  "ws_session s c \<longleftrightarrow> ConnType s = ConnectionTypeWebSocket \<and> wsConn s = Some c"

lemma WriteMessage_ws:
  assumes "ws_session s c"
  shows "\<exists>c'. ws_session (fst (Session_WriteMessage ops now t d s)) c' \<and> ws_in c' = ws_in c"
    and "snd (Session_WriteMessage ops now t d s) \<noteq> Panic"
  using assms
  by (auto simp: ws_session_def Session_WriteMessage_def ws_write_def Let_def)

lemma ReadMessage_ws:
  assumes "ws_session s c"
  shows "\<exists>c'. ws_session (fst (Session_ReadMessage ops now s)) c' \<and>
      ((\<exists>m. snd (Session_ReadMessage ops now s) = Ret m \<and> length (ws_in c') < length (ws_in c)) \<or>
       (\<exists>e. snd (Session_ReadMessage ops now s) = Fail e))"
  using assms
  by (auto simp: ws_session_def Session_ReadMessage_def ws_read_def Let_def
      split: list.splits option.splits)

lemma Close_ws:
  assumes "ws_session s c" "\<not> closed s"
  shows "ws_session (fst (Session_Close ops s)) (c\<lparr>ws_closed := True\<rparr>)"
  using assms by (simp add: ws_session_def Session_Close_def ws_close_def Let_def)

text \<open>The tables and the other sessions are no concern of one session's messages.\<close>

definition same_tables ::
    "addr \<Rightarrow> ('sc, 'lb, 'cb) GatewayHandler \<Rightarrow> ('sc, 'lb, 'cb) GatewayHandler \<Rightarrow> bool" where
  "same_tables a h h' \<longleftrightarrow> sessions h' = sessions h \<and> sessionsByUser h' = sessionsByUser h \<and>
     handlers h' = handlers h \<and> (\<forall>b. b \<noteq> a \<longrightarrow> heap h' b = heap h b) \<and>
     s_ID (heap h' a) = s_ID (heap h a) \<and> UserID (heap h' a) = UserID (heap h a) \<and>
     closed (heap h' a) = closed (heap h a)"

lemma same_tables_refl [simp]: "same_tables a h h"
  by (simp add: same_tables_def)

lemma same_tables_trans: "same_tables a h h' \<Longrightarrow> same_tables a h' h'' \<Longrightarrow> same_tables a h h''"
  by (simp add: same_tables_def)

lemma handleMessage_cases:
  obtains
    (conv) r e where "handleMessage ops w select now stamp ev a t d h = (h\<lparr>router := r\<rparr>, Fail e)"
      and "r = router h \<or> (\<exists>m. r = fst (Route select ev (router h) m))"
  | (panic) r where "handleMessage ops w select now stamp ev a t d h = (h\<lparr>router := r\<rparr>, Panic)"
      and "r = router h \<or> (\<exists>m. r = fst (Route select ev (router h) m))"
      and "ToInternal w stamp (ConnType (heap h a)) t d = Panic \<or>
        (\<exists>m. snd (snd (Route select ev (router h) m)) = Panic) \<or>
        (\<exists>m. FromInternal w (ConnType (heap h a)) t m = Panic)"
  | (sent) m bs where "handleMessage ops w select now stamp ev a t d h =
      (h\<lparr>router := fst (Route select ev (router h) m),
         heap := (heap h)(a := fst (Session_WriteMessage ops now t bs (heap h a)))\<rparr>,
       go_map_err SendFailed (snd (Session_WriteMessage ops now t bs (heap h a))))"
proof -
  let ?H = "handleMessage ops w select now stamp ev a t d h"
  show thesis
  proof (cases "ToInternal w stamp (ConnType (heap h a)) t d")
    case (Fail e)
    then have "?H = (h\<lparr>router := router h\<rparr>, Fail (ToInternalFailed e))"
      by (simp add: handleMessage_def)
    then show thesis by (rule conv) simp
  next
    case Panic
    then have "?H = (h\<lparr>router := router h\<rparr>, Panic)" by (simp add: handleMessage_def)
    then show thesis by (rule panic) (simp_all add: Panic)
  next
    case (Ret m0)
    define m where "m = (let m = m0\<lparr>SessionID := s_ID (heap h a)\<rparr>
      in if SourceService m = [] then m\<lparr>SourceService := ''gateway''\<rparr> else m)"
    obtain r m' res where R: "Route select ev (router h) m = (r, m', res)" by (rule prod_cases3)
    have H: "?H = with_recv (h\<lparr>router := r\<rparr>) (go_map_err RouteFailed res) (\<lambda>response.
       with_recv (h\<lparr>router := r\<rparr>) (go_map_err FromInternalFailed
         (FromInternal w (ConnType (heap h a)) t response)) (\<lambda>bs.
       let (s, res) = Session_WriteMessage ops now t bs (heap h a)
       in (h\<lparr>router := r, heap := (heap h)(a := s)\<rparr>, go_map_err SendFailed res)))"
      using R by (simp add: handleMessage_def Ret m_def Let_def)
    have r: "r = fst (Route select ev (router h) m)" using R by simp
    then have rr: "r = router h \<or> (\<exists>m. r = fst (Route select ev (router h) m))" by blast
    show thesis
    proof (cases res)
      case (Fail e)
      then show thesis using H by (intro conv [OF _ rr]) auto
    next
      case Panic
      have "\<exists>m. snd (snd (Route select ev (router h) m)) = Panic"
        using R Panic by (metis snd_conv)
      then show thesis using H Panic by (intro panic [OF _ rr]) auto
    next
      case (Ret x)
      show thesis
      proof (cases "FromInternal w (ConnType (heap h a)) t x")
        case (Ret bs)
        then show thesis using H \<open>res = Ret x\<close>
          by (intro sent [where m = m and bs = bs]) (simp add: r Let_def split_def)
      next
        case (Fail e)
        then show thesis using H Ret by (intro conv [OF _ rr]) auto
      next
        case Panic
        then show thesis using H Ret by (intro panic [OF _ rr]) auto
      qed
    qed
  qed
qed

context load_balancer
begin

lemma Route_not_Panic:
  assumes "level (loadBalancer r) n" and "n < max_int64"
  shows "snd (snd (Route select ev r msg)) \<noteq> Panic"
  using route_select_not_Panic [OF assms, of msg]
  by (auto simp: Route_def Let_def split_def go_bind_Panic_iff split: route_event.splits)

lemma Route_level:
  assumes "level (loadBalancer r) n" and "n < max_int64"
  shows "level (loadBalancer (fst (Route select ev r msg))) (n + 1)"
  using route_select_level [OF assms, of msg] by (simp add: Route_def Let_def split_def)

lemma handleMessage_ws:
  assumes ws: "ws_session (heap h a) c" and lv: "level (loadBalancer (router h)) n" "n < max_int64"
  shows "snd (handleMessage ops w select now stamp ev a t d h) \<noteq> Panic"
    and "level (loadBalancer (router (fst (handleMessage ops w select now stamp ev a t d h)))) (n + 1)"
    and "same_tables a h (fst (handleMessage ops w select now stamp ev a t d h))"
    and "\<exists>c'. ws_session (heap (fst (handleMessage ops w select now stamp ev a t d h)) a) c' \<and>
      ws_in c' = ws_in c"
proof -
  have ct: "ConnType (heap h a) = ConnectionTypeWebSocket" using ws by (simp add: ws_session_def)
  have up1: "level (loadBalancer (router h)) (n + 1)" by (rule level_mono [OF lv(1)]) simp
  note [simp] = Route_level [OF lv] up1
  have "snd (handleMessage ops w select now stamp ev a t d h) \<noteq> Panic \<and>
    level (loadBalancer (router (fst (handleMessage ops w select now stamp ev a t d h)))) (n + 1) \<and>
    same_tables a h (fst (handleMessage ops w select now stamp ev a t d h)) \<and>
    (\<exists>c'. ws_session (heap (fst (handleMessage ops w select now stamp ev a t d h)) a) c' \<and>
      ws_in c' = ws_in c)"
  proof (cases rule: handleMessage_cases
      [where ops = ops and w = w and select = select and now = now and stamp = stamp and ev = ev
        and a = a and t = t and d = d and h = h])
    case (conv r e)
    then show ?thesis using ws by (auto simp: same_tables_def)
  next
    case (panic r)
    then show ?thesis
      using ct Route_not_Panic [OF lv] ToInternal_not_Panic [of "ConnType (heap h a)"]
        FromInternal_not_Panic [of "ConnType (heap h a)"] by blast
  next
    case (sent m bs)
    then show ?thesis
      using WriteMessage_ws [OF ws, of ops now t bs] by (auto simp: same_tables_def)
  qed
  then show "snd (handleMessage ops w select now stamp ev a t d h) \<noteq> Panic"
    and "level (loadBalancer (router (fst (handleMessage ops w select now stamp ev a t d h)))) (n + 1)"
    and "same_tables a h (fst (handleMessage ops w select now stamp ev a t d h))"
    and "\<exists>c'. ws_session (heap (fst (handleMessage ops w select now stamp ev a t d h)) a) c' \<and>
      ws_in c' = ws_in c"
    by blast+
qed

end

text \<open>How a session has ended.\<close>

definition session_gone ::
    "addr \<Rightarrow> ('sc, 'lb, 'cb) GatewayHandler \<Rightarrow> ('sc, 'lb, 'cb) GatewayHandler \<Rightarrow> bool" where
  "session_gone a h h' \<longleftrightarrow>
     sessions h' = fmdrop (s_ID (heap h a)) (sessions h) \<and> closed (heap h' a) \<and>
     (\<forall>b. b \<noteq> a \<longrightarrow> heap h' b = heap h b) \<and>
     (\<not> closed (heap h a) \<longrightarrow> (\<exists>c. ws_session (heap h' a) c \<and> ws_closed c))"

lemma session_gone_end:
  assumes "same_tables a h h'" "ws_session (heap h' a) c"
  shows "session_gone a h (end_session ops a h')"
proof -
  have "\<exists>c'. ws_session (fst (Session_Close ops (heap h' a))) c' \<and> ws_closed c'"
    if "\<not> closed (heap h a)"
    using Close_ws [OF assms(2), of ops] that assms(1) by (fastforce simp: same_tables_def)
  then show ?thesis
    using assms(1) by (simp add: session_gone_def end_session_fields same_tables_def)
qed

lemma session_gone_same: "same_tables a h h' \<Longrightarrow> session_gone a h' h'' \<Longrightarrow> session_gone a h h''"
  by (simp add: session_gone_def same_tables_def)

lemma same_tables_upd:
  assumes "s_ID s = s_ID (heap h a)" "UserID s = UserID (heap h a)" "closed s = closed (heap h a)"
  shows "same_tables a h (h\<lparr>heap := (heap h)(a := s)\<rparr>)"
  using assms by (simp add: same_tables_def)

context load_balancer
begin

lemma session_loop_ends:
  assumes "ws_session (heap h a) c" "level (loadBalancer (router h)) n"
    and "n + int (length rds) \<le> max_int64" "length (ws_in c) < length rds"
  shows "\<exists>h'. handleSessionMessages ops w select errText a rds h = Some (Ret h') \<and>
    session_gone a h h'"
  using assms
proof (induction rds arbitrary: h c n)
  case (Cons rd rds)
  let ?R = "Session_ReadMessage ops (rd_now rd) (heap h a)"
  let ?h1 = "h\<lparr>heap := (heap h)(a := fst ?R)\<rparr>"
  have st1: "same_tables a h ?h1" by (rule same_tables_upd) simp_all
  obtain c1 where c1: "ws_session (heap ?h1 a) c1"
    and cs: "(\<exists>m. snd ?R = Ret m \<and> length (ws_in c1) < length (ws_in c)) \<or> (\<exists>e. snd ?R = Fail e)"
    using ReadMessage_ws [OF Cons.prems(1), of ops "rd_now rd"] by auto
  from cs show ?case
  proof
    assume "\<exists>e. snd ?R = Fail e"
    then show ?thesis
      using session_gone_end [OF st1 c1, of ops] by (auto simp: Let_def split_def)
  next
    assume "\<exists>m. snd ?R = Ret m \<and> length (ws_in c1) < length (ws_in c)"
    then obtain t d where td: "snd ?R = Ret (t, d)" and less: "length (ws_in c1) < length (ws_in c)"
      by auto
    let ?H = "handleMessage ops w select (rd_now rd) (rd_stamp rd) (rd_event rd) a t d ?h1"
    have lv: "level (loadBalancer (router ?h1)) n" "n < max_int64" using Cons.prems(2,3) by auto
    note H = handleMessage_ws [OF c1 lv, of ops w "rd_now rd" "rd_stamp rd" "rd_event rd" t d]
    obtain c2 where c2: "ws_session (heap (fst ?H) a) c2" "ws_in c2 = ws_in c1" using H(4) by auto
    have st2: "same_tables a h (fst ?H)" by (rule same_tables_trans [OF st1 H(3)])
    have next_round: "\<exists>h'. handleSessionMessages ops w select errText a rds h3 = Some (Ret h') \<and>
        session_gone a h h'"
      if "ws_session (heap h3 a) c3" "ws_in c3 = ws_in c1" "same_tables a h h3"
        "router h3 = router (fst ?H)" for h3 c3
    proof -
      have "\<exists>h'. handleSessionMessages ops w select errText a rds h3 = Some (Ret h') \<and>
          session_gone a h3 h'"
        using that H(2) Cons.prems(3,4) less by (intro Cons.IH [of h3 c3 "n + 1"]) auto
      then show ?thesis using session_gone_same [OF that(3)] by blast
    qed
    show ?thesis
    proof (cases "snd ?H")
      case (Ret u)
      then show ?thesis using td next_round [OF c2 st2] by (simp add: Let_def split_def)
    next
      case Panic
      then show ?thesis using H(1) by simp
    next
      case (Fail e)
      let ?W = "Session_WriteMessage ops (rd_now rd) t (bytes_of (''Error: '' @ errText e)) (heap (fst ?H) a)"
      let ?h3 = "(fst ?H)\<lparr>heap := (heap (fst ?H))(a := fst ?W)\<rparr>"
      obtain c3 where c3: "ws_session (heap ?h3 a) c3" "ws_in c3 = ws_in c1"
        using WriteMessage_ws(1) [OF c2(1), of ops "rd_now rd" t] c2(2) by auto
      have st3: "same_tables a h ?h3"
        by (rule same_tables_trans [OF st2 same_tables_upd]) simp_all
      show ?thesis
      proof (cases "snd ?W")
        case (Ret u)
        then show ?thesis using td \<open>snd ?H = Fail e\<close> next_round [OF c3 st3]
          by (simp add: Let_def split_def)
      next
        case Panic
        then show ?thesis using WriteMessage_ws(2) [OF c2(1)] by blast
      next
        case (Fail e')
        then show ?thesis using td \<open>snd ?H = Fail e\<close> session_gone_end [OF st3 c3(1), of ops]
          by (auto simp: Let_def split_def)
      qed
    qed
  qed
qed simp

end

section \<open>Frames on a QUIC stream\<close>

lemma qs_write_ok: "qs_fail q = [] \<Longrightarrow> qs_write bs q = (q\<lparr>qs_out := qs_out q @ bs\<rparr>, Ret ())"
  by (simp add: qs_write_def)

lemma write_quic_ok:
  "qs_fail q = [] \<Longrightarrow> write_quic t data q =
    (q\<lparr>qs_out := qs_out q @ be32 (word_of_nat (length data)) @ [word_of_int t] @ data\<rparr>, Ret ())"
  by (simp add: write_quic_def qs_write_ok)

lemma read_quic_frame:
  assumes "qs_in q = be32 (word_of_nat (length data)) @ [b] @ data @ rest"
    and "length data < 2 ^ 32" and "data \<noteq> []"
  defines "k \<equiv> min (length data) (Suc (qs_chunk q))"
  shows "read_quic q = (q\<lparr>qs_in := drop k data @ rest\<rparr>,
    Ret (int (unat b), exact_slice (take k data @ replicate (length data - k) 0)))"
proof -
  let ?n = "word_of_nat (length data) :: u32"
  have n: "unat ?n = length data" using assms(2) by (simp add: unat_of_nat)
  have r1: "qs_read_full 4 q = (q\<lparr>qs_in := [b] @ data @ rest\<rparr>, Ret (be32 ?n))"
    using assms(1) by (simp add: qs_read_full_def)
  have r2: "qs_read_full (Suc 0) (q\<lparr>qs_in := b # data @ rest\<rparr>) = (q\<lparr>qs_in := data @ rest\<rparr>, Ret [b])"
    by (simp add: qs_read_full_def)
  have "min (length data) (min (Suc (qs_chunk q)) (length data + length rest)) = k"
    by (simp add: k_def)
  then have r3: "qs_read_some (length data) (q\<lparr>qs_in := data @ rest\<rparr>) =
      (q\<lparr>qs_in := drop k data @ rest\<rparr>, Ret (take k data))"
    using assms(3) by (simp add: qs_read_some_def Let_def k_def)
  have g: "(read_with get32 (Ret (be32 ?n)) :: (sess_error, u32) go) = Ret ?n"
    using be32.get_put [of ?n "[]"] by (simp add: read_with_def)
  have k: "length (take k data) = k" by (simp add: k_def)
  show ?thesis
    by (simp add: read_quic_def Let_def r1 r2 r3 g n k byte_at_def exact_slice_def del: length_take)
qed

section \<open>Writing to many sessions\<close>

lemma write_fold:
  assumes "distinct as"
  shows "foldl (\<lambda>st a. st(a := fst (Session_WriteMessage ops now t d (st a)))) st as b =
    (if b \<in> set as then fst (Session_WriteMessage ops now t d (st b)) else st b)"
  using assms by (induction as arbitrary: st) auto

lemma set_map_filter: "set (List.map_filter f xs) = {v. \<exists>x \<in> set xs. f x = Some v}"
  by (induction xs) (auto split: option.splits)

lemma map_filter_distinct:
  assumes "distinct xs"
    and "\<And>x y v. x \<in> set xs \<Longrightarrow> y \<in> set xs \<Longrightarrow> f x = Some v \<Longrightarrow> f y = Some v \<Longrightarrow> x = y"
  shows "distinct (List.map_filter f xs)"
  using assms
proof (induction xs)
  case (Cons x xs)
  have IH: "distinct (List.map_filter f xs)" using Cons.prems by (intro Cons.IH) auto
  show ?case
  proof (cases "f x")
    case (Some v)
    have "v \<notin> set (List.map_filter f xs)"
      using Cons.prems(1) Cons.prems(2) [of x _ v] Some by (auto simp: set_map_filter)
    then show ?thesis using IH Some by simp
  qed (simp add: IH)
qed simp

lemma write_all_heap:
  assumes "distinct as"
  shows "heap (write_all ops now t d as h) b =
    (if b \<in> set as then fst (Session_WriteMessage ops now t d (heap h b)) else heap h b)"
  by (simp add: write_all_def write_fold [OF assms])

section \<open>Runs of the gateway\<close>

text \<open>
  What the gateway does over its life, one handler at a time. IDs of new sessions are fresh; a
  session may get its user at any time.
\<close>

inductive gw_step ::
    "'sc secure_ops \<Rightarrow> wire \<Rightarrow> 'lb selector \<Rightarrow> ('sc, 'lb, 'cb) GatewayHandler \<Rightarrow>
      ('sc, 'lb, 'cb) GatewayHandler \<Rightarrow> bool"
  for ops w select where
  connect_ws: "fmlookup (sessions h) i = None \<Longrightarrow> a |\<notin>| fmran (sessions h) \<Longrightarrow>
    gw_step ops w select h (handleWebSocketConnection a i now c h)"
| connect_secure: "fmlookup (sessions h) i = None \<Longrightarrow> a |\<notin>| fmran (sessions h) \<Longrightarrow>
    gw_step ops w select h (handleSecureWebSocketConnection a i now sc h)"
| connect_quic: "fmlookup (sessions h) i = None \<Longrightarrow> a |\<notin>| fmran (sessions h) \<Longrightarrow>
    gw_step ops w select h (handleQUICConnection a i now qc h)"
| set_user: "gw_step ops w select h (h\<lparr>heap := (heap h)(a := SetUserID u (heap h a))\<rparr>)"
| read: "gw_step ops w select h
    (h\<lparr>heap := (heap h)(a := fst (Session_ReadMessage ops now (heap h a)))\<rparr>)"
| message: "gw_step ops w select h (fst (handleMessage ops w select now stamp ev a t d h))"
| error_reply: "gw_step ops w select h
    (h\<lparr>heap := (heap h)(a := fst (Session_WriteMessage ops now t d (heap h a)))\<rparr>)"
| session_end: "gw_step ops w select h (end_session ops a h)"
| cleanup: "gw_step ops w select h (cleanupInactiveSessions ops order now secs h)"
| broadcast: "gw_step ops w select h (BroadcastToAll ops order now t d h)"
| broadcast_user: "gw_step ops w select h (fst (BroadcastToUser ops order now u t d h))"

inductive gw_reach ::
    "'sc secure_ops \<Rightarrow> wire \<Rightarrow> 'lb selector \<Rightarrow> ('sc, 'lb, 'cb) GatewayHandler \<Rightarrow> bool"
  for ops w select where
  start: "gw_reach ops w select (NewGatewayHandler store lb timeoutMs svcMap)"
| step: "gw_reach ops w select h \<Longrightarrow> gw_step ops w select h h' \<Longrightarrow> gw_reach ops w select h'"

lemma unindex_empty [simp]: "unindex u i fmempty = fmempty"
  by (simp add: unindex_def)

lemma handleMessage_tables:
  "sessions (fst (handleMessage ops w select now stamp ev a t d h)) = sessions h"
  "sessionsByUser (fst (handleMessage ops w select now stamp ev a t d h)) = sessionsByUser h"
  by (cases rule: handleMessage_cases
      [where ops = ops and w = w and select = select and now = now and stamp = stamp and ev = ev
        and a = a and t = t and d = d and h = h]; simp)+

lemma cleanup_users_empty:
  assumes "sessionsByUser h = fmempty"
  shows "sessionsByUser (cleanupInactiveSessions ops order now secs h) = fmempty"
proof -
  have one: "sessionsByUser (cleanup_one ops now t h i) = fmempty"
    if "sessionsByUser h = fmempty" for h :: "('a, 'b, 'c) GatewayHandler" and t i
    using that by (auto simp: cleanup_one_def split: option.splits)
  have "sessionsByUser (foldl (cleanup_one ops now t) h order) = fmempty" for t
    using assms by (induction order arbitrary: h) (auto simp: one)
  then show ?thesis by (simp add: cleanupInactiveSessions_def)
qed

lemma gw_step_users_empty:
  assumes "gw_step ops w select h h'" "sessionsByUser h = fmempty"
  shows "sessionsByUser h' = fmempty"
  using assms
  by (cases rule: gw_step.cases)
    (auto simp: handleWebSocketConnection_def handleSecureWebSocketConnection_def
      handleQUICConnection_def registerSession_def NewSession_def NewSessionWithQUIC_def
      NewSessionWithSecureConnection_def handleMessage_tables end_session_def Let_def
      unregisterSession_def cleanup_users_empty BroadcastToAll_def BroadcastToUser_def
      write_all_def split: option.splits)

lemma gw_reach_users_empty: "gw_reach ops w select h \<Longrightarrow> sessionsByUser h = fmempty"
  by (induction rule: gw_reach.induct)
    (auto simp: NewGatewayHandler_def registerInternalHandlers_def Let_def
      intro: gw_step_users_empty)

section \<open>Locks of the clean-up and of a reading session\<close>

text \<open>
  \<^verbatim>\<open>ReadMessage\<close> holds the read lock of its session while it waits for a frame; the
  clean-up holds \<^verbatim>\<open>sessionsMutex\<close> while it closes a session, for which it needs the write
  lock of that session. The model has one session, its reader, the clean-up, and the operations on
  the session table as seen by \<^verbatim>\<open>sessionsMutex\<close>.
\<close>

datatype cleaner = Sleeping | Scanning | Closing

datatype lock_event = Frame | ReadAgain | Tick | FoundInactive | Closed | TableOp

record lock_state =
  reading :: bool
  cleaner_at :: cleaner

inductive lock_step :: "lock_state \<Rightarrow> lock_event \<Rightarrow> lock_state \<Rightarrow> bool" where
  frame: "reading s \<Longrightarrow> lock_step s Frame (s\<lparr>reading := False\<rparr>)"
| read_again: "\<not> reading s \<Longrightarrow> cleaner_at s \<noteq> Closing \<Longrightarrow> lock_step s ReadAgain (s\<lparr>reading := True\<rparr>)"
| tick: "cleaner_at s = Sleeping \<Longrightarrow> lock_step s Tick (s\<lparr>cleaner_at := Scanning\<rparr>)"
| found: "cleaner_at s = Scanning \<Longrightarrow> lock_step s FoundInactive (s\<lparr>cleaner_at := Closing\<rparr>)"
| close_done: "cleaner_at s = Closing \<Longrightarrow> \<not> reading s \<Longrightarrow> lock_step s Closed (s\<lparr>cleaner_at := Sleeping\<rparr>)"
| table_op: "cleaner_at s = Sleeping \<Longrightarrow> lock_step s TableOp s"

inductive lock_run :: "lock_state \<Rightarrow> lock_event list \<Rightarrow> lock_state \<Rightarrow> bool" where
  run_nil: "lock_run s [] s"
| run_cons: "lock_step s e s' \<Longrightarrow> lock_run s' es s'' \<Longrightarrow> lock_run s (e # es) s''"

inductive_cases lock_stepE: "lock_step s e s'"

section \<open>A sample gateway\<close>

definition sample_secure :: "unit secure_ops" where
  "sample_secure = \<lparr>sc_receive = \<lambda>sc. (sc, Ret [1, 2, 3]), sc_send = \<lambda>_ sc. (sc, Ret ()),
     sc_close = \<lambda>sc. (sc, Ret ())\<rparr>"

definition sample_conn :: ws_conn where
  "sample_conn = \<lparr>ws_in = [Some (1, exact_slice [123, 125])], ws_out = [], ws_fail = [],
     ws_closed = False, ws_close_fail = False\<rparr>"

definition sample_gateway :: "(unit, counter, nat) GatewayHandler" where
  "sample_gateway = \<lparr>heap = \<lambda>_. (NewSession ''s1'' ConnectionTypeWebSocket 0 sample_conn)\<lparr>UserID := ''u''\<rparr>,
     sessions = fmupd ''s1'' 0 fmempty, sessionsByUser = fmupd ''u'' (fmupd ''s1'' 0 fmempty) fmempty,
     router = sample_router, handlers = NewHandlerRegistry\<rparr>"

definition sample_round :: round where
  "sample_round = \<lparr>rd_now = 10, rd_stamp = 7, rd_event = ReplyAt 9\<rparr>"

lemma sample_index_ok: "index_ok sample_gateway"
  by (rule index_ok_I)
    (auto simp: sample_gateway_def NewSession_def indexed_def split: if_splits)

section \<open>Properties\<close>

text \<open>C3: the read loop of a WebSocket session returns: with either balancer (its counters below
  the largest integer), after at most one more round than there are frames to come, it has returned
  without a panic; then the session is closed together with its connection and is out of the
  session table, and no other session has changed.\<close>

theorem session_loop_returns:
  assumes "ws_session (heap h a) c" and "counters_upto (loadBalancer (router h)) n"
    and "n + int (length rds) \<le> max_int64" and "length (ws_in c) < length rds"
  shows "(\<exists>h'. handleSessionMessages ops w RoundRobin_SelectInstance errText a rds h = Some (Ret h') \<and>
      session_gone a h h') \<and>
    (\<exists>h'. handleSessionMessages ops w Weighted_SelectInstance errText a rds h = Some (Ret h') \<and>
      session_gone a h h')"
  using round_robin.session_loop_ends [OF assms, of ops w errText]
    weighted.session_loop_ends [OF assms, of ops w errText] by blast

theorem session_loop_returns_witness:
  "\<exists>h'. handleSessionMessages sample_secure sample_any RoundRobin_SelectInstance (\<lambda>_. [])
      0 [sample_round, sample_round] sample_gateway = Some (Ret h') \<and>
    session_gone 0 sample_gateway h'"
proof -
  have "counters_upto (loadBalancer (router sample_gateway)) 0"
    by (simp add: sample_gateway_def sample_router_def RegisterServiceType_def NewMessageRouter_def
        counters_upto_fresh)
  moreover have "ws_session (heap sample_gateway 0) sample_conn"
    by (simp add: ws_session_def sample_gateway_def NewSession_def)
  moreover have "length (ws_in sample_conn) < length [sample_round, sample_round]"
    by (simp add: sample_conn_def)
  ultimately show ?thesis
    using session_loop_returns [of sample_gateway 0 sample_conn 0 "[sample_round, sample_round]"]
    by (simp add: max_int64_def)
qed



text \<open>The clean-up removes and closes exactly the sessions that have been inactive for
  longer than the limit, whatever the order in which it visits the table.\<close>

theorem cleanup_removes_inactive:
  assumes "index_ok h" and "distinct order" and "set order = fset (fmdom (sessions h))"
    and "0 \<le> secs" and "secs * 1000000000 \<le> max_int64"
  shows "fmlookup (sessions (cleanupInactiveSessions ops order now secs h)) i =
      (case fmlookup (sessions h) i of
         None \<Rightarrow> None
       | Some a \<Rightarrow> if now - LastActivity (heap h a) \<le> secs * 1000000000 then Some a else None) \<and>
    heap (cleanupInactiveSessions ops order now secs h) b =
      (if \<exists>j. fmlookup (sessions h) j = Some b \<and> secs * 1000000000 < now - LastActivity (heap h b)
       then fst (Session_Close ops (heap h b)) else heap h b)"
proof -
  have "wrap64 (secs * 1000000000) = secs * 1000000000"
    using assms(4,5) by (intro wrap64_id) (auto simp: min_int64_def)
  moreover have "j \<in> set order" if "fmlookup (sessions h) j = Some a" for j a
    using fmdomI [OF that] by (simp add: assms(3))
  ultimately show ?thesis
    using cleanup_fold [OF assms(1,2), of ops now "secs * 1000000000" i b]
    by (fastforce simp: cleanupInactiveSessions_def gw_expired_def split: option.splits)
qed

theorem cleanup_removes_inactive_witness:
  "fmlookup (sessions (cleanupInactiveSessions sample_secure [''s1''] 2000000000 1 sample_gateway))
     ''s1'' = None"
proof -
  have "set [''s1''] = fset (fmdom (sessions sample_gateway))" by (simp add: sample_gateway_def)
  from cleanup_removes_inactive [OF sample_index_ok _ this, of 1 sample_secure 2000000000 "''s1''" 0]
  show ?thesis by (simp add: max_int64_def sample_gateway_def NewSession_def)
qed

text \<open>C39: over any run of the gateway, whichever users its sessions get, the user index is
  empty: no session has a user when it is registered and \<open>SetUserID\<close> does not index it. So the
  gateway counts no users and every broadcast to a user fails.\<close>

theorem users_never_indexed:
  assumes "gw_reach ops w select h"
  shows "GW_GetUserCount h = 0 \<and>
    BroadcastToUser ops order now u t d h = (h, Fail (NoSessionsFor u))"
  using gw_reach_users_empty [OF assms]
  by (simp add: GW_GetUserCount_def BroadcastToUser_def GetUserSessions_def)

theorem users_never_indexed_witness:
  "gw_reach sample_secure sample_any RoundRobin_SelectInstance
      (NewGatewayHandler (heap sample_gateway) fmempty 5 [(2, ''chat'')] ::
        (unit, counter, nat) GatewayHandler) \<and>
    snd (BroadcastToUser sample_secure [''s1''] 0 ''u'' 1 [7]
      (NewGatewayHandler (heap sample_gateway) fmempty 5 [(2, ''chat'')] ::
        (unit, counter, nat) GatewayHandler)) = Fail (NoSessionsFor ''u'')"
proof -
  have g: "gw_reach sample_secure sample_any RoundRobin_SelectInstance
      (NewGatewayHandler (heap sample_gateway) fmempty 5 [(2, ''chat'')] ::
        (unit, counter, nat) GatewayHandler)"
    by (rule gw_reach.start)
  from users_never_indexed [OF g, of "[''s1'']" 0 "''u''" 1 "[7]"] g show ?thesis by simp
qed

text \<open>C40: no message of a secure WebSocket session is ever routed: what its read returns is
  marked as a binary frame (2), which is the number of the text format, and that format is
  unsupported for WebSocket connections.\<close>

theorem secure_messages_rejected:
  assumes "ConnType (heap h a) = ConnectionTypeWebSocket" and "wsConn (heap h a) = None"
    and "Session_ReadMessage ops now (heap h a) = (s, Ret (t, d))"
  shows "handleMessage ops w select now stamp ev a t d (h\<lparr>heap := (heap h)(a := s)\<rparr>) =
    (h\<lparr>heap := (heap h)(a := s)\<rparr>, Fail (ToInternalFailed ErrUnsupportedFormat))"
proof -
  have t: "t = websocket_BinaryMessage" and s: "ConnType s = ConnectionTypeWebSocket"
    using assms ReadMessage_keeps(3) [of ops now "heap h a"]
    by (auto simp: Session_ReadMessage_def Let_def split_def go_bind_Ret_iff
        split: option.splits if_splits)
  show ?thesis
    by (simp add: handleMessage_def t s ToInternal_def convertWebSocketToInternal_def
        websocket_BinaryMessage_def FormatTypeBinary_def FormatTypeJSON_def FormatTypeProtobuf_def)
qed

theorem secure_messages_rejected_witness:
  "snd (handleMessage sample_secure sample_any RoundRobin_SelectInstance 5 7 (ReplyAt 9) 0 2
      (exact_slice [1, 2, 3]) (sample_gateway\<lparr>heap := (heap sample_gateway)(0 :=
        NewSessionWithSecureConnection ''s2'' ConnectionTypeWebSocket 5 ())\<rparr>)) =
    Fail (ToInternalFailed ErrUnsupportedFormat)"
proof -
  let ?s = "NewSessionWithSecureConnection ''s2'' ConnectionTypeWebSocket 5 ()"
  let ?g = "sample_gateway\<lparr>heap := (heap sample_gateway)(0 := ?s)\<rparr>"
  have "Session_ReadMessage sample_secure 5 (heap ?g 0) = (?s, Ret (2, exact_slice [1, 2, 3]))"
    by (simp add: Session_ReadMessage_def NewSessionWithSecureConnection_def sample_secure_def
        websocket_BinaryMessage_def)
  from secure_messages_rejected [OF _ _ this] show ?thesis
    by (simp add: NewSessionWithSecureConnection_def)
qed

text \<open>A frame written to a QUIC stream is read back with its type byte and with the part of
  its data that one read of the stream returns, the rest filled with zero bytes; it is the data that
  was written when one read returns all of it.\<close>

theorem quic_frame_round_trip:
  assumes "qs_fail q = []" and "qs_out q = []" and "length data < 2 ^ 32" and "data \<noteq> []"
    and "qs_in q' = qs_out (fst (write_quic t data q)) @ rest"
  shows "snd (read_quic q') =
      (let k = min (length data) (Suc (qs_chunk q'))
       in Ret (t mod 256, exact_slice (take k data @ replicate (length data - k) 0))) \<and>
    (length data \<le> Suc (qs_chunk q') \<longrightarrow>
      read_quic q' = (q'\<lparr>qs_in := rest\<rparr>, Ret (t mod 256, exact_slice data)))"
proof -
  have "qs_in q' = be32 (word_of_nat (length data)) @ [word_of_int t] @ data @ rest"
    using assms(5) by (simp add: write_quic_ok [OF assms(1)] assms(2))
  from read_quic_frame [OF this assms(3,4)] show ?thesis
    by (simp add: Let_def unsigned_of_int take_bit_eq_mod min_def)
qed

theorem quic_frame_round_trip_witness:
  "snd (read_quic \<lparr>qs_in = [0, 0, 0, 3, 1, 7, 8, 9], qs_chunk = 1, qs_out = [], qs_fail = [],
     qs_closed = False\<rparr>) = Ret (1, exact_slice [7, 8, 0])"
proof -
  let ?q = "\<lparr>qs_in = [], qs_chunk = 0, qs_out = [], qs_fail = [], qs_closed = False\<rparr>"
  have four: "4 = Suc (Suc (Suc (Suc 0)))" by simp
  have "be32 3 = [0, 0, 0, 3]"
    unfolding be32_def put_be_def four by simp
  then have out: "qs_out (fst (write_quic 1 [7, 8, 9] ?q)) = [0, 0, 0, 3, 1, 7, 8, 9]"
    by (simp add: write_quic_ok)
  show ?thesis
    using quic_frame_round_trip [of ?q "[7, 8, 9]" "\<lparr>qs_in = [0, 0, 0, 3, 1, 7, 8, 9],
      qs_chunk = 1, qs_out = [], qs_fail = [], qs_closed = False\<rparr>" 1 "[]"] out
    by (simp add: Let_def)
qed

text \<open>Removing a session from the session manager, as the heartbeat check does, marks it
  closed but leaves its connection open, and a later close of the session does nothing.\<close>

theorem RemoveSession_leaves_connection:
  assumes "fmlookup (sm_sessions sm) i = Some a"
  shows "(case SM_RemoveSession i sm of (sm', res) \<Rightarrow> res = Ret () \<and>
     SM_GetSession i sm' = None \<and>
     Session_Close ops (sm_heap sm' a) = ((sm_heap sm a)\<lparr>closed := True\<rparr>, Ret ()))"
  using assms by (simp add: SM_RemoveSession_def SM_GetSession_def Session_Close_def)

theorem RemoveSession_leaves_connection_witness:
  "let sm = \<lparr>sm_heap = heap sample_gateway, sm_sessions = sessions sample_gateway, heartbeatTTL = 5\<rparr>
   in wsConn (fst (Session_Close sample_secure (sm_heap (fst (SM_RemoveSession ''s1'' sm)) 0))) =
     Some sample_conn \<and> \<not> ws_closed sample_conn"
proof -
  let ?sm = "\<lparr>sm_heap = heap sample_gateway, sm_sessions = sessions sample_gateway, heartbeatTTL = 5\<rparr>"
  have "fmlookup (sm_sessions ?sm) ''s1'' = Some 0" by (simp add: sample_gateway_def)
  from RemoveSession_leaves_connection [OF this, of sample_secure] show ?thesis
    by (simp add: Let_def split_def sample_gateway_def NewSession_def sample_conn_def)
qed

text \<open>A broadcast writes its frame once to every open WebSocket session of the table and
  changes no session outside the table.\<close>

theorem BroadcastToAll_reaches:
  assumes "index_ok h" and "distinct order" and "set order = fset (fmdom (sessions h))"
  shows "(\<forall>i b c. fmlookup (sessions h) i = Some b \<and> ws_session (heap h b) c \<and>
        \<not> closed (heap h b) \<and> ws_fail c = [] \<longrightarrow>
      ws_session (heap (BroadcastToAll ops order now t d h) b) (c\<lparr>ws_out := ws_out c @ [(t, d)]\<rparr>)) \<and>
    (\<forall>b. b |\<notin>| fmran (sessions h) \<longrightarrow> heap (BroadcastToAll ops order now t d h) b = heap h b)"
proof -
  let ?as = "List.map_filter (fmlookup (sessions h)) order"
  have d: "distinct ?as"
    using index_ok_inj [OF assms(1)] by (intro map_filter_distinct assms(2))
  have mem: "b \<in> set ?as \<longleftrightarrow> (\<exists>i. fmlookup (sessions h) i = Some b)" for b
    using assms(3) by (auto simp: set_map_filter dest: fmdomI)
  show ?thesis
  proof (intro conjI allI impI)
    fix i b c
    assume "fmlookup (sessions h) i = Some b \<and> ws_session (heap h b) c \<and>
        \<not> closed (heap h b) \<and> ws_fail c = []"
    moreover from this have "b \<in> set ?as" using mem by blast
    ultimately show "ws_session (heap (BroadcastToAll ops order now t d h) b)
        (c\<lparr>ws_out := ws_out c @ [(t, d)]\<rparr>)"
      by (simp add: BroadcastToAll_def write_all_heap [OF d] ws_session_def
          Session_WriteMessage_def ws_write_def Let_def)
  next
    fix b assume "b |\<notin>| fmran (sessions h)"
    then have "b \<notin> set ?as" using mem by (auto intro: fmranI)
    then show "heap (BroadcastToAll ops order now t d h) b = heap h b"
      by (simp add: BroadcastToAll_def write_all_heap [OF d])
  qed
qed

theorem BroadcastToAll_reaches_witness:
  "ws_session (heap (BroadcastToAll sample_secure [''s1''] 4 1 [65] sample_gateway) 0)
    (sample_conn\<lparr>ws_out := [(1, [65])]\<rparr>)"
proof -
  have "set [''s1''] = fset (fmdom (sessions sample_gateway))" by (simp add: sample_gateway_def)
  note all = BroadcastToAll_reaches [OF sample_index_ok _ this, of sample_secure 4 1 "[65]"]
  moreover have "fmlookup (sessions sample_gateway) ''s1'' = Some 0 \<and>
      ws_session (heap sample_gateway 0) sample_conn \<and> \<not> closed (heap sample_gateway 0) \<and>
      ws_fail sample_conn = []"
    by (simp add: sample_gateway_def NewSession_def ws_session_def sample_conn_def)
  ultimately have "ws_session (heap (BroadcastToAll sample_secure [''s1''] 4 1 [65] sample_gateway) 0)
      (sample_conn\<lparr>ws_out := ws_out sample_conn @ [(1, [65])]\<rparr>)"
    by fastforce
  then show ?thesis by (simp add: sample_conn_def)
qed

text \<open>Once the clean-up has found a session inactive whose reader waits for a frame, nothing
  happens any more until the client of that session sends one: no operation on the session table, no
  further clean-up.\<close>

theorem cleanup_waits_for_client:
  assumes "lock_run s es s'" and "reading s" and "cleaner_at s = Closing" and "es \<noteq> []"
  shows "hd es = Frame"
  using assms by (cases rule: lock_run.cases) (auto elim: lock_stepE)

theorem cleanup_waits_for_client_witness:
  "\<exists>s es s'. lock_run s es s' \<and> es \<noteq> [] \<and> hd es = Frame"
proof -
  let ?s = "\<lparr>reading = True, cleaner_at = Closing\<rparr>"
  let ?t = "?s\<lparr>reading := False\<rparr>"
  have f: "lock_step ?s Frame ?t" by (rule lock_step.frame) simp
  have c: "lock_step ?t Closed (?t\<lparr>cleaner_at := Sleeping\<rparr>)" by (rule lock_step.close_done) simp_all
  have r: "lock_run ?s [Frame, Closed] (?t\<lparr>cleaner_at := Sleeping\<rparr>)"
    by (rule run_cons [OF f run_cons [OF c run_nil]])
  have "hd [Frame, Closed] = Frame"
    by (rule cleanup_waits_for_client [OF r]) simp_all
  then show ?thesis using r by blast
qed

end
