(* ===== verification/Redis_Cache.thy ===== *)
theory Redis_Cache
  imports Go_Prelude "HOL-Library.Finite_Map"
begin

text \<open>
  The cache layer of \<^verbatim>\<open>src/pkg/redis/cache.go\<close>. The Redis client is a third-party library
  and a parameter: a record of the commands the code sends, each a function on the server's state,
  together with the key space that the documentation of the commands speaks of. \<open>redis_ok\<close>
  states what is relied on. JSON is a parameter too. What a user of the cache relies on is the
  interface \<open>object_cache\<close>, which the cache satisfies when its server does.
\<close>

section \<open>The Redis client\<close>

datatype redis_error = RedisNil | RedisFailed

record 'r redis_client =
  rd_get :: "string \<Rightarrow> 'r \<Rightarrow> 'r \<times> (redis_error, string) go"
  rd_set :: "string \<Rightarrow> string \<Rightarrow> int \<Rightarrow> 'r \<Rightarrow> 'r \<times> (redis_error, unit) go"
  rd_del :: "string \<Rightarrow> 'r \<Rightarrow> 'r \<times> (redis_error, int) go"
  rd_exists :: "string \<Rightarrow> 'r \<Rightarrow> 'r \<times> (redis_error, int) go"
  rd_mget :: "string list \<Rightarrow> 'r \<Rightarrow> 'r \<times> (redis_error, string option list) go"
  rd_mset :: "(string \<times> string) list \<Rightarrow> 'r \<Rightarrow> 'r \<times> (redis_error, unit) go"
  rd_incr :: "string \<Rightarrow> 'r \<Rightarrow> 'r \<times> (redis_error, int) go"
  rd_expire :: "string \<Rightarrow> int \<Rightarrow> 'r \<Rightarrow> 'r \<times> (redis_error, bool) go"
  rd_keys :: "string \<Rightarrow> 'r \<Rightarrow> 'r \<times> (redis_error, string list) go"
  rd_view :: "'r \<Rightarrow> string \<Rightarrow> string option"

text \<open>
  The documented effect of the commands on the key space. A command that fails may or may not
  have been executed; a read never changes the key space.
\<close>

definition get_law :: "'r redis_client \<Rightarrow> bool" where
  "get_law cl \<longleftrightarrow> (\<forall>k r. rd_view cl (fst (rd_get cl k r)) = rd_view cl r \<and>
     (case snd (rd_get cl k r) of
        Ret v \<Rightarrow> rd_view cl r k = Some v
      | Fail e \<Rightarrow> e = RedisNil \<longrightarrow> rd_view cl r k = None
      | Panic \<Rightarrow> False))"

definition set_law :: "'r redis_client \<Rightarrow> bool" where
  "set_law cl \<longleftrightarrow> (\<forall>k v t r.
     (case snd (rd_set cl k v t r) of
        Ret _ \<Rightarrow> rd_view cl (fst (rd_set cl k v t r)) = (rd_view cl r)(k \<mapsto> v)
      | Fail e \<Rightarrow> rd_view cl (fst (rd_set cl k v t r)) \<in> {rd_view cl r, (rd_view cl r)(k \<mapsto> v)}
      | Panic \<Rightarrow> False))"

definition del_law :: "'r redis_client \<Rightarrow> bool" where
  "del_law cl \<longleftrightarrow> (\<forall>k r.
     (case snd (rd_del cl k r) of
        Ret n \<Rightarrow> n = (if rd_view cl r k = None then 0 else 1) \<and>
          rd_view cl (fst (rd_del cl k r)) = (rd_view cl r)(k := None)
      | Fail e \<Rightarrow> rd_view cl (fst (rd_del cl k r)) \<in> {rd_view cl r, (rd_view cl r)(k := None)}
      | Panic \<Rightarrow> False))"

definition mget_law :: "'r redis_client \<Rightarrow> bool" where
  "mget_law cl \<longleftrightarrow> (\<forall>ks r. rd_view cl (fst (rd_mget cl ks r)) = rd_view cl r \<and>
     (case snd (rd_mget cl ks r) of
        Ret vs \<Rightarrow> vs = map (rd_view cl r) ks
      | Fail e \<Rightarrow> True
      | Panic \<Rightarrow> False))"

definition mset_law :: "'r redis_client \<Rightarrow> bool" where
  "mset_law cl \<longleftrightarrow> (\<forall>kvs r.
     (case snd (rd_mset cl kvs r) of
        Ret _ \<Rightarrow> rd_view cl (fst (rd_mset cl kvs r)) = rd_view cl r ++ map_of (rev kvs)
      | Fail e \<Rightarrow> rd_view cl (fst (rd_mset cl kvs r)) \<in> {rd_view cl r, rd_view cl r ++ map_of (rev kvs)}
      | Panic \<Rightarrow> False))"

definition redis_ok :: "'r redis_client \<Rightarrow> bool" where
  "redis_ok cl \<longleftrightarrow> get_law cl \<and> set_law cl \<and> del_law cl \<and> mget_law cl \<and> mset_law cl"

section \<open>The cache\<close>

text \<open>
  \<open>marshal\<close> and \<open>unmarshal\<close> are \<^verbatim>\<open>encoding/json\<close> at the type of the cached
  values, \<open>render\<close> is the string conversion used when JSON is off.
\<close>

record CacheStats =
  Hits :: int
  Misses :: int
  Errors :: int

record ('r, 'v) RedisCache =
  client :: "'r redis_client"
  server :: 'r
  marshal :: "'v \<Rightarrow> string option"
  unmarshal :: "string \<Rightarrow> 'v option"
  render :: "'v \<Rightarrow> string"
  EnableJSON :: bool
  DefaultTTL :: int
  cstats :: CacheStats

datatype cache_error =
    CacheMiss string
  | RedisGetFailed
  | JsonParseFailed
  | CannotConvert
  | JsonMarshalFailed
  | RedisSetFailed
  | RedisDelFailed
  | KeyNotFound string
  | RedisExistsFailed
  | RedisMGetFailed
  | RedisMSetFailed
  | RedisIncrFailed
  | RedisExpireFailed
  | RedisKeysFailed

definition hit :: "CacheStats \<Rightarrow> CacheStats" where
  "hit s = s\<lparr>Hits := wrap64 (Hits s + 1)\<rparr>"

definition miss :: "CacheStats \<Rightarrow> CacheStats" where
  "miss s = s\<lparr>Misses := wrap64 (Misses s + 1)\<rparr>"

definition error :: "CacheStats \<Rightarrow> CacheStats" where
  "error s = s\<lparr>Errors := wrap64 (Errors s + 1)\<rparr>"

definition NewCache ::
    "'r redis_client \<Rightarrow> 'r \<Rightarrow> ('v \<Rightarrow> string option) \<Rightarrow> (string \<Rightarrow> 'v option) \<Rightarrow> ('v \<Rightarrow> string) \<Rightarrow> ('r, 'v) RedisCache" where
  "NewCache cl r m u rend =
     \<lparr>client = cl, server = r, marshal = m, unmarshal = u, render = rend, EnableJSON = True,
      DefaultTTL = 3600000000000, cstats = \<lparr>Hits = 0, Misses = 0, Errors = 0\<rparr>\<rparr>"

text \<open>
  The destination of \<^verbatim>\<open>Get\<close> is nil, a string pointer or a pointer to an object; what it
  receives is an object parsed from JSON or the string itself.
\<close>

datatype dest = DestNil | DestString | DestObject

datatype 'v cached = Parsed 'v | Raw string

definition Cache_Get ::
    "dest \<Rightarrow> string \<Rightarrow> ('r, 'v) RedisCache \<Rightarrow> ('r, 'v) RedisCache \<times> (cache_error, 'v cached) go" where
  "Cache_Get dst key c =
     (let (r, res) = rd_get (client c) key (server c);
          c = c\<lparr>server := r\<rparr>
      in case res of
           Panic \<Rightarrow> (c, Panic)
         | Fail RedisNil \<Rightarrow> (c\<lparr>cstats := miss (cstats c)\<rparr>, Fail (CacheMiss key))
         | Fail RedisFailed \<Rightarrow> (c\<lparr>cstats := error (cstats c)\<rparr>, Fail RedisGetFailed)
         | Ret val \<Rightarrow>
             (let c = c\<lparr>cstats := hit (cstats c)\<rparr>
              in if EnableJSON c \<and> dst \<noteq> DestNil then
                   (case unmarshal c val of
                      None \<Rightarrow> (c\<lparr>cstats := error (cstats c)\<rparr>, Fail JsonParseFailed)
                    | Some v \<Rightarrow> (c, Ret (Parsed v)))
                 else if dst = DestString then (c, Ret (Raw val))
                 else (c, Fail CannotConvert)))"

definition to_stored :: "('r, 'v) RedisCache \<Rightarrow> 'v \<Rightarrow> string option" where
  "to_stored c v = (if EnableJSON c then marshal c v else Some (render c v))"

definition Cache_Set ::
    "string \<Rightarrow> 'v \<Rightarrow> int \<Rightarrow> ('r, 'v) RedisCache \<Rightarrow> ('r, 'v) RedisCache \<times> (cache_error, unit) go" where
  "Cache_Set key value ttl c =
     (let ttl = (if ttl = 0 then DefaultTTL c else ttl)
      in case to_stored c value of
           None \<Rightarrow> (c\<lparr>cstats := error (cstats c)\<rparr>, Fail JsonMarshalFailed)
         | Some val \<Rightarrow>
             (let (r, res) = rd_set (client c) key val ttl (server c);
                  c = c\<lparr>server := r\<rparr>
              in case res of
                   Panic \<Rightarrow> (c, Panic)
                 | Fail _ \<Rightarrow> (c\<lparr>cstats := error (cstats c)\<rparr>, Fail RedisSetFailed)
                 | Ret _ \<Rightarrow> (c, Ret ())))"

definition Cache_Delete ::
    "string \<Rightarrow> ('r, 'v) RedisCache \<Rightarrow> ('r, 'v) RedisCache \<times> (cache_error, unit) go" where
  "Cache_Delete key c =
     (let (r, res) = rd_del (client c) key (server c);
          c = c\<lparr>server := r\<rparr>
      in case res of
           Panic \<Rightarrow> (c, Panic)
         | Fail _ \<Rightarrow> (c\<lparr>cstats := error (cstats c)\<rparr>, Fail RedisDelFailed)
         | Ret n \<Rightarrow> (c, if n = 0 then Fail (KeyNotFound key) else Ret ()))"

definition Cache_Exists ::
    "string \<Rightarrow> ('r, 'v) RedisCache \<Rightarrow> ('r, 'v) RedisCache \<times> (cache_error, bool) go" where
  "Cache_Exists key c =
     (let (r, res) = rd_exists (client c) key (server c);
          c = c\<lparr>server := r\<rparr>
      in case res of
           Panic \<Rightarrow> (c, Panic)
         | Fail _ \<Rightarrow> (c\<lparr>cstats := error (cstats c)\<rparr>, Fail RedisExistsFailed)
         | Ret n \<Rightarrow> (c, Ret (0 < n)))"

definition count_vals :: "string option list \<Rightarrow> CacheStats \<Rightarrow> CacheStats" where
  "count_vals vals s = foldl (\<lambda>s v. if v = None then miss s else hit s) s vals"

definition Cache_MGet ::
    "string list \<Rightarrow> ('r, 'v) RedisCache \<Rightarrow> ('r, 'v) RedisCache \<times> (cache_error, string option list) go" where
  "Cache_MGet keys c =
     (if keys = [] then (c, Ret [])
      else
        let (r, res) = rd_mget (client c) keys (server c);
            c = c\<lparr>server := r\<rparr>
        in case res of
             Panic \<Rightarrow> (c, Panic)
           | Fail _ \<Rightarrow> (c\<lparr>cstats := error (cstats c)\<rparr>, Fail RedisMGetFailed)
           | Ret vals \<Rightarrow> (c\<lparr>cstats := count_vals vals (cstats c)\<rparr>, Ret vals))"

text \<open>The loop of \<^verbatim>\<open>MSet\<close> that builds the pairs; \<open>items\<close> is the map in visiting order.\<close>

fun mset_pairs :: "('r, 'v) RedisCache \<Rightarrow> (string \<times> 'v) list \<Rightarrow> (string \<times> string) list option" where
  "mset_pairs c [] = Some []"
| "mset_pairs c ((k, v) # items) =
     (case to_stored c v of
        None \<Rightarrow> None
      | Some val \<Rightarrow> map_option (\<lambda>ps. (k, val) # ps) (mset_pairs c items))"

definition Cache_MSet ::
    "(string \<times> 'v) list \<Rightarrow> ('r, 'v) RedisCache \<Rightarrow> ('r, 'v) RedisCache \<times> (cache_error, unit) go" where
  "Cache_MSet items c =
     (if items = [] then (c, Ret ())
      else
        case mset_pairs c items of
          None \<Rightarrow> (c\<lparr>cstats := error (cstats c)\<rparr>, Fail JsonMarshalFailed)
        | Some pairs \<Rightarrow>
            (let (r, res) = rd_mset (client c) pairs (server c);
                 c = c\<lparr>server := r\<rparr>
             in case res of
                  Panic \<Rightarrow> (c, Panic)
                | Fail _ \<Rightarrow> (c\<lparr>cstats := error (cstats c)\<rparr>, Fail RedisMSetFailed)
                | Ret _ \<Rightarrow> (c, Ret ())))"

definition Cache_Incr ::
    "string \<Rightarrow> ('r, 'v) RedisCache \<Rightarrow> ('r, 'v) RedisCache \<times> (cache_error, int) go" where
  "Cache_Incr key c =
     (let (r, res) = rd_incr (client c) key (server c);
          c = c\<lparr>server := r\<rparr>
      in case res of
           Panic \<Rightarrow> (c, Panic)
         | Fail _ \<Rightarrow> (c\<lparr>cstats := error (cstats c)\<rparr>, Fail RedisIncrFailed)
         | Ret n \<Rightarrow> (c, Ret n))"

definition Cache_Expire ::
    "string \<Rightarrow> int \<Rightarrow> ('r, 'v) RedisCache \<Rightarrow> ('r, 'v) RedisCache \<times> (cache_error, unit) go" where
  "Cache_Expire key ttl c =
     (let (r, res) = rd_expire (client c) key ttl (server c);
          c = c\<lparr>server := r\<rparr>
      in case res of
           Panic \<Rightarrow> (c, Panic)
         | Fail _ \<Rightarrow> (c\<lparr>cstats := error (cstats c)\<rparr>, Fail RedisExpireFailed)
         | Ret success \<Rightarrow> (c, if success then Ret () else Fail (KeyNotFound key)))"

definition Cache_Keys ::
    "string \<Rightarrow> ('r, 'v) RedisCache \<Rightarrow> ('r, 'v) RedisCache \<times> (cache_error, string list) go" where
  "Cache_Keys pattern c =
     (let (r, res) = rd_keys (client c) pattern (server c);
          c = c\<lparr>server := r\<rparr>
      in case res of
           Panic \<Rightarrow> (c, Panic)
         | Fail _ \<Rightarrow> (c\<lparr>cstats := error (cstats c)\<rparr>, Fail RedisKeysFailed)
         | Ret ks \<Rightarrow> (c, Ret ks))"

definition Cache_Stats :: "('r, 'v) RedisCache \<Rightarrow> CacheStats" where
  "Cache_Stats c = cstats c"

section \<open>What a user of the cache relies on\<close>

text \<open>
  \<open>contents\<close> is what the cache holds as objects, \<open>norm\<close> what becomes of an object
  on its way through JSON. A failed write may have been executed.
\<close>

locale object_cache =
  fixes get :: "string \<Rightarrow> 'c \<Rightarrow> 'c \<times> (cache_error, 'v cached) go"
    and set :: "string \<Rightarrow> 'v \<Rightarrow> int \<Rightarrow> 'c \<Rightarrow> 'c \<times> (cache_error, unit) go"
    and delete :: "string \<Rightarrow> 'c \<Rightarrow> 'c \<times> (cache_error, unit) go"
    and contents :: "'c \<Rightarrow> string \<Rightarrow> 'v option"
    and inv :: "'c \<Rightarrow> bool"
    and norm :: "'v \<Rightarrow> 'v"
  assumes get_keeps: "inv c \<Longrightarrow> inv (fst (get k c)) \<and> contents (fst (get k c)) = contents c"
    and get_Ret: "inv c \<Longrightarrow> snd (get k c) = Ret x \<Longrightarrow> \<exists>v. x = Parsed v \<and> contents c k = Some v"
    and get_not_Panic: "inv c \<Longrightarrow> snd (get k c) \<noteq> Panic"
    and set_inv: "inv c \<Longrightarrow> inv (fst (set k v t c))"
    and set_Ret: "inv c \<Longrightarrow> snd (set k v t c) = Ret u \<Longrightarrow>
      contents (fst (set k v t c)) = (contents c)(k \<mapsto> norm v)"
    and set_any: "inv c \<Longrightarrow>
      contents (fst (set k v t c)) \<in> {contents c, (contents c)(k \<mapsto> norm v)}"
    and set_not_Panic: "inv c \<Longrightarrow> snd (set k v t c) \<noteq> Panic"
    and delete_inv: "inv c \<Longrightarrow> inv (fst (delete k c))"
    and delete_done: "inv c \<Longrightarrow> snd (delete k c) \<noteq> Fail RedisDelFailed \<Longrightarrow>
      contents (fst (delete k c)) = (contents c)(k := None)"
    and delete_any: "inv c \<Longrightarrow>
      contents (fst (delete k c)) \<in> {contents c, (contents c)(k := None)}"
    and delete_not_Panic: "inv c \<Longrightarrow> snd (delete k c) \<noteq> Panic"
begin

text \<open>A read after a write returns what was written, or an error.\<close>

lemma get_after_set:
  assumes "inv c" and "snd (set k v t c) = Ret u" and "snd (get k (fst (set k v t c))) = Ret x"
  shows "x = Parsed (norm v)"
  using get_Ret [OF set_inv [OF assms(1)] assms(3)] set_Ret [OF assms(1,2)] by auto

lemma get_after_delete:
  assumes "inv c" and "snd (delete k c) \<noteq> Fail RedisDelFailed"
  shows "snd (get k (fst (delete k c))) \<noteq> Ret x"
  using get_Ret [OF delete_inv [OF assms(1)], of k k x] delete_done [OF assms] by auto

text \<open>Operations on other keys do not matter.\<close>

lemma get_frame:
  assumes "inv c" and "k \<noteq> j"
  shows "contents (fst (set j v t c)) k = contents c k"
    and "contents (fst (delete j c)) k = contents c k"
  using set_any [OF assms(1), of j v t] delete_any [OF assms(1), of j] assms(2) by auto

end

definition json_ok :: "('v \<Rightarrow> 'v) \<Rightarrow> ('v \<Rightarrow> string option) \<Rightarrow> (string \<Rightarrow> 'v option) \<Rightarrow> bool" where
  "json_ok norm m u \<longleftrightarrow> (\<forall>v s. m v = Some s \<longrightarrow> u s = Some (norm v))"

definition cache_inv :: "('v \<Rightarrow> 'v) \<Rightarrow> ('r, 'v) RedisCache \<Rightarrow> bool" where
  "cache_inv norm c \<longleftrightarrow> redis_ok (client c) \<and> EnableJSON c \<and> json_ok norm (marshal c) (unmarshal c)"

definition cache_contents :: "('r, 'v) RedisCache \<Rightarrow> string \<Rightarrow> 'v option" where
  "cache_contents c k = Option.bind (rd_view (client c) (server c) k) (unmarshal c)"

lemma redis_get:
  assumes "redis_ok cl"
  shows "rd_view cl (fst (rd_get cl k r)) = rd_view cl r"
    and "snd (rd_get cl k r) = Ret v \<Longrightarrow> rd_view cl r k = Some v"
    and "snd (rd_get cl k r) = Fail RedisNil \<Longrightarrow> rd_view cl r k = None"
    and "snd (rd_get cl k r) \<noteq> Panic"
proof -
  have "rd_view cl (fst (rd_get cl k r)) = rd_view cl r \<and>
     (case snd (rd_get cl k r) of
        Ret v \<Rightarrow> rd_view cl r k = Some v
      | Fail e \<Rightarrow> e = RedisNil \<longrightarrow> rd_view cl r k = None
      | Panic \<Rightarrow> False)"
    using assms by (simp add: redis_ok_def get_law_def)
  then show "rd_view cl (fst (rd_get cl k r)) = rd_view cl r"
    and "snd (rd_get cl k r) = Ret v \<Longrightarrow> rd_view cl r k = Some v"
    and "snd (rd_get cl k r) = Fail RedisNil \<Longrightarrow> rd_view cl r k = None"
    and "snd (rd_get cl k r) \<noteq> Panic"
    by auto
qed

lemma redis_set:
  assumes "redis_ok cl"
  shows "snd (rd_set cl k v t r) = Ret u \<Longrightarrow>
      rd_view cl (fst (rd_set cl k v t r)) = (rd_view cl r)(k \<mapsto> v)"
    and "rd_view cl (fst (rd_set cl k v t r)) \<in> {rd_view cl r, (rd_view cl r)(k \<mapsto> v)}"
    and "snd (rd_set cl k v t r) \<noteq> Panic"
proof -
  have "case snd (rd_set cl k v t r) of
        Ret _ \<Rightarrow> rd_view cl (fst (rd_set cl k v t r)) = (rd_view cl r)(k \<mapsto> v)
      | Fail e \<Rightarrow> rd_view cl (fst (rd_set cl k v t r)) \<in> {rd_view cl r, (rd_view cl r)(k \<mapsto> v)}
      | Panic \<Rightarrow> False"
    using assms by (simp add: redis_ok_def set_law_def)
  then show "snd (rd_set cl k v t r) = Ret u \<Longrightarrow>
      rd_view cl (fst (rd_set cl k v t r)) = (rd_view cl r)(k \<mapsto> v)"
    and "rd_view cl (fst (rd_set cl k v t r)) \<in> {rd_view cl r, (rd_view cl r)(k \<mapsto> v)}"
    and "snd (rd_set cl k v t r) \<noteq> Panic"
    by (cases "snd (rd_set cl k v t r)"; simp)+
qed

lemma redis_del:
  assumes "redis_ok cl"
  shows "snd (rd_del cl k r) = Ret n \<Longrightarrow>
      n = (if rd_view cl r k = None then 0 else 1) \<and>
      rd_view cl (fst (rd_del cl k r)) = (rd_view cl r)(k := None)"
    and "rd_view cl (fst (rd_del cl k r)) \<in> {rd_view cl r, (rd_view cl r)(k := None)}"
    and "snd (rd_del cl k r) \<noteq> Panic"
proof -
  have "case snd (rd_del cl k r) of
        Ret n \<Rightarrow> n = (if rd_view cl r k = None then 0 else 1) \<and>
          rd_view cl (fst (rd_del cl k r)) = (rd_view cl r)(k := None)
      | Fail e \<Rightarrow> rd_view cl (fst (rd_del cl k r)) \<in> {rd_view cl r, (rd_view cl r)(k := None)}
      | Panic \<Rightarrow> False"
    using assms by (simp add: redis_ok_def del_law_def)
  then show "snd (rd_del cl k r) = Ret n \<Longrightarrow>
      n = (if rd_view cl r k = None then 0 else 1) \<and>
      rd_view cl (fst (rd_del cl k r)) = (rd_view cl r)(k := None)"
    and "rd_view cl (fst (rd_del cl k r)) \<in> {rd_view cl r, (rd_view cl r)(k := None)}"
    and "snd (rd_del cl k r) \<noteq> Panic"
    by (cases "snd (rd_del cl k r)"; simp)+
qed

text \<open>What an operation leaves: the parameters, and the key space as the command leaves it.\<close>

lemma Cache_Get_fields:
  "client (fst (Cache_Get dst k c)) = client c"
  "EnableJSON (fst (Cache_Get dst k c)) = EnableJSON c"
  "marshal (fst (Cache_Get dst k c)) = marshal c"
  "unmarshal (fst (Cache_Get dst k c)) = unmarshal c"
  "server (fst (Cache_Get dst k c)) = fst (rd_get (client c) k (server c))"
  by (auto simp: Cache_Get_def Let_def split_def split: go.splits redis_error.splits option.splits)

lemma Cache_Set_fields:
  "client (fst (Cache_Set k v t c)) = client c"
  "EnableJSON (fst (Cache_Set k v t c)) = EnableJSON c"
  "marshal (fst (Cache_Set k v t c)) = marshal c"
  "unmarshal (fst (Cache_Set k v t c)) = unmarshal c"
  "server (fst (Cache_Set k v t c)) =
     (case to_stored c v of None \<Rightarrow> server c
      | Some x \<Rightarrow> fst (rd_set (client c) k x (if t = 0 then DefaultTTL c else t) (server c)))"
  by (auto simp: Cache_Set_def Let_def split_def split: go.splits option.splits)

lemma Cache_Delete_fields:
  "client (fst (Cache_Delete k c)) = client c"
  "EnableJSON (fst (Cache_Delete k c)) = EnableJSON c"
  "marshal (fst (Cache_Delete k c)) = marshal c"
  "unmarshal (fst (Cache_Delete k c)) = unmarshal c"
  "server (fst (Cache_Delete k c)) = fst (rd_del (client c) k (server c))"
  by (auto simp: Cache_Delete_def Let_def split_def split: go.splits)

lemmas cache_fields = Cache_Get_fields Cache_Set_fields Cache_Delete_fields

lemma Cache_Set_Ret:
  "snd (Cache_Set k v t c) = Ret u \<longleftrightarrow> (\<exists>x. to_stored c v = Some x \<and>
     snd (rd_set (client c) k x (if t = 0 then DefaultTTL c else t) (server c)) = Ret ())"
  by (auto simp: Cache_Set_def Let_def split_def split: go.splits option.splits)

lemma contents_upd:
  assumes "rd_view (client c') (server c') = (rd_view (client c) (server c))(k := x)"
    and "unmarshal c' = unmarshal c"
  shows "cache_contents c' = (cache_contents c)(k := Option.bind x (unmarshal c))"
  by (rule ext) (simp add: cache_contents_def assms)

lemma contents_same:
  assumes "rd_view (client c') (server c') = rd_view (client c) (server c)"
    and "unmarshal c' = unmarshal c"
  shows "cache_contents c' = cache_contents c"
  by (rule ext) (simp add: cache_contents_def assms)

lemma cache_invD:
  assumes "cache_inv norm c"
  shows "redis_ok (client c)" and "EnableJSON c"
    and "to_stored c v = Some s \<Longrightarrow> unmarshal c s = Some (norm v)"
  using assms by (auto simp: cache_inv_def json_ok_def to_stored_def)

lemma cache_inv_keeps:
  assumes "cache_inv norm c"
  shows "cache_inv norm (fst (Cache_Get dst k c))" and "cache_inv norm (fst (Cache_Set k v t c))"
    and "cache_inv norm (fst (Cache_Delete k c))"
  using assms by (simp_all add: cache_inv_def cache_fields)

lemma Cache_Get_contents:
  assumes "cache_inv norm c"
  shows "cache_contents (fst (Cache_Get dst k c)) = cache_contents c"
  by (rule contents_same) (simp_all add: cache_fields redis_get(1) [OF cache_invD(1) [OF assms]])

lemma Cache_Get_Ret:
  assumes c: "cache_inv norm c" and r: "snd (Cache_Get DestObject k c) = Ret x"
  shows "\<exists>v. x = Parsed v \<and> cache_contents c k = Some v"
proof -
  let ?g = "rd_get (client c) k (server c)"
  obtain s where s: "snd ?g = Ret s"
    using r by (cases "snd ?g") (auto simp: Cache_Get_def Let_def split_def split: redis_error.splits)
  have "rd_view (client c) (server c) k = Some s" by (rule redis_get(2) [OF cache_invD(1) [OF c] s])
  then show ?thesis
    using r s cache_invD(2) [OF c]
    by (cases "unmarshal c s") (auto simp: Cache_Get_def Let_def split_def cache_contents_def)
qed

lemma Cache_not_Panic:
  assumes "cache_inv norm c"
  shows "snd (Cache_Get dst k c) \<noteq> Panic" and "snd (Cache_Set k v t c) \<noteq> Panic"
    and "snd (Cache_Delete k c) \<noteq> Panic"
proof -
  note ok = cache_invD(1) [OF assms]
  show "snd (Cache_Get dst k c) \<noteq> Panic"
    using redis_get(4) [OF ok, of k "server c"]
    by (cases "snd (rd_get (client c) k (server c))")
      (auto simp: Cache_Get_def Let_def split_def split: redis_error.splits option.splits)
  show "snd (Cache_Set k v t c) \<noteq> Panic"
  proof (cases "to_stored c v")
    case (Some y)
    then show ?thesis
      using redis_set(3) [OF ok, of k y]
      by (auto simp: Cache_Set_def Let_def split_def split: go.splits)
  qed (simp add: Cache_Set_def)
  show "snd (Cache_Delete k c) \<noteq> Panic"
    using redis_del(3) [OF ok, of k "server c"]
    by (auto simp: Cache_Delete_def Let_def split_def split: go.splits)
qed

lemma Cache_Set_contents:
  assumes c: "cache_inv norm c"
  shows "snd (Cache_Set k v t c) = Ret u \<Longrightarrow>
      cache_contents (fst (Cache_Set k v t c)) = (cache_contents c)(k \<mapsto> norm v)"
    and "cache_contents (fst (Cache_Set k v t c)) \<in>
      {cache_contents c, (cache_contents c)(k \<mapsto> norm v)}"
proof -
  let ?c = "fst (Cache_Set k v t c)"
  let ?t = "if t = 0 then DefaultTTL c else t"
  note ok = cache_invD(1) [OF c]
  have upd: "cache_contents ?c = (cache_contents c)(k \<mapsto> norm v)"
    if "to_stored c v = Some y"
      "rd_view (client c) (fst (rd_set (client c) k y ?t (server c))) =
        (rd_view (client c) (server c))(k \<mapsto> y)" for y
  proof -
    have "cache_contents ?c = (cache_contents c)(k := Option.bind (Some y) (unmarshal c))"
      using that by (intro contents_upd) (simp_all add: cache_fields)
    then show ?thesis using cache_invD(3) [OF c that(1)] by simp
  qed
  show "cache_contents ?c = (cache_contents c)(k \<mapsto> norm v)" if "snd (Cache_Set k v t c) = Ret u"
  proof -
    from that obtain y where y: "to_stored c v = Some y"
      and r: "snd (rd_set (client c) k y ?t (server c)) = Ret ()"
      by (auto simp: Cache_Set_Ret)
    show ?thesis by (rule upd [OF y redis_set(1) [OF ok r]])
  qed
  show "cache_contents ?c \<in> {cache_contents c, (cache_contents c)(k \<mapsto> norm v)}"
  proof (cases "to_stored c v")
    case None
    then have "cache_contents ?c = cache_contents c"
      by (intro contents_same) (simp_all add: cache_fields)
    then show ?thesis by simp
  next
    case (Some y)
    have "cache_contents ?c = cache_contents c"
      if "rd_view (client c) (fst (rd_set (client c) k y ?t (server c))) = rd_view (client c) (server c)"
      using that Some by (intro contents_same) (simp_all add: cache_fields)
    then show ?thesis
      using redis_set(2) [OF ok, of k y ?t "server c"] upd [OF Some] by blast
  qed
qed

lemma Cache_Delete_contents:
  assumes c: "cache_inv norm c"
  shows "snd (Cache_Delete k c) \<noteq> Fail RedisDelFailed \<Longrightarrow>
      cache_contents (fst (Cache_Delete k c)) = (cache_contents c)(k := None)"
    and "cache_contents (fst (Cache_Delete k c)) \<in> {cache_contents c, (cache_contents c)(k := None)}"
proof -
  let ?c = "fst (Cache_Delete k c)"
  let ?d = "rd_del (client c) k (server c)"
  note d = redis_del [OF cache_invD(1) [OF c], of k "server c"]
  have upd: "cache_contents ?c = (cache_contents c)(k := None)"
    if "rd_view (client c) (fst ?d) = (rd_view (client c) (server c))(k := None)"
    using contents_upd [of ?c c k None] that by (simp add: cache_fields)
  show "cache_contents ?c = (cache_contents c)(k := None)"
    if f: "snd (Cache_Delete k c) \<noteq> Fail RedisDelFailed"
  proof (cases "snd ?d")
    case (Ret n)
    then show ?thesis using d(1) upd by blast
  next
    case (Fail e)
    then show ?thesis using f by (simp add: Cache_Delete_def Let_def split_def)
  qed (use d(3) in simp)
  have "cache_contents ?c = cache_contents c"
    if "rd_view (client c) (fst ?d) = rd_view (client c) (server c)"
    using that by (intro contents_same) (simp_all add: cache_fields)
  then show "cache_contents ?c \<in> {cache_contents c, (cache_contents c)(k := None)}"
    using d(2) upd by blast
qed

interpretation redis: object_cache "Cache_Get DestObject" Cache_Set Cache_Delete cache_contents
    "cache_inv norm" norm for norm
  by unfold_locales
    (simp_all add: cache_inv_keeps Cache_Get_contents Cache_Get_Ret Cache_not_Panic
      Cache_Set_contents(1) Cache_Delete_contents(1) Cache_Set_contents(2) [simplified]
      Cache_Delete_contents(2) [simplified])

section \<open>A server to run the code against\<close>

text \<open>A server that keeps its keys in a list and never fails.\<close>

definition list_view :: "(string \<times> string) list \<Rightarrow> string \<Rightarrow> string option" where
  "list_view r k = map_of r k"

definition list_server :: "((string \<times> string) list) redis_client" where
  "list_server =
     \<lparr>rd_get = \<lambda>k r. (r, case map_of r k of None \<Rightarrow> Fail RedisNil | Some v \<Rightarrow> Ret v),
      rd_set = \<lambda>k v t r. ((k, v) # r, Ret ()),
      rd_del = \<lambda>k r. (filter (\<lambda>p. fst p \<noteq> k) r, Ret (if map_of r k = None then 0 else 1)),
      rd_exists = \<lambda>k r. (r, Ret (if map_of r k = None then 0 else 1)),
      rd_mget = \<lambda>ks r. (r, Ret (map (map_of r) ks)),
      rd_mset = \<lambda>kvs r. (rev kvs @ r, Ret ()),
      rd_incr = \<lambda>k r. (r, Fail RedisFailed),
      rd_expire = \<lambda>k t r. (r, Ret (map_of r k \<noteq> None)),
      rd_keys = \<lambda>p r. (r, Ret (map fst r)),
      rd_view = list_view\<rparr>"

lemma map_of_filter_key: "map_of (filter (\<lambda>p. fst p \<noteq> k) r) = (map_of r)(k := None)"
  by (induction r) (auto simp: fun_eq_iff)

lemma list_server_ok: "redis_ok list_server"
proof -
  have "get_law list_server"
    by (auto simp: get_law_def list_server_def list_view_def split: option.splits)
  moreover have "set_law list_server"
    by (auto simp: set_law_def list_server_def list_view_def fun_eq_iff)
  moreover have "del_law list_server"
    by (auto simp: del_law_def list_server_def list_view_def map_of_filter_key fun_eq_iff)
  moreover have "mget_law list_server"
    by (auto simp: mget_law_def list_server_def list_view_def)
  moreover have "mset_law list_server"
    by (auto simp: mset_law_def list_server_def list_view_def fun_eq_iff map_add_def
        split: option.splits)
  ultimately show ?thesis by (simp add: redis_ok_def)
qed

definition sample_cache :: "((string \<times> string) list, string) RedisCache" where
  "sample_cache = NewCache list_server [] Some Some id"

lemma sample_cache_inv: "cache_inv id sample_cache"
  by (simp add: cache_inv_def sample_cache_def NewCache_def list_server_ok json_ok_def)

section \<open>Properties\<close>

text \<open>C32: on a server that executes its commands as documented, the cache is a map that may
  fail but never lies: a read after a successful write of the same key returns the written object (as it
  comes out of JSON) or an error, a read after a deletion that reached the server returns no
  object, operations on other keys change nothing, and no operation panics.\<close>

theorem cache_never_stale:
  assumes "cache_inv norm c"
  shows "(snd (Cache_Set k v t c) = Ret () \<longrightarrow>
      snd (Cache_Get DestObject k (fst (Cache_Set k v t c))) = Ret x \<longrightarrow> x = Parsed (norm v)) \<and>
    (snd (Cache_Delete k c) \<noteq> Fail RedisDelFailed \<longrightarrow>
      snd (Cache_Get DestObject k (fst (Cache_Delete k c))) \<noteq> Ret x) \<and>
    (j \<noteq> k \<longrightarrow> cache_contents (fst (Cache_Set j v t c)) k = cache_contents c k \<and>
      cache_contents (fst (Cache_Delete j c)) k = cache_contents c k) \<and>
    snd (Cache_Get DestObject k c) \<noteq> Panic \<and> snd (Cache_Set k v t c) \<noteq> Panic \<and>
    snd (Cache_Delete k c) \<noteq> Panic"
proof (intro conjI impI)
  assume "snd (Cache_Set k v t c) = Ret ()"
    and "snd (Cache_Get DestObject k (fst (Cache_Set k v t c))) = Ret x"
  then show "x = Parsed (norm v)" by (rule redis.get_after_set [OF assms])
next
  assume "snd (Cache_Delete k c) \<noteq> Fail RedisDelFailed"
  then show "snd (Cache_Get DestObject k (fst (Cache_Delete k c))) \<noteq> Ret x"
    by (rule redis.get_after_delete [OF assms])
next
  assume "j \<noteq> k"
  then show "cache_contents (fst (Cache_Set j v t c)) k = cache_contents c k"
    and "cache_contents (fst (Cache_Delete j c)) k = cache_contents c k"
    using redis.get_frame [OF assms, of k j] by simp_all
qed (use assms in \<open>auto dest: redis.get_not_Panic redis.set_not_Panic redis.delete_not_Panic\<close>)

theorem cache_never_stale_witness:
  "snd (Cache_Get DestObject ''k'' (fst (Cache_Set ''k'' ''v'' 0 sample_cache))) = Ret (Parsed ''v'')"
proof -
  have s: "snd (Cache_Set ''k'' ''v'' 0 sample_cache) = Ret ()"
    by (simp add: Cache_Set_def sample_cache_def NewCache_def to_stored_def list_server_def)
  obtain x where x: "snd (Cache_Get DestObject ''k'' (fst (Cache_Set ''k'' ''v'' 0 sample_cache))) = Ret x"
    by (simp add: Cache_Get_def Cache_Set_def sample_cache_def NewCache_def to_stored_def
        list_server_def Let_def)
  have "x = Parsed (id ''v'')"
    using cache_never_stale [OF sample_cache_inv, of "''k''" "''v''" 0 x "''j''"] s x by blast
  then show ?thesis using x by simp
qed

end
