(* ===== verification/Redis_Lock.thy ===== *)
theory Redis_Lock
  imports Redis_Cache
begin

text \<open>
  The distributed lock of \<^verbatim>\<open>src/pkg/redis/lock.go\<close>. The two Lua scripts are translated
  as functions on the server's state; the server runs a script atomically, and its answer may be
  lost. Several processes, each with its own lock object, share one server.
\<close>

section \<open>Server and scripts\<close>

record 'r lock_client =
  lc_base :: "'r redis_client"
  rd_setnx :: "string \<Rightarrow> string \<Rightarrow> int \<Rightarrow> 'r \<Rightarrow> 'r \<times> (redis_error, bool) go"
  rd_eval :: "('r \<Rightarrow> 'r \<times> int) \<Rightarrow> 'r \<Rightarrow> 'r \<times> (redis_error, int) go"
  sv_del :: "string \<Rightarrow> 'r \<Rightarrow> 'r \<times> int"
  sv_pexpire :: "string \<Rightarrow> int \<Rightarrow> 'r \<Rightarrow> 'r \<times> int"

definition lc_view :: "'r lock_client \<Rightarrow> 'r \<Rightarrow> string \<Rightarrow> string option" where
  "lc_view cl = rd_view (lc_base cl)"

text \<open>
  The documented effects: \<^verbatim>\<open>SET NX\<close> writes only when the key is absent,
  \<^verbatim>\<open>DEL\<close> and \<^verbatim>\<open>PEXPIRE\<close> answer whether the key existed, a time to live that is not
  positive deletes the key, and a script runs as a whole or not at all.
\<close>

definition setnx_law :: "'r lock_client \<Rightarrow> bool" where
  "setnx_law cl \<longleftrightarrow> (\<forall>k v t r.
     let r' = fst (rd_setnx cl k v t r);
         set = (if lc_view cl r k = None then (lc_view cl r)(k \<mapsto> v) else lc_view cl r)
     in case snd (rd_setnx cl k v t r) of
          Ret b \<Rightarrow> b = (lc_view cl r k = None) \<and> lc_view cl r' = set
        | Fail e \<Rightarrow> lc_view cl r' \<in> {lc_view cl r, set}
        | Panic \<Rightarrow> False)"

definition script_law :: "'r lock_client \<Rightarrow> bool" where
  "script_law cl \<longleftrightarrow> (\<forall>f r.
     (case snd (rd_eval cl f r) of
        Ret n \<Rightarrow> n = snd (f r) \<and> fst (rd_eval cl f r) = fst (f r)
      | Fail e \<Rightarrow> fst (rd_eval cl f r) \<in> {r, fst (f r)}
      | Panic \<Rightarrow> False))"

definition call_law :: "'r lock_client \<Rightarrow> bool" where
  "call_law cl \<longleftrightarrow> (\<forall>k r ms.
     snd (sv_del cl k r) = (if lc_view cl r k = None then 0 else 1) \<and>
     lc_view cl (fst (sv_del cl k r)) = (lc_view cl r)(k := None) \<and>
     snd (sv_pexpire cl k ms r) = (if lc_view cl r k = None then 0 else 1) \<and>
     lc_view cl (fst (sv_pexpire cl k ms r)) =
       (if ms \<le> 0 then (lc_view cl r)(k := None) else lc_view cl r))"

definition lock_server_ok :: "'r lock_client \<Rightarrow> bool" where
  "lock_server_ok cl \<longleftrightarrow>
     get_law (lc_base cl) \<and> setnx_law cl \<and> script_law cl \<and> call_law cl"

definition release_script :: "'r lock_client \<Rightarrow> string \<Rightarrow> string \<Rightarrow> 'r \<Rightarrow> 'r \<times> int" where
  "release_script cl k token r =
     (if lc_view cl r k = Some token then sv_del cl k r else (r, 0))"

definition refresh_script :: "'r lock_client \<Rightarrow> string \<Rightarrow> string \<Rightarrow> int \<Rightarrow> 'r \<Rightarrow> 'r \<times> int" where
  "refresh_script cl k token ms r =
     (if lc_view cl r k = Some token then sv_pexpire cl k ms r else (r, 0))"

section \<open>The lock object\<close>

record lockInfo =
  li_token :: string
  li_timeout :: int

text \<open>
  The renewal channel of a \<^verbatim>\<open>lockInfo\<close> is named by its token; \<open>renewClosed\<close> lists
  the closed ones. \<open>stopQueue\<close> is the buffer of \<^verbatim>\<open>renewalStopChan\<close>.
\<close>

record RedisLock =
  DefaultTimeout :: int
  RetryInterval :: int
  AutoRenew :: bool
  RenewInterval :: int
  KeyPrefix :: string
  activeLocks :: "(string, lockInfo) fmap"
  stopQueue :: "string list"
  renewClosed :: "string list"

datatype lock_error =
    TokenFailed
  | AcquireFailed redis_error
  | ReleaseFailed redis_error
  | RefreshFailed redis_error
  | CheckFailed redis_error
  | LockContextDone

definition NewLock :: "int \<Rightarrow> int \<Rightarrow> bool \<Rightarrow> int \<Rightarrow> string \<Rightarrow> RedisLock" where
  "NewLock timeout retry renew interval prefix =
     \<lparr>DefaultTimeout = timeout, RetryInterval = retry, AutoRenew = renew,
      RenewInterval = (if go_quot timeout 3 \<le> interval then go_quot timeout 3 else interval),
      KeyPrefix = prefix, activeLocks = fmempty, stopQueue = [], renewClosed = []\<rparr>"

definition formatKey :: "RedisLock \<Rightarrow> string \<Rightarrow> string" where
  "formatKey l key = KeyPrefix l @ key"

definition hex_char :: "nat \<Rightarrow> char" where
  "hex_char n = ''0123456789abcdef'' ! n"

definition hex_encode :: "byte list \<Rightarrow> string" where
  "hex_encode bs = concat (map (\<lambda>b. [hex_char (unat b div 16), hex_char (unat b mod 16)]) bs)"

text \<open>\<open>rnd\<close> is what the random source gives: sixteen bytes or an error.\<close>

definition generateToken :: "byte list option \<Rightarrow> (lock_error, string) go" where
  "generateToken rnd = (case rnd of None \<Rightarrow> Fail TokenFailed | Some b \<Rightarrow> Ret (hex_encode b))"

definition renew_interval :: "RedisLock \<Rightarrow> int \<Rightarrow> int" where
  "renew_interval l timeout =
     (let interval = RenewInterval l
      in if interval \<le> 0 \<or> go_quot timeout 3 \<le> interval then go_quot timeout 3 else interval)"

definition startAutoRenew :: "string \<Rightarrow> string \<Rightarrow> int \<Rightarrow> RedisLock \<Rightarrow> RedisLock" where
  "startAutoRenew key token timeout l =
     l\<lparr>activeLocks := fmupd key \<lparr>li_token = token, li_timeout = timeout\<rparr> (activeLocks l)\<rparr>"

text \<open>A send to the channel; it blocks when the buffer is full, and then the answer is false.\<close>

definition stopAutoRenew :: "string \<Rightarrow> RedisLock \<Rightarrow> RedisLock \<times> bool" where
  "stopAutoRenew key l =
     (if length (stopQueue l) < 100 then (l\<lparr>stopQueue := stopQueue l @ [key]\<rparr>, True)
      else (l, False))"

text \<open>One round of the loop of \<^verbatim>\<open>handleStopRenewals\<close>; closing a closed channel panics.\<close>

definition handleStopRenewal :: "RedisLock \<Rightarrow> (lock_error, RedisLock) go" where
  "handleStopRenewal l =
     (case stopQueue l of
        [] \<Rightarrow> Ret l
      | key # rest \<Rightarrow>
          (let l = l\<lparr>stopQueue := rest\<rparr>
           in case fmlookup (activeLocks l) key of
                None \<Rightarrow> Ret l
              | Some info \<Rightarrow>
                  if li_token info \<in> set (renewClosed l) then Panic
                  else Ret (l\<lparr>renewClosed := li_token info # renewClosed l,
                              activeLocks := fmdrop key (activeLocks l)\<rparr>)))"

definition TryAcquire ::
    "'r lock_client \<Rightarrow> byte list option \<Rightarrow> string \<Rightarrow> int \<Rightarrow> RedisLock \<times> 'r \<Rightarrow>
      (RedisLock \<times> 'r) \<times> (lock_error, string \<times> bool) go" where
  "TryAcquire cl rnd key timeout = (\<lambda>(l, r).
     with_recv (l, r) (generateToken rnd) (\<lambda>token.
     let timeout = (if timeout \<le> 0 then DefaultTimeout l else timeout);
         (r, res) = rd_setnx cl (formatKey l key) token timeout r
     in with_recv (l, r) (go_map_err AcquireFailed res) (\<lambda>success.
     if \<not> success then ((l, r), Ret ([], False))
     else ((if AutoRenew l then startAutoRenew key token timeout l else l, r), Ret (token, True)))))"

text \<open>
  \<^verbatim>\<open>Release\<close>; the result is \<^term>\<open>None\<close> when it blocks on the stop channel.
\<close>

definition Release ::
    "'r lock_client \<Rightarrow> string \<Rightarrow> string \<Rightarrow> RedisLock \<times> 'r \<Rightarrow>
      (RedisLock \<times> 'r) \<times> (lock_error, bool) go option" where
  "Release cl key token = (\<lambda>(l, r).
     let (r, res) = rd_eval cl (release_script cl (formatKey l key) token) r
     in case res of
          Panic \<Rightarrow> ((l, r), Some Panic)
        | Fail e \<Rightarrow> ((l, r), Some (Fail (ReleaseFailed e)))
        | Ret n \<Rightarrow>
            (let success = (n = 1)
             in if success \<and> AutoRenew l
                then (let (l, sent) = stopAutoRenew key l
                      in ((l, r), if sent then Some (Ret success) else None))
                else ((l, r), Some (Ret success))))"

definition Refresh ::
    "'r lock_client \<Rightarrow> string \<Rightarrow> string \<Rightarrow> int \<Rightarrow> RedisLock \<times> 'r \<Rightarrow>
      (RedisLock \<times> 'r) \<times> (lock_error, bool) go" where
  "Refresh cl key token timeout = (\<lambda>(l, r).
     let timeout = (if timeout \<le> 0 then DefaultTimeout l else timeout);
         timeoutMs = go_quot timeout 1000000;
         (r, res) = rd_eval cl (refresh_script cl (formatKey l key) token timeoutMs) r
     in with_recv (l, r) (go_map_err RefreshFailed res) (\<lambda>n.
     let success = (n = 1);
         l = (if success \<and> AutoRenew l then
                (case fmlookup (activeLocks l) key of
                   None \<Rightarrow> l
                 | Some info \<Rightarrow>
                     if li_token info = token
                     then l\<lparr>activeLocks := fmupd key (info\<lparr>li_timeout := timeout\<rparr>) (activeLocks l)\<rparr>
                     else l)
              else l)
     in ((l, r), Ret success)))"

definition IsLocked ::
    "'r lock_client \<Rightarrow> string \<Rightarrow> string \<Rightarrow> RedisLock \<times> 'r \<Rightarrow>
      (RedisLock \<times> 'r) \<times> (lock_error, bool) go" where
  "IsLocked cl key token = (\<lambda>(l, r).
     let (r, res) = rd_get (lc_base cl) (formatKey l key) r
     in case res of
          Panic \<Rightarrow> ((l, r), Panic)
        | Fail RedisNil \<Rightarrow> ((l, r), Ret False)
        | Fail RedisFailed \<Rightarrow> ((l, r), Fail (CheckFailed RedisFailed))
        | Ret currentToken \<Rightarrow> ((l, r), Ret (if token \<noteq> [] then currentToken = token else True)))"

text \<open>
  One tick of the renewal goroutine of a lock: \<open>Ret True\<close> when the goroutine goes on,
  \<open>Ret False\<close> when it returns.
\<close>

definition renew_tick ::
    "'r lock_client \<Rightarrow> string \<Rightarrow> string \<Rightarrow> int \<Rightarrow> RedisLock \<times> 'r \<Rightarrow>
      (RedisLock \<times> 'r) \<times> (lock_error, bool) go option" where
  "renew_tick cl key token timeout s =
     (let ((l, r), res) = Refresh cl key token timeout s
      in case res of
           Panic \<Rightarrow> ((l, r), Some Panic)
         | Fail _ \<Rightarrow> ((l, r), Some (Ret True))
         | Ret True \<Rightarrow> ((l, r), Some (Ret True))
         | Ret False \<Rightarrow>
             (let (l, sent) = stopAutoRenew key l
              in ((l, r), if sent then Some (Ret False) else None)))"

text \<open>
  The blocking \<^verbatim>\<open>Acquire\<close>: one element of the list per round, with its random bytes, what
  other processes did to the server meanwhile, and whether the context ended the wait. The
  result is \<^term>\<open>None\<close> when the call is still waiting after these rounds.
\<close>

record 'r wait_round =
  wr_random :: "byte list option"
  wr_done :: bool
  wr_env :: "'r \<Rightarrow> 'r"

fun Acquire ::
    "'r lock_client \<Rightarrow> string \<Rightarrow> 'r wait_round list \<Rightarrow> RedisLock \<times> 'r \<Rightarrow>
      ((RedisLock \<times> 'r) \<times> (lock_error, string) go) option" where
  "Acquire cl key [] s = None"
| "Acquire cl key (w # ws) s =
     (let ((l, r), res) = TryAcquire cl (wr_random w) key (DefaultTimeout (fst s)) s
      in case res of
           Panic \<Rightarrow> Some ((l, r), Panic)
         | Fail e \<Rightarrow> Some ((l, r), Fail e)
         | Ret (token, True) \<Rightarrow> Some ((l, r), Ret token)
         | Ret (token, False) \<Rightarrow>
             if wr_done w then Some ((l, r), Fail LockContextDone)
             else Acquire cl key ws (l, wr_env w r))"

section \<open>What the server promises about the commands of the lock\<close>

lemma setnx_facts:
  assumes "lock_server_ok cl"
  shows "snd (rd_setnx cl k v t r) = Ret b \<Longrightarrow> b = (lc_view cl r k = None)"
    and "snd (rd_setnx cl k v t r) = Ret True \<Longrightarrow>
      lc_view cl (fst (rd_setnx cl k v t r)) = (lc_view cl r)(k \<mapsto> v)"
    and "lc_view cl r j \<noteq> None \<or> j \<noteq> k \<Longrightarrow>
      lc_view cl (fst (rd_setnx cl k v t r)) j = lc_view cl r j"
proof -
  define set where "set = (if lc_view cl r k = None then (lc_view cl r)(k \<mapsto> v) else lc_view cl r)"
  have *: "case snd (rd_setnx cl k v t r) of
          Ret b \<Rightarrow> b = (lc_view cl r k = None) \<and> lc_view cl (fst (rd_setnx cl k v t r)) = set
        | Fail e \<Rightarrow> lc_view cl (fst (rd_setnx cl k v t r)) \<in> {lc_view cl r, set}
        | Panic \<Rightarrow> False"
    using assms unfolding lock_server_ok_def setnx_law_def Let_def set_def by blast
  show "snd (rd_setnx cl k v t r) = Ret b \<Longrightarrow> b = (lc_view cl r k = None)"
    using * by simp
  show "snd (rd_setnx cl k v t r) = Ret True \<Longrightarrow>
      lc_view cl (fst (rd_setnx cl k v t r)) = (lc_view cl r)(k \<mapsto> v)"
    using * by (simp add: set_def)
  have "lc_view cl (fst (rd_setnx cl k v t r)) \<in> {lc_view cl r, set}"
    using * by (cases "snd (rd_setnx cl k v t r)") auto
  then show "lc_view cl r j \<noteq> None \<or> j \<noteq> k \<Longrightarrow>
      lc_view cl (fst (rd_setnx cl k v t r)) j = lc_view cl r j"
    by (auto simp: set_def)
qed

lemma eval_facts:
  assumes "lock_server_ok cl"
  shows "snd (rd_eval cl f r) = Ret n \<Longrightarrow> n = snd (f r) \<and> fst (rd_eval cl f r) = fst (f r)"
    and "fst (rd_eval cl f r) \<in> {r, fst (f r)}"
proof -
  have *: "case snd (rd_eval cl f r) of
        Ret n \<Rightarrow> n = snd (f r) \<and> fst (rd_eval cl f r) = fst (f r)
      | Fail e \<Rightarrow> fst (rd_eval cl f r) \<in> {r, fst (f r)}
      | Panic \<Rightarrow> False"
    using assms by (simp add: lock_server_ok_def script_law_def)
  then show "snd (rd_eval cl f r) = Ret n \<Longrightarrow> n = snd (f r) \<and> fst (rd_eval cl f r) = fst (f r)"
    and "fst (rd_eval cl f r) \<in> {r, fst (f r)}"
    by (cases "snd (rd_eval cl f r)"; simp)+
qed

lemma call_facts:
  assumes "lock_server_ok cl"
  shows "snd (sv_del cl k r) = (if lc_view cl r k = None then 0 else 1)"
    and "lc_view cl (fst (sv_del cl k r)) = (lc_view cl r)(k := None)"
    and "snd (sv_pexpire cl k ms r) = (if lc_view cl r k = None then 0 else 1)"
    and "lc_view cl (fst (sv_pexpire cl k ms r)) =
       (if ms \<le> 0 then (lc_view cl r)(k := None) else lc_view cl r)"
  using assms by (simp_all add: lock_server_ok_def call_law_def)

text \<open>The scripts touch their key only, and only for its token.\<close>

lemma release_script_view:
  assumes "lock_server_ok cl"
  shows "lc_view cl (fst (release_script cl k token r)) =
      (if lc_view cl r k = Some token then (lc_view cl r)(k := None) else lc_view cl r)"
    and "snd (release_script cl k token r) = (if lc_view cl r k = Some token then 1 else 0)"
  by (simp_all add: release_script_def call_facts [OF assms])

lemma refresh_script_view:
  assumes "lock_server_ok cl"
  shows "lc_view cl (fst (refresh_script cl k token ms r)) =
      (if lc_view cl r k = Some token \<and> ms \<le> 0 then (lc_view cl r)(k := None) else lc_view cl r)"
    and "snd (refresh_script cl k token ms r) = (if lc_view cl r k = Some token then 1 else 0)"
  by (simp_all add: refresh_script_def call_facts [OF assms])

lemma eval_script_held:
  assumes "lock_server_ok cl" and "lc_view cl (fst (f r)) j = lc_view cl r j"
  shows "lc_view cl (fst (rd_eval cl f r)) j = lc_view cl r j"
  using eval_facts(2) [OF assms(1), of f r] assms(2) by auto

section \<open>Many processes\<close>

datatype lock_op =
    OpTry "byte list option" string int
  | OpRelease string string
  | OpRefresh string string int
  | OpCheck string string
  | OpStop

datatype lock_out = Got string string | Freed string string | Quiet

fun exec_op :: "'r lock_client \<Rightarrow> lock_op \<Rightarrow> RedisLock \<times> 'r \<Rightarrow> (RedisLock \<times> 'r) \<times> lock_out" where
  "exec_op cl (OpTry rnd key t) s =
     (let (s, res) = TryAcquire cl rnd key t s
      in (s, case res of Ret (token, True) \<Rightarrow> Got key token | _ \<Rightarrow> Quiet))"
| "exec_op cl (OpRelease key token) s =
     (let (s, res) = Release cl key token s
      in (s, if res = Some (Ret True) then Freed key token else Quiet))"
| "exec_op cl (OpRefresh key token t) s = (fst (Refresh cl key token t s), Quiet)"
| "exec_op cl (OpCheck key token) s = (fst (IsLocked cl key token s), Quiet)"
| "exec_op cl OpStop s =
     (case handleStopRenewal (fst s) of Ret l \<Rightarrow> ((l, snd s), Quiet) | _ \<Rightarrow> (s, Quiet))"

fun run_ops ::
    "'r lock_client \<Rightarrow> (nat \<times> lock_op) list \<Rightarrow> (nat \<Rightarrow> RedisLock) \<times> 'r \<Rightarrow>
      ((nat \<Rightarrow> RedisLock) \<times> 'r) \<times> lock_out list" where
  "run_ops cl [] w = (w, [])"
| "run_ops cl ((i, p) # ops) (ls, r) =
     (let ((l, r), out) = exec_op cl p (ls i, r);
          (w, outs) = run_ops cl ops (ls(i := l), r)
      in (w, out # outs))"

text \<open>What the holder of a token must not do if it wants to keep the lock.\<close>

fun gives_up :: "string \<Rightarrow> string \<Rightarrow> lock_op \<Rightarrow> bool" where
  "gives_up key token (OpRelease k t) \<longleftrightarrow> k = key \<and> t = token"
| "gives_up key token (OpRefresh k t ns) \<longleftrightarrow> k = key \<and> t = token \<and> ns < 1000000"
| "gives_up key token _ \<longleftrightarrow> False"

lemma exec_op_prefix: "KeyPrefix (fst (fst (exec_op cl p (l, r)))) = KeyPrefix l"
proof (cases p)
  case (OpTry rnd key t)
  then show ?thesis
    by (auto simp: TryAcquire_def startAutoRenew_def with_recv_def Let_def split_def split: go.splits)
next
  case (OpRelease key token)
  then show ?thesis
    by (auto simp: Release_def stopAutoRenew_def Let_def split_def split: go.splits)
next
  case (OpRefresh key token t)
  then show ?thesis
    by (auto simp: Refresh_def with_recv_def Let_def split_def split: go.splits option.splits)
next
  case (OpCheck key token)
  then show ?thesis
    by (auto simp: IsLocked_def Let_def split_def split: go.splits redis_error.splits)
next
  case OpStop
  then show ?thesis
    by (auto simp: handleStopRenewal_def Let_def split: go.splits list.splits option.splits if_splits)
qed

lemma exec_op_server:
  "snd (fst (exec_op cl (OpRelease key token) (l, r))) =
     fst (rd_eval cl (release_script cl (formatKey l key) token) r)"
  "snd (fst (exec_op cl (OpRefresh key token t) (l, r))) =
     fst (rd_eval cl (refresh_script cl (formatKey l key) token
       (go_quot (if t \<le> 0 then DefaultTimeout l else t) 1000000)) r)"
  "snd (fst (exec_op cl (OpCheck key token) (l, r))) = fst (rd_get (lc_base cl) (formatKey l key) r)"
  "snd (fst (exec_op cl OpStop (l, r))) = r"
  by (auto simp: Release_def Refresh_def IsLocked_def with_recv_def Let_def split_def
      split: go.splits redis_error.splits)

lemma TryAcquire_token:
  assumes "generateToken rnd = Ret token"
  shows "TryAcquire cl rnd key t (l, r) =
    (let t' = (if t \<le> 0 then DefaultTimeout l else t);
         (r', res) = rd_setnx cl (formatKey l key) token t' r
     in case res of
          Panic \<Rightarrow> ((l, r'), Panic)
        | Fail e \<Rightarrow> ((l, r'), Fail (AcquireFailed e))
        | Ret success \<Rightarrow>
            if success
            then ((if AutoRenew l then startAutoRenew key token t' l else l, r'), Ret (token, True))
            else ((l, r'), Ret ([], False)))"
  by (simp add: TryAcquire_def assms Let_def split_def split: go.split)

lemma TryAcquire_no_token:
  assumes "\<And>token. generateToken rnd \<noteq> Ret token"
  shows "\<exists>e. TryAcquire cl rnd key t (l, r) = ((l, r), Fail e)"
proof (cases rnd)
  case (Some b)
  then show ?thesis using assms [of "hex_encode b"] by (simp add: generateToken_def)
qed (simp add: TryAcquire_def generateToken_def)

lemma exec_try_server:
  "snd (fst (exec_op cl (OpTry rnd key t) (l, r))) = r \<or>
   (\<exists>token t'. snd (fst (exec_op cl (OpTry rnd key t) (l, r))) =
      fst (rd_setnx cl (formatKey l key) token t' r))"
proof (cases "\<exists>token. generateToken rnd = Ret token")
  case True
  then obtain token where "generateToken rnd = Ret token" ..
  note T = TryAcquire_token [OF this, of cl key t l r]
  have "snd (fst (exec_op cl (OpTry rnd key t) (l, r))) =
      fst (rd_setnx cl (formatKey l key) token (if t \<le> 0 then DefaultTimeout l else t) r)"
    by (simp add: T Let_def split_def split: go.split)
  then show ?thesis by blast
next
  case False
  then show ?thesis using TryAcquire_no_token [of rnd cl key t l r] by auto
qed

lemma TryAcquire_Got:
  assumes "TryAcquire cl rnd key t (l, r) = ((l', r'), Ret (token, True))"
  obtains t' where "rd_setnx cl (formatKey l key) token t' r = (r', Ret True)"
    and "l' = (if AutoRenew l then startAutoRenew key token t' l else l)"
proof (cases "\<exists>token. generateToken rnd = Ret token")
  case True
  then obtain tk where tk: "generateToken rnd = Ret tk" ..
  define t' where "t' = (if t \<le> 0 then DefaultTimeout l else t)"
  obtain r1 res where R: "rd_setnx cl (formatKey l key) tk t' r = (r1, res)" by (rule prod.exhaust)
  show thesis
  proof (cases res)
    case (Ret b)
    then have "b" "tk = token" "r1 = r'" "l' = (if AutoRenew l then startAutoRenew key token t' l else l)"
      using assms R by (auto simp: TryAcquire_token [OF tk] t'_def [symmetric] Let_def split: if_splits)
    then show thesis using that R Ret by simp
  qed (use assms R in \<open>auto simp: TryAcquire_token [OF tk] t'_def [symmetric] Let_def\<close>)
next
  case False
  then show thesis using TryAcquire_no_token [of rnd cl key t l r] assms by auto
qed

text \<open>One operation of anybody leaves a held lock alone unless its holder gives it up.\<close>

lemma release_keeps:
  assumes ok: "lock_server_ok cl" and "lc_view cl r j = Some token" and "k \<noteq> j \<or> tk \<noteq> token"
  shows "lc_view cl (fst (rd_eval cl (release_script cl k tk) r)) j = Some token"
proof -
  have "lc_view cl (fst (release_script cl k tk r)) j = lc_view cl r j"
    using assms(2,3) by (auto simp: release_script_view(1) [OF ok])
  then show ?thesis using eval_script_held [OF ok, of "release_script cl k tk"] assms(2) by simp
qed

lemma refresh_keeps:
  assumes ok: "lock_server_ok cl" and "lc_view cl r j = Some token"
    and "k \<noteq> j \<or> tk \<noteq> token \<or> 0 < ms"
  shows "lc_view cl (fst (rd_eval cl (refresh_script cl k tk ms) r)) j = Some token"
proof -
  have "lc_view cl (fst (refresh_script cl k tk ms r)) j = lc_view cl r j"
    using assms(2,3) by (auto simp: refresh_script_view(1) [OF ok])
  then show ?thesis using eval_script_held [OF ok, of "refresh_script cl k tk ms"] assms(2) by simp
qed

lemma exec_op_keeps:
  assumes ok: "lock_server_ok cl" and px: "KeyPrefix l = px"
    and held: "lc_view cl r (px @ key) = Some token" and p: "\<not> gives_up key token p"
  shows "lc_view cl (snd (fst (exec_op cl p (l, r)))) (px @ key) = Some token"
proof (cases p)
  case (OpTry rnd k t)
  have set: "lc_view cl (fst (rd_setnx cl k' v t' r)) (px @ key) = Some token" for k' v t'
    using setnx_facts(3) [OF ok, of r "px @ key" k' v t'] held by simp
  from exec_try_server [of cl rnd k t l r] show ?thesis
  proof
    assume "snd (fst (exec_op cl (OpTry rnd k t) (l, r))) = r"
    then show ?thesis using held OpTry by (simp only:)
  next
    assume "\<exists>tk t'. snd (fst (exec_op cl (OpTry rnd k t) (l, r))) =
      fst (rd_setnx cl (formatKey l k) tk t' r)"
    then show ?thesis using OpTry set by (simp only:) fastforce
  qed
next
  case (OpRelease k tk)
  then have "formatKey l k \<noteq> px @ key \<or> tk \<noteq> token" using p px by (auto simp: formatKey_def)
  from release_keeps [OF ok held this] show ?thesis by (simp only: OpRelease exec_op_server)
next
  case (OpRefresh k tk t)
  let ?ms = "go_quot (if t \<le> 0 then DefaultTimeout l else t) 1000000"
  have "0 < go_quot t 1000000" if "1000000 \<le> t" using that by (simp add: go_quot_def)
  then have "formatKey l k \<noteq> px @ key \<or> tk \<noteq> token \<or> 0 < ?ms"
    using p px OpRefresh by (auto simp: formatKey_def)
  from refresh_keeps [OF ok held this] show ?thesis by (simp only: OpRefresh exec_op_server)
next
  case (OpCheck k tk)
  have "lc_view cl (fst (rd_get (lc_base cl) (formatKey l k) r)) = lc_view cl r"
    using ok by (simp add: lock_server_ok_def get_law_def lc_view_def)
  then show ?thesis using held by (simp only: OpCheck exec_op_server)
next
  case OpStop
  then show ?thesis using held by (simp only: exec_op_server)
qed

lemma exec_op_not_Got:
  assumes ok: "lock_server_ok cl" and "KeyPrefix l = px" and "lc_view cl r (px @ key) = Some token"
  shows "snd (exec_op cl p (l, r)) \<noteq> Got key tk"
proof
  assume got: "snd (exec_op cl p (l, r)) = Got key tk"
  then obtain rnd t where p: "p = OpTry rnd key t"
    by (cases p) (auto simp: Let_def split_def split: go.splits prod.splits bool.splits if_splits)
  obtain l' r' where "TryAcquire cl rnd key t (l, r) = ((l', r'), Ret (tk, True))"
    using got p by (cases "TryAcquire cl rnd key t (l, r)")
      (auto simp: Let_def split_def split: go.splits prod.splits bool.splits if_splits)
  then obtain t' where "rd_setnx cl (formatKey l key) tk t' r = (r', Ret True)"
    by (rule TryAcquire_Got)
  then have "lc_view cl r (formatKey l key) = None" using setnx_facts(1) [OF ok, of "formatKey l key" tk t' r True]
    by simp
  then show False using assms by (simp add: formatKey_def)
qed

lemma run_ops_keeps:
  assumes "lock_server_ok cl" and "\<And>i. KeyPrefix (ls i) = px"
    and "lc_view cl r (px @ key) = Some token" and "\<forall>(i, p) \<in> set ops. \<not> gives_up key token p"
  shows "lc_view cl (snd (fst (run_ops cl ops (ls, r)))) (px @ key) = Some token \<and>
    (\<forall>tk. Got key tk \<notin> set (snd (run_ops cl ops (ls, r))))"
  using assms(2-)
proof (induction ops arbitrary: ls r)
  case (Cons ip ops)
  obtain i p where ip: "ip = (i, p)" by (cases ip)
  let ?E = "exec_op cl p (ls i, r)"
  have held: "lc_view cl (snd (fst ?E)) (px @ key) = Some token"
    using Cons.prems ip by (intro exec_op_keeps [OF assms(1)]) auto
  have "lc_view cl (snd (fst (run_ops cl ops (ls(i := fst (fst ?E)), snd (fst ?E))))) (px @ key) =
      Some token \<and> (\<forall>tk. Got key tk \<notin> set (snd (run_ops cl ops (ls(i := fst (fst ?E)), snd (fst ?E)))))"
    using Cons.prems held exec_op_prefix [of cl p "ls i" r] ip by (intro Cons.IH) auto
  moreover have "snd ?E \<noteq> Got key tk" for tk
    by (rule exec_op_not_Got [OF assms(1) _ Cons.prems(2)]) (rule Cons.prems(1))
  ultimately show ?case by (simp add: ip Let_def split_def) metis
qed simp

section \<open>Renewal\<close>

text \<open>
  No channel of an active lock is closed and no two active locks share a token; then closing never
  panics. A token is fresh when neither an active lock nor a closed channel has it.
\<close>

definition renew_ok :: "RedisLock \<Rightarrow> bool" where
  "renew_ok l \<longleftrightarrow>
     (\<forall>k info. fmlookup (activeLocks l) k = Some info \<longrightarrow> li_token info \<notin> set (renewClosed l)) \<and>
     (\<forall>k j info info'. fmlookup (activeLocks l) k = Some info \<and> fmlookup (activeLocks l) j = Some info' \<and>
        li_token info = li_token info' \<longrightarrow> k = j)"

definition fresh_token :: "string \<Rightarrow> RedisLock \<Rightarrow> bool" where
  "fresh_token token l \<longleftrightarrow> token \<notin> set (renewClosed l) \<and>
     (\<forall>k info. fmlookup (activeLocks l) k = Some info \<longrightarrow> li_token info \<noteq> token)"

lemma renew_ok_start:
  assumes "renew_ok l" and "fresh_token token l"
  shows "renew_ok (startAutoRenew key token t l)"
  using assms unfolding renew_ok_def fresh_token_def startAutoRenew_def
  by (simp split: if_splits) blast

lemma renew_ok_stop:
  assumes "renew_ok l"
  shows "\<exists>l'. handleStopRenewal l = Ret l' \<and> renew_ok l'"
proof (cases "stopQueue l")
  case (Cons key rest)
  show ?thesis
  proof (cases "fmlookup (activeLocks l) key")
    case None
    then show ?thesis using Cons assms by (simp add: handleStopRenewal_def renew_ok_def)
  next
    case (Some info)
    let ?l = "l\<lparr>stopQueue := rest, renewClosed := li_token info # renewClosed l,
      activeLocks := fmdrop key (activeLocks l)\<rparr>"
    have new: "li_token info \<notin> set (renewClosed l)" using assms Some by (simp add: renew_ok_def)
    then have "handleStopRenewal l = Ret ?l" using Cons Some by (simp add: handleStopRenewal_def)
    moreover have "renew_ok ?l"
      using assms Some unfolding renew_ok_def by (simp split: if_splits) metis
    ultimately show ?thesis by blast
  qed
qed (simp add: handleStopRenewal_def assms)

lemma renew_interval_bounds:
  assumes "3 \<le> timeout"
  shows "0 < renew_interval l timeout \<and> 3 * renew_interval l timeout \<le> timeout"
  using assms by (auto simp: renew_interval_def go_quot_def Let_def)

section \<open>A lock server to run the code against\<close>

definition list_lock_server :: "((string \<times> string) list) lock_client" where
  "list_lock_server =
     \<lparr>lc_base = list_server,
      rd_setnx = \<lambda>k v t r. if map_of r k = None then ((k, v) # r, Ret True) else (r, Ret False),
      rd_eval = \<lambda>f r. (fst (f r), Ret (snd (f r))),
      sv_del = \<lambda>k r. (filter (\<lambda>p. fst p \<noteq> k) r, if map_of r k = None then 0 else 1),
      sv_pexpire = \<lambda>k ms r. (if ms \<le> 0 then filter (\<lambda>p. fst p \<noteq> k) r else r,
        if map_of r k = None then 0 else 1)\<rparr>"

lemma list_lock_view: "lc_view list_lock_server r = map_of r"
  by (simp add: lc_view_def list_lock_server_def list_server_def list_view_def fun_eq_iff)

lemma list_lock_commands:
  "rd_setnx list_lock_server k v t r =
     (if map_of r k = None then ((k, v) # r, Ret True) else (r, Ret False))"
  "rd_eval list_lock_server f r = (fst (f r), Ret (snd (f r)))"
  "sv_del list_lock_server k r =
     (filter (\<lambda>p. fst p \<noteq> k) r, if map_of r k = None then 0 else 1)"
  "sv_pexpire list_lock_server k ms r =
     (if ms \<le> 0 then filter (\<lambda>p. fst p \<noteq> k) r else r, if map_of r k = None then 0 else 1)"
  by (simp_all add: list_lock_server_def)

lemma list_lock_server_ok: "lock_server_ok list_lock_server"
proof -
  have "get_law (lc_base list_lock_server)"
    using list_server_ok by (simp add: list_lock_server_def redis_ok_def)
  moreover have "setnx_law list_lock_server"
    by (auto simp: setnx_law_def list_lock_view list_lock_commands Let_def)
  moreover have "script_law list_lock_server"
    by (simp add: script_law_def list_lock_commands)
  moreover have "call_law list_lock_server"
    by (simp add: call_law_def list_lock_view list_lock_commands map_of_filter_key)
  ultimately show ?thesis by (simp add: lock_server_ok_def)
qed

section \<open>Properties\<close>


definition sample_lock :: RedisLock where
  "sample_lock = NewLock 30000000000 100000000 True 10000000000 ''lock:''"


text \<open>The stop of a renewal goes by key: when a lock has expired and the same process has acquired
  it again, the renewal goroutine of the old lock finds its token gone and stops the renewal of the
  new lock, which is still held.\<close>

lemma stale_tick_stops_renewal:
  assumes "renew_tick cl key old t (l, r) = ((l', r'), Some (Ret False))"
    and "fmlookup (activeLocks l) key = Some info" and "li_token info \<noteq> old"
    and "stopQueue l = []" and "handleStopRenewal l' = Ret l''"
  shows "fmlookup (activeLocks l'') key = None \<and> li_token info \<in> set (renewClosed l'')"
proof -
  have "activeLocks (fst (fst (Refresh cl key old t (l, r)))) = activeLocks l"
    and "stopQueue (fst (fst (Refresh cl key old t (l, r)))) = stopQueue l"
    using assms(2,3)
    by (auto simp: Refresh_def with_recv_def Let_def split_def split: go.splits)
  then have "activeLocks l' = activeLocks l" "stopQueue l' = [key]"
    using assms(1,4)
    by (auto simp: renew_tick_def stopAutoRenew_def Let_def split_def
        split: go.splits bool.splits if_splits)
  then show ?thesis
    using assms(2,5) by (auto simp: handleStopRenewal_def Let_def split: if_splits)
qed

end
