(* ===== verification/Cache_Sync.thy ===== *)
theory Cache_Sync
  imports Redis_Cache Text_Codec "HOL-Library.AList"
begin

text \<open>
  The write-behind cache of \<^verbatim>\<open>src/pkg/db/cache_sync.go\<close>: reads go through the Redis
  cache, the dirty entries and the database; writes go to the cache and are flushed to the database
  later, in batches. The database is what it answers to the coming statements, together with the log
  of the statements it got; a Go map is the list of its entries in the order in which the code visits
  it. The average flush time, a floating-point statistic, is left out.
\<close>

section \<open>Values and the database\<close>

datatype 'x dbval = VString string | VOther 'x

type_synonym 'x EntityData = "(string \<times> 'x dbval) list"

text \<open>
  The answers of the asynchronous database: a statement is rejected when it cannot be enqueued;
  otherwise its callback reports success or failure. A row is \<^term>\<open>None\<close> when scanning it fails.
\<close>

datatype exec_answer = ExecRejected | ExecDone | ExecFailed

datatype 'x query_answer = QueryRejected | QueryFailed | QueryRows "'x EntityData option list"

record 'x database =
  exec_answers :: "exec_answer list"
  query_answers :: "'x query_answer list"
  db_log :: "(string \<times> 'x dbval list) list"

definition ExecAsync :: "string \<Rightarrow> 'x dbval list \<Rightarrow> 'x database \<Rightarrow> 'x database \<times> exec_answer" where
  "ExecAsync sql args db =
     (case exec_answers db of
        [] \<Rightarrow> (db, ExecRejected)
      | a # rest \<Rightarrow>
          (db\<lparr>exec_answers := rest,
              db_log := (if a = ExecRejected then db_log db else db_log db @ [(sql, args)])\<rparr>, a))"

definition QueryAsync :: "string \<Rightarrow> 'x dbval list \<Rightarrow> 'x database \<Rightarrow> 'x database \<times> 'x query_answer" where
  "QueryAsync sql args db =
     (case query_answers db of
        [] \<Rightarrow> (db, QueryRejected)
      | a # rest \<Rightarrow>
          (db\<lparr>query_answers := rest,
              db_log := (if a = QueryRejected then db_log db else db_log db @ [(sql, args)])\<rparr>, a))"

section \<open>State\<close>

datatype DirtyStatus = DirtyStatusNew | DirtyStatusPending | DirtyStatusFlushing

text \<open>The data is \<^term>\<open>None\<close> for a deletion.\<close>

record 'x DirtyEntry =
  EntityType :: string
  EntityID :: string
  Data :: "'x EntityData option"
  ModifiedAt :: int
  Status :: DirtyStatus
  de_Version :: int
  Tags :: "string list"

record WriteOptions =
  Immediate :: bool
  wo_Version :: int
  wo_Tags :: "string list"

record CacheSyncStats =
  CacheHits :: int
  CacheMisses :: int
  DirtyCount :: nat
  FlushCount :: int
  FlushedEntries :: int
  LastFlushTime :: int

record ('r, 'x) cacheSync =
  BatchSize :: int
  CacheTTL :: int
  MaxDirtySize :: int
  cache :: "('r, 'x EntityData) RedisCache"
  asyncDB :: "'x database"
  dirtyEntries :: "(string, 'x DirtyEntry) fmap"
  stats :: CacheSyncStats
  isClosed :: bool

datatype sync_error =
    EntityMissing
  | ScanFailed
  | SelectRejected
  | SelectFailed
  | WriteCacheFailed cache_error
  | WriteRejected
  | WriteFailed

definition NewCacheSync ::
    "('r, 'x EntityData) RedisCache \<Rightarrow> 'x database \<Rightarrow> int \<Rightarrow> int \<Rightarrow> int \<Rightarrow> ('r, 'x) cacheSync" where
  "NewCacheSync c db batch ttl maxDirty =
     \<lparr>BatchSize = batch, CacheTTL = ttl, MaxDirtySize = maxDirty, cache = c, asyncDB = db,
      dirtyEntries = fmempty,
      stats = \<lparr>CacheHits = 0, CacheMisses = 0, DirtyCount = 0, FlushCount = 0, FlushedEntries = 0,
        LastFlushTime = 0\<rparr>,
      isClosed = False\<rparr>"

definition formatCacheKey :: "string \<Rightarrow> string \<Rightarrow> string" where
  "formatCacheKey entityType entityID = ''entity:'' @ entityType @ '':'' @ entityID"

definition formatDirtyKey :: "string \<Rightarrow> string \<Rightarrow> string" where
  "formatDirtyKey entityType entityID = entityType @ '':'' @ entityID"

definition count_hit :: "('r, 'x) cacheSync \<Rightarrow> ('r, 'x) cacheSync" where
  "count_hit cs = cs\<lparr>stats := (stats cs)\<lparr>CacheHits := wrap64 (CacheHits (stats cs) + 1)\<rparr>\<rparr>"

definition count_miss :: "('r, 'x) cacheSync \<Rightarrow> ('r, 'x) cacheSync" where
  "count_miss cs = cs\<lparr>stats := (stats cs)\<lparr>CacheMisses := wrap64 (CacheMisses (stats cs) + 1)\<rparr>\<rparr>"

text \<open>A write to the cache whose outcome the code ignores.\<close>

definition cache_put :: "string \<Rightarrow> 'x EntityData \<Rightarrow> ('r, 'x) cacheSync \<Rightarrow> ('r, 'x) cacheSync" where
  "cache_put key data cs = cs\<lparr>cache := fst (Cache_Set key data (CacheTTL cs) (cache cs))\<rparr>"

section \<open>SQL\<close>

fun join :: "string \<Rightarrow> string list \<Rightarrow> string" where
  "join sep [] = []"
| "join sep [s] = s"
| "join sep (s # t # ss) = s @ sep @ join sep (t # ss)"

definition placeholder_n :: "nat \<Rightarrow> string" where
  "placeholder_n i = ''$'' @ show_nat i"

definition placeholders :: "nat \<Rightarrow> string list" where
  "placeholders n = map placeholder_n [1..<Suc n]"

definition select_sql :: "string \<Rightarrow> string" where
  "select_sql entityType = ''SELECT * FROM '' @ entityType @ '' WHERE id = $1''"

definition select_multi_sql :: "string \<Rightarrow> nat \<Rightarrow> string" where
  "select_multi_sql entityType n =
     ''SELECT * FROM '' @ entityType @ '' WHERE id IN ('' @ join '', '' (placeholders n) @ '')''"

definition update_fields :: "'x EntityData \<Rightarrow> 'x EntityData" where
  "update_fields data = filter (\<lambda>(field, value). field \<noteq> ''id'') data"

definition update_sql :: "string \<Rightarrow> 'x EntityData \<Rightarrow> string" where
  "update_sql entityType data =
     (let fs = update_fields data
      in ''UPDATE '' @ entityType @ '' SET '' @ join '', '' (map fst fs) @ '' = '' @
         join '', '' (placeholders (length fs)) @ '' WHERE id = $'' @ show_nat (length fs + 1))"

definition update_args :: "string \<Rightarrow> 'x EntityData \<Rightarrow> 'x dbval list" where
  "update_args entityID data = map snd (update_fields data) @ [VString entityID]"

definition delete_sql :: "string \<Rightarrow> string" where
  "delete_sql entityType = ''DELETE FROM '' @ entityType @ '' WHERE id = $1''"

definition delete_multi_sql :: "string \<Rightarrow> nat \<Rightarrow> string" where
  "delete_multi_sql entityType n =
     ''DELETE FROM '' @ entityType @ '' WHERE id IN ('' @ join '', '' (placeholders n) @ '')''"

section \<open>Writing to the database\<close>

definition exec :: "string \<Rightarrow> 'x dbval list \<Rightarrow> ('r, 'x) cacheSync \<Rightarrow> ('r, 'x) cacheSync \<times> (sync_error, unit) go" where
  "exec sql args cs =
     (let (db, a) = ExecAsync sql args (asyncDB cs)
      in (cs\<lparr>asyncDB := db\<rparr>,
          case a of ExecRejected \<Rightarrow> Fail WriteRejected | ExecFailed \<Rightarrow> Fail WriteFailed | ExecDone \<Rightarrow> Ret ()))"

fun flushEntities ::
    "string \<Rightarrow> (string \<times> 'x EntityData) list \<Rightarrow> ('r, 'x) cacheSync \<Rightarrow> ('r, 'x) cacheSync \<times> (sync_error, unit) go" where
  "flushEntities entityType [] cs = (cs, Ret ())"
| "flushEntities entityType ((i, data) # entities) cs =
     (let (cs, res) = exec (update_sql entityType data) (update_args i data) cs
      in with_recv cs res (\<lambda>_. flushEntities entityType entities cs))"

definition executeDelete ::
    "string \<Rightarrow> string \<Rightarrow> ('r, 'x) cacheSync \<Rightarrow> ('r, 'x) cacheSync \<times> (sync_error, unit) go" where
  "executeDelete entityType entityID cs = exec (delete_sql entityType) [VString entityID] cs"

definition executeDeleteMulti ::
    "string \<Rightarrow> string list \<Rightarrow> ('r, 'x) cacheSync \<Rightarrow> ('r, 'x) cacheSync \<times> (sync_error, unit) go" where
  "executeDeleteMulti entityType entityIDs cs =
     (if entityIDs = [] then (cs, Ret ())
      else exec (delete_multi_sql entityType (length entityIDs)) (map VString entityIDs) cs)"

definition flushEntry ::
    "'x DirtyEntry \<Rightarrow> ('r, 'x) cacheSync \<Rightarrow> ('r, 'x) cacheSync \<times> (sync_error, unit) go" where
  "flushEntry entry cs =
     (case Data entry of
        None \<Rightarrow> executeDelete (EntityType entry) (EntityID entry) cs
      | Some data \<Rightarrow> flushEntities (EntityType entry) [(EntityID entry, data)] cs)"

text \<open>The two groups of a batch: the updates as a map from IDs, and the IDs to delete.\<close>

definition batch_updates :: "'x DirtyEntry list \<Rightarrow> (string \<times> 'x EntityData) list" where
  "batch_updates entries =
     foldl (\<lambda>m e. case Data e of None \<Rightarrow> m | Some d \<Rightarrow> AList.update (EntityID e) d m) [] entries"

definition batch_deletes :: "'x DirtyEntry list \<Rightarrow> string list" where
  "batch_deletes entries = map EntityID (filter (\<lambda>e. Data e = None) entries)"

definition flushBatch ::
    "string \<Rightarrow> 'x DirtyEntry list \<Rightarrow> ('r, 'x) cacheSync \<Rightarrow> ('r, 'x) cacheSync \<times> (sync_error, unit) go" where
  "flushBatch entityType entries cs =
     (if entries = [] then (cs, Ret ())
      else
        let (cs, res) = (if batch_updates entries \<noteq> [] then flushEntities entityType (batch_updates entries) cs
                         else (cs, Ret ()))
        in with_recv cs res (\<lambda>_.
        let (cs, res) = (if batch_deletes entries \<noteq> [] then executeDeleteMulti entityType (batch_deletes entries) cs
                         else (cs, Ret ()))
        in with_recv cs res (\<lambda>_.
        (cs\<lparr>dirtyEntries := foldl (\<lambda>m e. fmdrop (formatDirtyKey (EntityType e) (EntityID e)) m)
              (dirtyEntries cs) entries\<rparr>, Ret ()))))"

section \<open>Flushing\<close>

text \<open>The entries to flush: the new ones, in visiting order, marked as pending on the way.\<close>

definition collect_step ::
    "(string, 'x DirtyEntry) fmap \<times> 'x DirtyEntry list \<Rightarrow> string \<Rightarrow>
      (string, 'x DirtyEntry) fmap \<times> 'x DirtyEntry list" where
  "collect_step = (\<lambda>(m, es) k.
     case fmlookup m k of
       None \<Rightarrow> (m, es)
     | Some e \<Rightarrow>
         if Status e = DirtyStatusNew
         then (fmupd k (e\<lparr>Status := DirtyStatusPending\<rparr>) m, es @ [e\<lparr>Status := DirtyStatusPending\<rparr>])
         else (m, es))"

definition collect ::
    "string list \<Rightarrow> (string, 'x DirtyEntry) fmap \<Rightarrow> (string, 'x DirtyEntry) fmap \<times> 'x DirtyEntry list" where
  "collect order m = foldl collect_step (m, []) order"

definition list_slice :: "'a list \<Rightarrow> int \<Rightarrow> int \<Rightarrow> ('e, 'a list) go" where
  "list_slice xs lo hi =
     (if 0 \<le> lo \<and> lo \<le> hi \<and> hi \<le> int (length xs)
      then Ret (take (nat (hi - lo)) (drop (nat lo) xs)) else Panic)"

definition batch_count :: "int \<Rightarrow> nat \<Rightarrow> (sync_error, int) go" where
  "batch_count batch n =
     (if batch = 0 then Panic else Ret (go_quot (wrap64 (int n + batch - 1)) batch))"

fun batch_loop ::
    "string \<Rightarrow> 'x DirtyEntry list \<Rightarrow> nat list \<Rightarrow> sync_error list \<Rightarrow> ('r, 'x) cacheSync \<Rightarrow>
      ('r, 'x) cacheSync \<times> (sync_error, sync_error list) go" where
  "batch_loop entityType entries [] errs cs = (cs, Ret errs)"
| "batch_loop entityType entries (i # rest) errs cs =
     (let start = int i * BatchSize cs;
          stop = start + BatchSize cs;
          stop = (if int (length entries) < stop then int (length entries) else stop)
      in with_recv cs (list_slice entries start stop) (\<lambda>batchEntries.
      let (cs, res) = flushBatch entityType batchEntries cs
      in case res of
           Panic \<Rightarrow> (cs, Panic)
         | Fail e \<Rightarrow> batch_loop entityType entries rest (errs @ [e]) cs
         | Ret _ \<Rightarrow> batch_loop entityType entries rest errs cs))"

text \<open>\<open>types\<close> is the order in which the groups are visited.\<close>

fun type_loop ::
    "string list \<Rightarrow> 'x DirtyEntry list \<Rightarrow> sync_error list \<Rightarrow> ('r, 'x) cacheSync \<Rightarrow>
      ('r, 'x) cacheSync \<times> (sync_error, sync_error list) go" where
  "type_loop [] entries errs cs = (cs, Ret errs)"
| "type_loop (t # types) entries errs cs =
     (let group = filter (\<lambda>e. EntityType e = t) entries
      in with_recv cs (batch_count (BatchSize cs) (length group)) (\<lambda>n.
      let (cs, res) = batch_loop t group [0..<nat n] errs cs
      in with_recv cs res (\<lambda>errs. type_loop types entries errs cs)))"

definition Flush ::
    "string list \<Rightarrow> string list \<Rightarrow> int \<Rightarrow> ('r, 'x) cacheSync \<Rightarrow> ('r, 'x) cacheSync \<times> (sync_error, unit) go" where
  "Flush order types now cs =
     (let (m, entries) = collect order (dirtyEntries cs);
          cs = cs\<lparr>dirtyEntries := m\<rparr>
      in if entries = [] then (cs, Ret ())
         else
           let (cs, res) = type_loop types entries [] cs
           in with_recv cs res (\<lambda>errs.
           (cs\<lparr>stats := (stats cs)\<lparr>FlushCount := wrap64 (FlushCount (stats cs) + 1),
                 FlushedEntries := wrap64 (FlushedEntries (stats cs) + int (length entries)),
                 LastFlushTime := now\<rparr>\<rparr>,
            case errs of [] \<Rightarrow> Ret () | e # _ \<Rightarrow> Fail e)))"

section \<open>Reading\<close>

text \<open>The entity of a row: a map from column names, later columns overriding earlier ones.\<close>

definition row_entity :: "'x EntityData \<Rightarrow> 'x EntityData" where
  "row_entity cells = foldl (\<lambda>m (c, v). AList.update c v m) [] cells"

definition CS_Get ::
    "string \<Rightarrow> string \<Rightarrow> ('r, 'x) cacheSync \<Rightarrow> ('r, 'x) cacheSync \<times> (sync_error, 'x EntityData) go" where
  "CS_Get entityType entityID cs =
     (let cacheKey = formatCacheKey entityType entityID;
          (c, res) = Cache_Get DestObject cacheKey (cache cs);
          cs = cs\<lparr>cache := c\<rparr>
      in case res of
           Panic \<Rightarrow> (cs, Panic)
         | Ret (Parsed data) \<Rightarrow> (count_hit cs, Ret data)
         | Ret (Raw _) \<Rightarrow> (count_hit cs, Ret [])
         | Fail _ \<Rightarrow>
             (case Option.bind (fmlookup (dirtyEntries cs) (formatDirtyKey entityType entityID)) Data of
                Some dirtyData \<Rightarrow> (cache_put cacheKey dirtyData cs, Ret dirtyData)
              | None \<Rightarrow>
                  (let cs = count_miss cs;
                       (db, a) = QueryAsync (select_sql entityType) [VString entityID] (asyncDB cs);
                       cs = cs\<lparr>asyncDB := db\<rparr>
                   in case a of
                        QueryRejected \<Rightarrow> (cs, Fail SelectRejected)
                      | QueryFailed \<Rightarrow> (cs, Fail SelectFailed)
                      | QueryRows [] \<Rightarrow> (cs, Fail EntityMissing)
                      | QueryRows (None # _) \<Rightarrow> (cs, Fail ScanFailed)
                      | QueryRows (Some cells # _) \<Rightarrow>
                          (cache_put cacheKey (row_entity cells) cs, Ret (row_entity cells)))))"

text \<open>The loop over the answer of \<^verbatim>\<open>MGet\<close>: found entities and missing IDs.\<close>

fun mget_loop ::
    "(string \<times> string option) list \<Rightarrow> (string, 'x EntityData) fmap \<Rightarrow> string list \<Rightarrow> ('r, 'x) cacheSync \<Rightarrow>
      (string, 'x EntityData) fmap \<times> string list \<times> ('r, 'x) cacheSync" where
  "mget_loop [] result missing cs = (result, missing, cs)"
| "mget_loop ((i, val) # rest) result missing cs =
     (case Option.bind val (unmarshal (cache cs)) of
        Some data \<Rightarrow> mget_loop rest (fmupd i data result) missing (count_hit cs)
      | None \<Rightarrow> mget_loop rest result (missing @ [i]) (count_miss cs))"

text \<open>
  The pass over the dirty entries. \<^verbatim>\<open>range\<close> reads the backing array \<open>b\<close> of the
  missing IDs up to their original number, while the body removes IDs from the slice of length
  \<open>m\<close> over the same array by shifting its tail to the left.
\<close>

definition remove_at :: "nat \<Rightarrow> nat \<Rightarrow> 'a list \<Rightarrow> 'a list" where
  "remove_at i m b = take i b @ drop (Suc i) (take m b) @ drop (m - 1) b"

fun index_of :: "'a \<Rightarrow> 'a list \<Rightarrow> nat option" where
  "index_of x [] = None"
| "index_of x (y # ys) = (if y = x then Some 0 else map_option Suc (index_of x ys))"

fun dirty_loop ::
    "string \<Rightarrow> nat list \<Rightarrow> string list \<Rightarrow> nat \<Rightarrow> (string, 'x EntityData) fmap \<Rightarrow> ('r, 'x) cacheSync \<Rightarrow>
      string list \<times> (string, 'x EntityData) fmap \<times> ('r, 'x) cacheSync" where
  "dirty_loop entityType [] b m result cs = (take m b, result, cs)"
| "dirty_loop entityType (k # ks) b m result cs =
     (let i = b ! k
      in case Option.bind (fmlookup (dirtyEntries cs) (formatDirtyKey entityType i)) Data of
           None \<Rightarrow> dirty_loop entityType ks b m result cs
         | Some dirtyData \<Rightarrow>
             (let (b, m) = (case index_of i (take m b) of
                              None \<Rightarrow> (b, m)
                            | Some j \<Rightarrow> (remove_at j m b, m - 1))
              in dirty_loop entityType ks b m (fmupd i dirtyData result)
                   (cache_put (formatCacheKey entityType i) dirtyData cs)))"

text \<open>The rows of the query, by their string ID; a row without one is skipped.\<close>

fun row_id :: "'x EntityData \<Rightarrow> string \<Rightarrow> string" where
  "row_id [] i = i"
| "row_id ((c, v) # cells) i =
     row_id cells (if c = ''id'' then (case v of VString s \<Rightarrow> s | VOther _ \<Rightarrow> i) else i)"

fun rows_loop :: "'x EntityData option list \<Rightarrow> (string \<times> 'x EntityData) list \<Rightarrow>
    (string \<times> 'x EntityData) list option" where
  "rows_loop [] acc = Some acc"
| "rows_loop (None # rows) acc = None"
| "rows_loop (Some cells # rows) acc =
     rows_loop rows (if row_id cells [] \<noteq> [] then AList.update (row_id cells []) (row_entity cells) acc
                     else acc)"

definition merge_rows ::
    "string \<Rightarrow> (string \<times> 'x EntityData) list \<Rightarrow> (string, 'x EntityData) fmap \<times> ('r, 'x) cacheSync \<Rightarrow>
      (string, 'x EntityData) fmap \<times> ('r, 'x) cacheSync" where
  "merge_rows entityType rows s =
     foldl (\<lambda>(result, cs) (i, entity).
        (fmupd i entity result, cache_put (formatCacheKey entityType i) entity cs)) s rows"

text \<open>The result map is returned also when there is an error.\<close>

definition CS_GetMulti ::
    "string \<Rightarrow> string list \<Rightarrow> ('r, 'x) cacheSync \<Rightarrow>
      ('r, 'x) cacheSync \<times> (string, 'x EntityData) fmap \<times> (sync_error, unit) go" where
  "CS_GetMulti entityType entityIDs cs =
     (if entityIDs = [] then (cs, fmempty, Ret ())
      else
        let (c, res) = Cache_MGet (map (formatCacheKey entityType) entityIDs) (cache cs);
            cs = cs\<lparr>cache := c\<rparr>
        in case res of
             Panic \<Rightarrow> (cs, fmempty, Panic)
           | _ \<Rightarrow>
        (let (result, missing, cs) =
               (case res of
                  Ret vals \<Rightarrow> mget_loop (zip entityIDs vals) fmempty [] cs
                | _ \<Rightarrow> (fmempty, [], cs));
             (missing, result, cs) =
               dirty_loop entityType [0..<length missing] missing (length missing) result cs
         in if missing = [] then (cs, result, Ret ())
            else
              let (db, a) = QueryAsync (select_multi_sql entityType (length missing))
                    (map VString missing) (asyncDB cs);
                  cs = cs\<lparr>asyncDB := db\<rparr>
              in case a of
                   QueryRejected \<Rightarrow> (cs, result, Fail SelectRejected)
                 | QueryFailed \<Rightarrow> (cs, result, Fail SelectFailed)
                 | QueryRows rows \<Rightarrow>
                     (case rows_loop rows [] of
                        None \<Rightarrow> (cs, result, Fail ScanFailed)
                      | Some dbData \<Rightarrow>
                          (let (result, cs) = merge_rows entityType dbData (result, cs)
                           in (cs, result, Ret ())))))"

section \<open>Writing\<close>

definition dirty_entry ::
    "string \<Rightarrow> string \<Rightarrow> 'x EntityData option \<Rightarrow> int \<Rightarrow> WriteOptions \<Rightarrow> 'x DirtyEntry" where
  "dirty_entry entityType entityID data now opts =
     \<lparr>EntityType = entityType, EntityID = entityID, Data = data, ModifiedAt = now,
      Status = DirtyStatusNew, de_Version = wo_Version opts, Tags = wo_Tags opts\<rparr>"

definition no_options :: WriteOptions where
  "no_options = \<lparr>Immediate = False, wo_Version = 0, wo_Tags = []\<rparr>"

definition opts_or_default :: "WriteOptions option \<Rightarrow> WriteOptions" where
  "opts_or_default opts = (case opts of None \<Rightarrow> no_options | Some opts \<Rightarrow> opts)"

definition mark_dirty :: "'x DirtyEntry \<Rightarrow> ('r, 'x) cacheSync \<Rightarrow> ('r, 'x) cacheSync" where
  "mark_dirty e cs =
     cs\<lparr>dirtyEntries := fmupd (formatDirtyKey (EntityType e) (EntityID e)) e (dirtyEntries cs)\<rparr>"

text \<open>Whether the writer starts a flush in the background.\<close>

definition too_dirty :: "('r, 'x) cacheSync \<Rightarrow> bool" where
  "too_dirty cs \<longleftrightarrow> MaxDirtySize cs \<le> int (fcard (fmdom (dirtyEntries cs)))"

text \<open>The flag of a write tells whether it starts a flush.\<close>

definition CS_Set ::
    "int \<Rightarrow> string \<Rightarrow> string \<Rightarrow> 'x EntityData \<Rightarrow> WriteOptions option \<Rightarrow> ('r, 'x) cacheSync \<Rightarrow>
      ('r, 'x) cacheSync \<times> (sync_error, bool) go" where
  "CS_Set now entityType entityID data opts cs =
     (let opts = opts_or_default opts;
          entry = dirty_entry entityType entityID (Some data) now opts;
          (c, res) = Cache_Set (formatCacheKey entityType entityID) data (CacheTTL cs) (cache cs);
          cs = cs\<lparr>cache := c\<rparr>
      in with_recv cs (go_map_err WriteCacheFailed res) (\<lambda>_.
      if Immediate opts then
        let (cs, res) = flushEntry entry cs in (cs, go_bind res (\<lambda>_. Ret False))
      else
        let cs = mark_dirty entry cs in (cs, Ret (too_dirty cs))))"

definition CS_SetMulti ::
    "int \<Rightarrow> string \<Rightarrow> (string \<times> 'x EntityData) list \<Rightarrow> WriteOptions option \<Rightarrow> ('r, 'x) cacheSync \<Rightarrow>
      ('r, 'x) cacheSync \<times> (sync_error, bool) go" where
  "CS_SetMulti now entityType entities opts cs =
     (if entities = [] then (cs, Ret False)
      else
        let opts = opts_or_default opts;
            (c, res) = Cache_MSet (map (\<lambda>(i, d). (formatCacheKey entityType i, d)) entities) (cache cs);
            cs = cs\<lparr>cache := c\<rparr>
        in with_recv cs (go_map_err WriteCacheFailed res) (\<lambda>_.
        if Immediate opts then
          let (cs, res) = flushEntities entityType entities cs in (cs, go_bind res (\<lambda>_. Ret False))
        else
          let cs = foldl (\<lambda>cs (i, d). mark_dirty (dirty_entry entityType i (Some d) now opts) cs) cs entities
          in (cs, Ret (too_dirty cs))))"

definition CS_Delete ::
    "int \<Rightarrow> string \<Rightarrow> string \<Rightarrow> WriteOptions option \<Rightarrow> ('r, 'x) cacheSync \<Rightarrow>
      ('r, 'x) cacheSync \<times> (sync_error, unit) go" where
  "CS_Delete now entityType entityID opts cs =
     (let opts = opts_or_default opts;
          cs = cs\<lparr>cache := fst (Cache_Delete (formatCacheKey entityType entityID) (cache cs))\<rparr>
      in if Immediate opts then executeDelete entityType entityID cs
         else (mark_dirty (dirty_entry entityType entityID None now opts) cs, Ret ()))"

definition CS_DeleteMulti ::
    "int \<Rightarrow> string \<Rightarrow> string list \<Rightarrow> WriteOptions option \<Rightarrow> ('r, 'x) cacheSync \<Rightarrow>
      ('r, 'x) cacheSync \<times> (sync_error, unit) go" where
  "CS_DeleteMulti now entityType entityIDs opts cs =
     (if entityIDs = [] then (cs, Ret ())
      else
        let opts = opts_or_default opts;
            cs = foldl (\<lambda>cs i. cs\<lparr>cache := fst (Cache_Delete (formatCacheKey entityType i) (cache cs))\<rparr>) cs entityIDs
        in if Immediate opts then executeDeleteMulti entityType entityIDs cs
           else (foldl (\<lambda>cs i. mark_dirty (dirty_entry entityType i None now opts) cs) cs entityIDs, Ret ()))"

definition CS_Stats :: "('r, 'x) cacheSync \<Rightarrow> CacheSyncStats" where
  "CS_Stats cs = (stats cs)\<lparr>DirtyCount := fcard (fmdom (dirtyEntries cs))\<rparr>"

definition CS_Close ::
    "string list \<Rightarrow> string list \<Rightarrow> int \<Rightarrow> ('r, 'x) cacheSync \<Rightarrow> ('r, 'x) cacheSync \<times> (sync_error, unit) go" where
  "CS_Close order types now cs =
     (if isClosed cs then (cs, Ret ())
      else
        let (cs, res) = Flush order types now (cs\<lparr>isClosed := True\<rparr>)
        in (cs, case res of Panic \<Rightarrow> Panic | _ \<Rightarrow> Ret ()))"

section \<open>What a flush does\<close>

abbreviation dirty_key :: "'x DirtyEntry \<Rightarrow> string" where
  "dirty_key e \<equiv> formatDirtyKey (EntityType e) (EntityID e)"

definition dirty_ok :: "(string, 'x DirtyEntry) fmap \<Rightarrow> bool" where
  "dirty_ok m \<longleftrightarrow> (\<forall>k e. fmlookup m k = Some e \<longrightarrow> k = dirty_key e)"

text \<open>A statement for the entry is in the log.\<close>

definition written :: "(string \<times> 'x dbval list) list \<Rightarrow> 'x DirtyEntry \<Rightarrow> bool" where
  "written log e \<longleftrightarrow>
     (case Data e of
        Some d \<Rightarrow> (update_sql (EntityType e) d, update_args (EntityID e) d) \<in> set log
      | None \<Rightarrow> \<exists>ids. EntityID e \<in> set ids \<and>
          (delete_multi_sql (EntityType e) (length ids), map VString ids) \<in> set log)"

lemma written_mono: "written log e \<Longrightarrow> set log \<subseteq> set log' \<Longrightarrow> written log' e"
  by (auto simp: written_def split: option.splits)

text \<open>
  \<open>progress E cs cs'\<close>: the log has grown, and the only dirty entries that are gone are
  entries of \<open>E\<close> that have been written; nothing else of the state has changed.
\<close>

definition progress ::
    "'x DirtyEntry set \<Rightarrow> ('r, 'x) cacheSync \<Rightarrow> ('r, 'x) cacheSync \<Rightarrow> bool" where
  "progress E cs cs' \<longleftrightarrow>
     cs' = cs\<lparr>asyncDB := asyncDB cs', dirtyEntries := dirtyEntries cs'\<rparr> \<and>
     set (db_log (asyncDB cs)) \<subseteq> set (db_log (asyncDB cs')) \<and>
     (\<forall>k. fmlookup (dirtyEntries cs') k = fmlookup (dirtyEntries cs) k \<or>
        fmlookup (dirtyEntries cs') k = None \<and>
        (\<exists>e \<in> E. dirty_key e = k \<and> written (db_log (asyncDB cs')) e))"

lemma progress_refl [simp]: "progress E cs cs"
  by (simp add: progress_def)

lemma progress_BatchSize:
  assumes "progress E cs cs'" shows "BatchSize cs' = BatchSize cs"
proof -
  have "cs' = cs\<lparr>asyncDB := asyncDB cs', dirtyEntries := dirtyEntries cs'\<rparr>"
    using assms by (simp add: progress_def)
  from arg_cong [OF this, of BatchSize] show ?thesis by simp
qed

lemma progress_trans:
  assumes "progress E cs cs'" and "progress E' cs' cs''"
  shows "progress (E \<union> E') cs cs''"
proof -
  let ?D = "\<lambda>cs k. fmlookup (dirtyEntries cs) k"
  have log: "set (db_log (asyncDB cs)) \<subseteq> set (db_log (asyncDB cs'))"
    "set (db_log (asyncDB cs')) \<subseteq> set (db_log (asyncDB cs''))"
    using assms by (simp_all add: progress_def)
  have "?D cs'' k = ?D cs k \<or> ?D cs'' k = None \<and>
      (\<exists>e \<in> E \<union> E'. dirty_key e = k \<and> written (db_log (asyncDB cs'')) e)" for k
  proof (cases "?D cs'' k = ?D cs' k")
    case True
    then show ?thesis
      using assms(1) written_mono [OF _ log(2)] unfolding progress_def by (metis UnI1)
  next
    case False
    then show ?thesis using assms(2) unfolding progress_def by blast
  qed
  moreover have "cs'' = cs\<lparr>asyncDB := asyncDB cs'', dirtyEntries := dirtyEntries cs''\<rparr>"
  proof -
    have "cs'' = cs'\<lparr>asyncDB := asyncDB cs'', dirtyEntries := dirtyEntries cs''\<rparr>"
      using assms(2) by (simp add: progress_def)
    also have "cs' = cs\<lparr>asyncDB := asyncDB cs', dirtyEntries := dirtyEntries cs'\<rparr>"
      using assms(1) by (simp add: progress_def)
    finally show ?thesis by simp
  qed
  ultimately show ?thesis using log by (auto simp: progress_def)
qed

lemma progress_mono: "progress E cs cs' \<Longrightarrow> E \<subseteq> E' \<Longrightarrow> progress E' cs cs'"
  unfolding progress_def by blast

text \<open>One statement.\<close>

lemma exec_effect:
  "fst (exec sql args cs) = cs\<lparr>asyncDB := asyncDB (fst (exec sql args cs))\<rparr>"
  "set (db_log (asyncDB cs)) \<subseteq> set (db_log (asyncDB (fst (exec sql args cs))))"
  "snd (exec sql args cs) = Ret u \<Longrightarrow> (sql, args) \<in> set (db_log (asyncDB (fst (exec sql args cs))))"
  "snd (exec sql args cs) \<noteq> Panic"
  by (auto simp: exec_def ExecAsync_def split: list.splits exec_answer.splits)

lemma exec_dirty: "dirtyEntries (fst (exec sql args cs)) = dirtyEntries cs"
  by (simp add: exec_def split_def Let_def)

lemma exec_progress: "progress E cs (fst (exec sql args cs))"
  unfolding progress_def exec_dirty
  by (intro conjI allI disjI1 refl exec_effect(2)) (simp add: exec_def split_def Let_def)

lemma flushEntities_effect:
  "progress E cs (fst (flushEntities t es cs)) \<and>
   dirtyEntries (fst (flushEntities t es cs)) = dirtyEntries cs \<and>
   snd (flushEntities t es cs) \<noteq> Panic \<and>
   (snd (flushEntities t es cs) = Ret () \<longrightarrow>
     (\<forall>(i, d) \<in> set es. (update_sql t d, update_args i d) \<in> set (db_log (asyncDB (fst (flushEntities t es cs))))))"
proof (induction es arbitrary: cs)
  case (Cons p es)
  obtain i d where p: "p = (i, d)" by (cases p)
  let ?X = "exec (update_sql t d) (update_args i d) cs"
  show ?case
  proof (cases "snd ?X")
    case (Ret u)
    note IH = Cons.IH [of "fst ?X"]
    have F: "flushEntities t (p # es) cs = flushEntities t es (fst ?X)"
      using Ret by (simp add: p Let_def split_def)
    have "progress (E \<union> E) cs (fst (flushEntities t es (fst ?X)))"
      by (rule progress_trans [OF exec_progress]) (use IH in blast)
    moreover have "(update_sql t d, update_args i d) \<in> set (db_log (asyncDB (fst (flushEntities t es (fst ?X)))))"
      using exec_effect(3) [OF Ret] IH by (auto simp: progress_def)
    ultimately show ?thesis using IH by (simp only: F) (auto simp: p exec_dirty)
  next
    case (Fail e)
    then have "flushEntities t (p # es) cs = (fst ?X, Fail e)" by (simp add: p Let_def split_def)
    then show ?thesis by (simp add: exec_progress exec_dirty)
  qed (simp add: exec_effect(4))
qed simp

lemma executeDeleteMulti_none [simp]: "executeDeleteMulti t [] cs = (cs, Ret ())"
  by (simp add: executeDeleteMulti_def)

lemma executeDeleteMulti_effect:
  "progress E cs (fst (executeDeleteMulti t ids cs))"
  "dirtyEntries (fst (executeDeleteMulti t ids cs)) = dirtyEntries cs"
  "snd (executeDeleteMulti t ids cs) \<noteq> Panic"
  "snd (executeDeleteMulti t ids cs) = Ret u \<Longrightarrow> ids \<noteq> [] \<Longrightarrow>
    (delete_multi_sql t (length ids), map VString ids) \<in> set (db_log (asyncDB (fst (executeDeleteMulti t ids cs))))"
  by (auto simp: executeDeleteMulti_def exec_progress exec_dirty exec_effect(3,4))

text \<open>The updates of a batch with distinct IDs.\<close>

lemma batch_updates_fold:
  assumes "distinct (map EntityID es)" and "\<forall>e \<in> set es. EntityID e \<noteq> i"
  shows "map_of (foldl (\<lambda>m e. case Data e of None \<Rightarrow> m | Some d \<Rightarrow> AList.update (EntityID e) d m) m es) i =
    map_of m i"
  using assms by (induction es arbitrary: m) (auto simp: update_conv split: option.splits)

lemma batch_updates_mem:
  assumes "distinct (map EntityID es)" and "e \<in> set es" and "Data e = Some d"
  shows "(EntityID e, d) \<in> set (batch_updates es)"
proof -
  have "map_of (foldl (\<lambda>m e. case Data e of None \<Rightarrow> m | Some d \<Rightarrow> AList.update (EntityID e) d m) m es)
      (EntityID e) = Some d" for m
    using assms
  proof (induction es arbitrary: m)
    case (Cons x es)
    show ?case
    proof (cases "x = e")
      case True
      then have "EntityID e \<notin> EntityID ` set es" using Cons.prems(1) by simp
      then have "\<forall>y \<in> set es. EntityID y \<noteq> EntityID e" by (metis imageI)
      then show ?thesis using True Cons.prems
        by (simp add: batch_updates_fold update_conv)
    next
      case False
      then show ?thesis using Cons.prems by (auto intro: Cons.IH)
    qed
  qed simp
  then show ?thesis unfolding batch_updates_def by (rule map_of_SomeD)
qed

lemma foldl_fmdrop:
  "fmlookup (foldl (\<lambda>m e. fmdrop (f e) m) m es) k = (if k \<in> f ` set es then None else fmlookup m k)"
  by (induction es arbitrary: m) auto

text \<open>The two statements of a batch, before the bookkeeping.\<close>

definition batch_statements ::
    "string \<Rightarrow> 'x DirtyEntry list \<Rightarrow> ('r, 'x) cacheSync \<Rightarrow> ('r, 'x) cacheSync \<times> (sync_error, unit) go" where
  "batch_statements t es cs =
     (let (cs, res) = flushEntities t (batch_updates es) cs
      in with_recv cs res (\<lambda>_. executeDeleteMulti t (batch_deletes es) cs))"

lemma flushBatch_statements:
  "flushBatch t es cs =
     (if es = [] then (cs, Ret ())
      else with_recv (fst (batch_statements t es cs)) (snd (batch_statements t es cs)) (\<lambda>_.
        ((fst (batch_statements t es cs))\<lparr>dirtyEntries := foldl (\<lambda>m e. fmdrop (dirty_key e) m)
              (dirtyEntries (fst (batch_statements t es cs))) es\<rparr>, Ret ())))"
proof (cases "snd (flushEntities t (batch_updates es) cs)")
  case (Ret u)
  show ?thesis
    by (simp add: flushBatch_def batch_statements_def Ret Let_def split_def)
next
  case (Fail e)
  then have "batch_updates es \<noteq> []" by auto
  then show ?thesis
    by (simp add: flushBatch_def batch_statements_def Fail Let_def split_def)
next
  case Panic
  then show ?thesis using flushEntities_effect by blast
qed

lemma batch_statements_effect:
  assumes t: "\<forall>e \<in> set es. EntityType e = t" and d: "distinct (map EntityID es)"
  shows "progress E cs (fst (batch_statements t es cs))"
    and "dirtyEntries (fst (batch_statements t es cs)) = dirtyEntries cs"
    and "snd (batch_statements t es cs) \<noteq> Panic"
    and "snd (batch_statements t es cs) = Ret () \<Longrightarrow> e \<in> set es \<Longrightarrow>
      written (db_log (asyncDB (fst (batch_statements t es cs)))) e"
proof -
  let ?F = "flushEntities t (batch_updates es) cs"
  let ?X = "executeDeleteMulti t (batch_deletes es) (fst ?F)"
  note F = flushEntities_effect [of E cs t "batch_updates es"]
  note X = executeDeleteMulti_effect
  have S: "batch_statements t es cs = (case snd ?F of Ret u \<Rightarrow> ?X | Fail e \<Rightarrow> (fst ?F, Fail e) | Panic \<Rightarrow> (fst ?F, Panic))"
    by (simp add: batch_statements_def split_def with_recv_def split: go.split)
  have "progress (E \<union> E) cs (fst ?X)" by (rule progress_trans [OF conjunct1 [OF F] X(1)])
  then show "progress E cs (fst (batch_statements t es cs))"
    using F by (cases "snd ?F") (auto simp: S)
  show "dirtyEntries (fst (batch_statements t es cs)) = dirtyEntries cs"
    using F by (cases "snd ?F") (auto simp: S X(2))
  show "snd (batch_statements t es cs) \<noteq> Panic"
    using F by (cases "snd ?F") (auto simp: S X(3))
  assume ok: "snd (batch_statements t es cs) = Ret ()" and e: "e \<in> set es"
  then have Fok: "snd ?F = Ret ()" and Xok: "snd ?X = Ret ()"
    by (cases "snd ?F"; simp add: S)+
  have X': "batch_statements t es cs = ?X" using Fok by (simp add: S)
  have log: "set (db_log (asyncDB (fst ?F))) \<subseteq> set (db_log (asyncDB (fst ?X)))"
    using X(1) [where E = E and cs = "fst ?F"] by (simp add: progress_def)
  show "written (db_log (asyncDB (fst (batch_statements t es cs)))) e"
  proof (cases "Data e")
    case (Some v)
    have "(update_sql t v, update_args (EntityID e) v) \<in> set (db_log (asyncDB (fst ?F)))"
      using F Fok batch_updates_mem [OF d e Some] by blast
    then show ?thesis using log t e Some by (auto simp: written_def X')
  next
    case None
    then have "EntityID e \<in> set (batch_deletes es)" using e by (auto simp: batch_deletes_def)
    moreover from this have "batch_deletes es \<noteq> []" by auto
    ultimately show ?thesis
      using X(4) [OF Xok] t e None by (auto simp: written_def X')
  qed
qed

lemma flushBatch_effect:
  assumes t: "\<forall>e \<in> set es. EntityType e = t" and d: "distinct (map EntityID es)"
  shows "progress (set es) cs (fst (flushBatch t es cs))"
    and "snd (flushBatch t es cs) \<noteq> Panic"
    and "snd (flushBatch t es cs) = Ret () \<Longrightarrow> e \<in> set es \<Longrightarrow>
      fmlookup (dirtyEntries (fst (flushBatch t es cs))) (dirty_key e) = None"
proof -
  let ?S = "batch_statements t es cs"
  let ?m = "foldl (\<lambda>m e. fmdrop (dirty_key e) m) (dirtyEntries (fst ?S)) es"
  note S = batch_statements_effect [OF t d, where cs = cs]
  have "progress (set es) cs ((fst ?S)\<lparr>dirtyEntries := ?m\<rparr>)" if "snd ?S = Ret ()"
  proof -
    have st: "fst ?S = cs\<lparr>asyncDB := asyncDB (fst ?S), dirtyEntries := dirtyEntries (fst ?S)\<rparr>"
      and lg: "set (db_log (asyncDB cs)) \<subseteq> set (db_log (asyncDB (fst ?S)))"
      using S(1) [of "{}"] by (simp_all add: progress_def)
    have "(fst ?S)\<lparr>dirtyEntries := ?m\<rparr> = cs\<lparr>asyncDB := asyncDB (fst ?S), dirtyEntries := ?m\<rparr>"
      by (subst st) simp
    then show ?thesis
      using S(2) S(4) [OF that] lg unfolding progress_def by (auto simp: foldl_fmdrop)
  qed
  then show "progress (set es) cs (fst (flushBatch t es cs))"
    using S(1) [of "set es"] S(3)
    by (cases "snd ?S") (auto simp: flushBatch_statements with_recv_def)
  show "snd (flushBatch t es cs) \<noteq> Panic"
    using S(3) by (cases "snd ?S") (auto simp: flushBatch_statements with_recv_def)
  show "fmlookup (dirtyEntries (fst (flushBatch t es cs))) (dirty_key e) = None"
    if "snd (flushBatch t es cs) = Ret ()" "e \<in> set es"
    using that by (cases "snd ?S") (auto simp: flushBatch_statements with_recv_def foldl_fmdrop)
qed

text \<open>The slices of a group are its batches: none panics and together they are the group.\<close>

definition batch :: "int \<Rightarrow> 'a list \<Rightarrow> nat \<Rightarrow> 'a list" where
  "batch n xs i = take (nat n) (drop (i * nat n) xs)"

lemma list_slice_batch:
  assumes "0 < n" and "i * nat n \<le> length xs"
  shows "list_slice xs (int i * n) (if int (length xs) < int i * n + n then int (length xs) else int i * n + n) =
    Ret (batch n xs i)"
proof -
  have i: "int (i * nat n) = int i * n" "nat (int i * n) = i * nat n"
    using assms(1) by (simp_all add: nat_mult_distrib)
  then have le: "int i * n \<le> int (length xs)" using assms(2) by linarith
  show ?thesis
  proof (cases "int (length xs) < int i * n + n")
    case True
    then have "length xs - i * nat n \<le> nat n" using i assms by linarith
    then show ?thesis using True le assms i
      by (simp add: list_slice_def batch_def nat_diff_distrib')
  next
    case False
    then show ?thesis using le assms(1) i by (simp add: list_slice_def batch_def)
  qed
qed

lemma batch_count_ok:
  assumes "0 < n" and "int len + n \<le> max_int64"
  shows "batch_count n len = Ret ((int len + n - 1) div n)"
proof -
  have "wrap64 (int len + n - 1) = int len + n - 1"
    using assms by (intro wrap64_id) (auto simp: min_int64_def)
  moreover have "0 \<le> int len + n - 1" using assms(1) by simp
  ultimately show ?thesis using assms(1)
    by (cases "int len + n - 1 = 0") (auto simp: batch_count_def go_quot_def)
qed

lemma batch_index:
  assumes "0 < n" and "i < nat ((int len + n - 1) div n)"
  shows "i * nat n \<le> len"
proof -
  have "int i < (int len + n - 1) div n" using assms(2) by linarith
  then have "int i + 1 \<le> (int len + n - 1) div n" by simp
  moreover have floor: "(int len + n - 1) div n * n \<le> int len + n - 1"
    using pos_mod_sign [OF assms(1), of "int len + n - 1"]
      div_mult_mod_eq [of "int len + n - 1" n] by linarith
  ultimately have "(int i + 1) * n \<le> int len + n - 1"
    using floor mult_right_mono [of "int i + 1" "(int len + n - 1) div n" n] assms(1) by linarith
  then have "int i * n \<le> int len" using assms(1) by (simp add: algebra_simps)
  then show ?thesis using assms(1) by (metis int_nat_eq less_imp_le of_nat_le_iff of_nat_mult)
qed

lemma batch_cover:
  assumes "0 < n"
  shows "(\<Union>i < nat ((int (length xs) + n - 1) div n). set (batch n xs i)) = set xs"
proof
  show "(\<Union>i < nat ((int (length xs) + n - 1) div n). set (batch n xs i)) \<subseteq> set xs"
    by (auto simp: batch_def dest: in_set_takeD in_set_dropD)
  show "set xs \<subseteq> (\<Union>i < nat ((int (length xs) + n - 1) div n). set (batch n xs i))"
  proof
    fix x assume "x \<in> set xs"
    then obtain j where j: "j < length xs" "x = xs ! j" by (auto simp: in_set_conv_nth)
    define b where "b = nat n"
    have b: "0 < b" "n = int b" using assms by (simp_all add: b_def)
    define i where "i = j div b"
    have "j = i * b + j mod b" "j mod b < b" using b(1) by (simp_all add: i_def)
    then have lo: "i * b \<le> j" and hi: "j - i * b < b" by linarith+
    have "x \<in> set (batch n xs i)"
    proof -
      have "batch n xs i ! (j - i * b) = x"
        using j lo hi by (simp add: batch_def b_def [symmetric])
      moreover have "j - i * b < length (batch n xs i)"
        using j lo hi by (simp add: batch_def b_def [symmetric])
      ultimately show ?thesis using nth_mem by blast
    qed
    moreover have "i < (length xs + b - 1) div b"
    proof -
      have "(i + 1) * b \<le> length xs + b - 1" using lo j(1) by (simp add: algebra_simps)
      then have "i + 1 \<le> (length xs + b - 1) div b"
        using b(1) by (simp add: less_eq_div_iff_mult_less_eq)
      then show ?thesis by simp
    qed
    moreover have "int (length xs) + n - 1 = int (length xs + b - 1)" using b by simp
    then have "nat ((int (length xs) + n - 1) div n) = (length xs + b - 1) div b"
      unfolding b(2) by (simp only: zdiv_int [symmetric] nat_int)
    ultimately show "x \<in> (\<Union>i < nat ((int (length xs) + n - 1) div n). set (batch n xs i))" by auto
  qed
qed

lemma batch_loop_effect:
  assumes "0 < n" and "\<forall>e \<in> set es. EntityType e = t" and "distinct (map EntityID es)"
    and "BatchSize cs = n" and "\<forall>i \<in> set is. i * nat n \<le> length es"
  shows "\<exists>cs' errs'. batch_loop t es is errs cs = (cs', Ret (errs @ errs')) \<and>
    progress (\<Union>i \<in> set is. set (batch n es i)) cs cs' \<and>
    (errs' = [] \<longrightarrow> (\<forall>i \<in> set is. \<forall>e \<in> set (batch n es i). fmlookup (dirtyEntries cs') (dirty_key e) = None))"
  using assms(4,5)
proof (induction "is" arbitrary: cs errs)
  case (Cons i "is")
  let ?B = "batch n es i"
  have slice: "list_slice es (int i * n) (if int (length es) < int i * n + n then int (length es) else int i * n + n) =
      (Ret ?B :: (sync_error, 'a DirtyEntry list) go)"
    using assms(1) Cons.prems(2) by (intro list_slice_batch) auto
  have B: "\<forall>e \<in> set ?B. EntityType e = t" "distinct (map EntityID ?B)"
    using assms(2,3) by (auto simp: batch_def take_map [symmetric] drop_map [symmetric]
        dest: in_set_takeD in_set_dropD)
  let ?F = "flushBatch t ?B cs"
  note F = flushBatch_effect [OF B, where cs = cs]
  have size: "BatchSize (fst ?F) = n" using progress_BatchSize [OF F(1)] Cons.prems(1) by simp
  define errs1 where "errs1 = (case snd ?F of Fail e \<Rightarrow> [e] | _ \<Rightarrow> [])"
  have step: "batch_loop t es (i # is) errs cs = batch_loop t es is (errs @ errs1) (fst ?F)"
    unfolding batch_loop.simps Let_def Cons.prems(1) slice with_recv_simps
    using F(2) by (cases "snd ?F") (simp_all add: split_def errs1_def)
  obtain cs' errs' where IH: "batch_loop t es is (errs @ errs1) (fst ?F) = (cs', Ret ((errs @ errs1) @ errs'))"
    "progress (\<Union>i \<in> set is. set (batch n es i)) (fst ?F) cs'"
    "errs' = [] \<longrightarrow> (\<forall>i \<in> set is. \<forall>e \<in> set (batch n es i). fmlookup (dirtyEntries cs') (dirty_key e) = None)"
    using Cons.IH [OF size, of "errs @ errs1"] Cons.prems(2) by auto
  have "progress (\<Union>i \<in> set (i # is). set (batch n es i)) cs cs'"
    using progress_trans [OF F(1) IH(2)] by simp
  moreover have "fmlookup (dirtyEntries cs') (dirty_key e) = None"
    if "errs1 = []" "e \<in> set ?B" for e
  proof -
    have "snd ?F = Ret ()" using that(1) F(2) by (cases "snd ?F") (auto simp: errs1_def)
    then have "fmlookup (dirtyEntries (fst ?F)) (dirty_key e) = None" using F(3) that(2) by blast
    then show ?thesis using IH(2) unfolding progress_def by metis
  qed
  ultimately show ?case
    unfolding step using IH(1,3) by (intro exI [of _ cs'] exI [of _ "errs1 @ errs'"]) auto
qed simp

lemma type_loop_effect:
  assumes "0 < n" and "int (length es) + n \<le> max_int64"
    and "\<And>t. distinct (map EntityID (filter (\<lambda>e. EntityType e = t) es))" and "BatchSize cs = n"
  shows "\<exists>cs' errs'. type_loop ts es errs cs = (cs', Ret (errs @ errs')) \<and> progress (set es) cs cs' \<and>
    (errs' = [] \<longrightarrow> (\<forall>e \<in> set es. EntityType e \<in> set ts \<longrightarrow>
      fmlookup (dirtyEntries cs') (dirty_key e) = None))"
  using assms(4)
proof (induction ts arbitrary: cs errs)
  case (Cons t ts)
  let ?g = "filter (\<lambda>e. EntityType e = t) es"
  let ?n = "(int (length ?g) + n - 1) div n"
  have "int (length ?g) + n \<le> max_int64" using assms(2) by (smt (verit) length_filter_le of_nat_le_iff)
  then have count: "batch_count n (length ?g) = Ret ?n" by (rule batch_count_ok [OF assms(1)])
  obtain cs1 errs1 where B: "batch_loop t ?g [0..<nat ?n] errs cs = (cs1, Ret (errs @ errs1))"
    "progress (\<Union>i \<in> set [0..<nat ?n]. set (batch n ?g i)) cs cs1"
    "errs1 = [] \<longrightarrow> (\<forall>i \<in> set [0..<nat ?n]. \<forall>e \<in> set (batch n ?g i).
      fmlookup (dirtyEntries cs1) (dirty_key e) = None)"
    using batch_loop_effect [OF assms(1), of ?g t cs "[0..<nat ?n]" errs] assms(3) Cons.prems
      batch_index [OF assms(1)] by auto
  have cover: "(\<Union>i \<in> set [0..<nat ?n]. set (batch n ?g i)) = set ?g"
    using batch_cover [OF assms(1), of ?g] by (simp add: atLeast0LessThan)
  obtain cs' errs' where IH: "type_loop ts es (errs @ errs1) cs1 = (cs', Ret ((errs @ errs1) @ errs'))"
    "progress (set es) cs1 cs'"
    "errs' = [] \<longrightarrow> (\<forall>e \<in> set es. EntityType e \<in> set ts \<longrightarrow>
      fmlookup (dirtyEntries cs') (dirty_key e) = None)"
    using Cons.IH [of cs1 "errs @ errs1"] progress_BatchSize [OF B(2)] Cons.prems by auto
  have step: "type_loop (t # ts) es errs cs = type_loop ts es (errs @ errs1) cs1"
    by (simp add: Let_def Cons.prems count B(1))
  have "progress (set es) cs cs'"
    using progress_trans [OF B(2) [unfolded cover] IH(2)] by (rule progress_mono) auto
  moreover have "fmlookup (dirtyEntries cs') (dirty_key e) = None"
    if "errs1 = []" "e \<in> set es" "EntityType e = t" for e
  proof -
    have "e \<in> (\<Union>i \<in> set [0..<nat ?n]. set (batch n ?g i))" unfolding cover using that by simp
    then have "fmlookup (dirtyEntries cs1) (dirty_key e) = None" using B(3) that(1) by blast
    then show ?thesis using IH(2) unfolding progress_def by metis
  qed
  ultimately show ?case
    unfolding step using IH(1,3) by (intro exI [of _ cs'] exI [of _ "errs1 @ errs'"]) auto
qed simp

text \<open>The collected entries are the new ones, each once.\<close>

definition is_new :: "(string, 'x DirtyEntry) fmap \<Rightarrow> string \<Rightarrow> bool" where
  "is_new m k \<longleftrightarrow> (\<exists>e. fmlookup m k = Some e \<and> Status e = DirtyStatusNew)"

definition pending_of :: "(string, 'x DirtyEntry) fmap \<Rightarrow> string \<Rightarrow> 'x DirtyEntry" where
  "pending_of m k = (the (fmlookup m k))\<lparr>Status := DirtyStatusPending\<rparr>"

lemma collect_fold:
  assumes "distinct order"
  shows "snd (foldl collect_step (m, es) order) = es @ map (pending_of m) (filter (is_new m) order)"
    and "fmlookup (fst (foldl collect_step (m, es) order)) k =
      (if k \<in> set order \<and> is_new m k then Some (pending_of m k) else fmlookup m k)"
  using assms
proof (induction order arbitrary: m es)
  case (Cons j order)
  {
    case 1
    show ?case
    proof (cases "is_new m j")
      case True
      then obtain e where e: "fmlookup m j = Some e" "Status e = DirtyStatusNew" by (auto simp: is_new_def)
      have same: "is_new (fmupd j x m) k = is_new m k" "pending_of (fmupd j x m) k = pending_of m k"
        if "k \<in> set order" for k x
        using that 1 by (auto simp: is_new_def pending_of_def)
      have f: "filter (is_new (fmupd j x m)) order = filter (is_new m) order" for x
        using same(1) by (intro filter_cong) auto
      show ?thesis
        using 1 True e Cons.IH(1) by (auto simp: collect_step_def f same(2) pending_of_def intro!: map_cong)
    next
      case False
      then have "collect_step (m, es) j = (m, es)"
        by (auto simp: collect_step_def is_new_def split: option.splits)
      then show ?thesis using 1 False Cons.IH(1) by simp
    qed
  next
    case 2
    show ?case
    proof (cases "is_new m j")
      case True
      then obtain e where e: "fmlookup m j = Some e" "Status e = DirtyStatusNew" by (auto simp: is_new_def)
      show ?thesis
        using 2 True e Cons.IH(2) by (auto simp: collect_step_def is_new_def pending_of_def)
    next
      case False
      then have "collect_step (m, es) j = (m, es)"
        by (auto simp: collect_step_def is_new_def split: option.splits)
      then show ?thesis using 2 False Cons.IH(2) by auto
    qed
  }
qed auto

lemma pending_of_key:
  assumes "dirty_ok m" and "is_new m k"
  shows "dirty_key (pending_of m k) = k"
  using assms by (auto simp: dirty_ok_def is_new_def pending_of_def)

lemma collect_distinct:
  assumes "dirty_ok m" and "distinct order"
  shows "distinct (map EntityID (filter (\<lambda>e. EntityType e = t) (map (pending_of m) (filter (is_new m) order))))"
proof -
  let ?es = "map (pending_of m) (filter (is_new m) order)"
  have "map (\<lambda>e. dirty_key e) ?es = filter (is_new m) order"
    using pending_of_key [OF assms(1)] by (auto intro!: map_idI)
  then have "distinct (map (\<lambda>e. dirty_key e) ?es)" using assms(2) by simp
  then have "distinct (map (\<lambda>e. dirty_key e) (filter (\<lambda>e. EntityType e = t) ?es))"
    by (rule distinct_map_filter)
  moreover have "map (\<lambda>e. dirty_key e) (filter (\<lambda>e. EntityType e = t) ?es) =
      map (formatDirtyKey t) (map EntityID (filter (\<lambda>e. EntityType e = t) ?es))"
    by simp
  ultimately show ?thesis by (metis distinct_map)
qed

section \<open>Properties\<close>

lemma Flush_collect:
  fixes cs :: "('r, 'x) cacheSync"
  assumes "distinct order"
  defines "es \<equiv> map (pending_of (dirtyEntries cs)) (filter (is_new (dirtyEntries cs)) order)"
    and "cs1 \<equiv> cs\<lparr>dirtyEntries := fst (collect order (dirtyEntries cs))\<rparr>"
  shows "Flush order types now cs = (if es = [] then (cs1, Ret ()) else
    with_recv (fst (type_loop types es [] cs1)) (snd (type_loop types es [] cs1)) (\<lambda>errs.
      ((fst (type_loop types es [] cs1))\<lparr>stats := (stats (fst (type_loop types es [] cs1)))
          \<lparr>FlushCount := wrap64 (FlushCount (stats (fst (type_loop types es [] cs1))) + 1),
           FlushedEntries := wrap64 (FlushedEntries (stats (fst (type_loop types es [] cs1))) + int (length es)),
           LastFlushTime := now\<rparr>\<rparr>,
       case errs of [] \<Rightarrow> Ret () | e # _ \<Rightarrow> Fail e)))"
proof -
  have "snd (collect order (dirtyEntries cs)) = es"
    using collect_fold(1) [OF assms(1), of "dirtyEntries cs" "[]"]
    by (simp add: collect_def es_def)
  then show ?thesis
    unfolding Flush_def cs1_def by (simp add: Let_def split_def)
qed

lemma type_loop_none:
  assumes "0 < BatchSize cs" and "BatchSize cs \<le> max_int64"
  shows "type_loop ts [] errs cs = (cs, Ret errs)"
proof (induction ts)
  case (Cons t ts)
  then show ?case using assms batch_count_ok [of "BatchSize cs" 0] by (simp add: Let_def)
qed simp

text \<open>A flush in terms of its collected entries.\<close>

lemma Flush_progress:
  assumes "dirty_ok (dirtyEntries cs)" and "distinct order"
    and "0 < BatchSize cs" and "int (length order) + BatchSize cs \<le> max_int64"
  defines "es \<equiv> map (pending_of (dirtyEntries cs)) (filter (is_new (dirtyEntries cs)) order)"
    and "cs1 \<equiv> cs\<lparr>dirtyEntries := fst (collect order (dirtyEntries cs))\<rparr>"
  shows "\<exists>cs2 errs. dirtyEntries (fst (Flush order types now cs)) = dirtyEntries cs2 \<and>
    asyncDB (fst (Flush order types now cs)) = asyncDB cs2 \<and>
    snd (Flush order types now cs) = (case errs of [] \<Rightarrow> Ret () | e # _ \<Rightarrow> Fail e) \<and>
    progress (set es) cs1 cs2 \<and>
    (errs = [] \<longrightarrow> (\<forall>e \<in> set es. EntityType e \<in> set types \<longrightarrow>
      fmlookup (dirtyEntries cs2) (dirty_key e) = None))"
proof -
  have "length es \<le> length order" by (simp add: es_def)
  then have len: "int (length es) + BatchSize cs \<le> max_int64" using assms(4) by linarith
  obtain cs2 errs where T: "type_loop types es [] cs1 = (cs2, Ret errs)" "progress (set es) cs1 cs2"
    "errs = [] \<longrightarrow> (\<forall>e \<in> set es. EntityType e \<in> set types \<longrightarrow> fmlookup (dirtyEntries cs2) (dirty_key e) = None)"
    using type_loop_effect [OF assms(3) len, of cs1 types "[]"] collect_distinct [OF assms(1,2)]
    by (auto simp: es_def [symmetric] cs1_def)
  note F = Flush_collect [OF assms(2), of types now cs, folded es_def cs1_def]
  have "dirtyEntries (fst (Flush order types now cs)) = dirtyEntries cs2 \<and>
      asyncDB (fst (Flush order types now cs)) = asyncDB cs2 \<and>
      snd (Flush order types now cs) = (case errs of [] \<Rightarrow> Ret () | e # _ \<Rightarrow> Fail e)"
  proof (cases "es = []")
    case True
    then have "cs2 = cs1" "errs = []"
      using T(1) type_loop_none [of cs1 types "[]"] assms(3,4) by (simp_all add: cs1_def)
    then show ?thesis using F True by simp
  next
    case False
    then show ?thesis using F T(1) by simp
  qed
  then show ?thesis using T(2,3) by blast
qed


definition sample_db :: "unit database" where
  "sample_db = \<lparr>exec_answers = [ExecFailed, ExecDone], query_answers = [], db_log = []\<rparr>"

definition entity_cache :: "((string \<times> string) list, unit EntityData) RedisCache" where
  "entity_cache = NewCache list_server [] (\<lambda>d. if d = [] then Some [] else None) (\<lambda>s. Some []) (\<lambda>_. [])"

lemma entity_cache_inv: "cache_inv id entity_cache"
  by (simp add: cache_inv_def entity_cache_def NewCache_def list_server_ok json_ok_def)

definition sample_sync :: "((string \<times> string) list, unit) cacheSync" where
  "sample_sync = mark_dirty (dirty_entry ''p'' ''2'' None 5 no_options)
     (NewCacheSync entity_cache sample_db 1 0 10)"


text \<open>C31: a write is seen by every later read until the entry is flushed, even when the cache has
  lost it or its server fails: the read returns the written data, or what JSON has made of it, without
  asking the database.\<close>

theorem read_own_write:
  assumes "cache_inv norm (cache cs)" and "\<not> Immediate (opts_or_default opts)"
    and "CS_Set now t i d opts cs = (cs1, Ret b)"
    and "cache_inv norm c" and "cache_contents c (formatCacheKey t i) \<in> {None, Some (norm d)}"
  shows "\<exists>cs2 e. CS_Get t i (cs1\<lparr>cache := c\<rparr>) = (cs2, Ret e) \<and> e \<in> {d, norm d} \<and>
    asyncDB cs2 = asyncDB cs \<and> dirtyEntries cs2 = dirtyEntries cs1"
proof -
  let ?k = "formatCacheKey t i"
  let ?e = "dirty_entry t i (Some d) now (opts_or_default opts)"
  obtain c1 where cs1: "cs1 = mark_dirty ?e (cs\<lparr>cache := c1\<rparr>)"
    using assms(2,3) by (auto simp: CS_Set_def Let_def split_def with_recv_def split: go.splits)
  then have dirty: "Option.bind (fmlookup (dirtyEntries cs1) (formatDirtyKey t i)) Data = Some d"
    and db: "asyncDB cs1 = asyncDB cs"
    by (simp_all add: mark_dirty_def dirty_entry_def)
  let ?g = "Cache_Get DestObject ?k c"
  have np: "snd ?g \<noteq> Panic" by (rule Cache_not_Panic(1) [OF assms(4)])
  show ?thesis
  proof (cases "snd ?g")
    case (Ret x)
    then have x: "x = Parsed (norm d)"
      using Cache_Get_Ret [OF assms(4) Ret] assms(5) by auto
    have "CS_Get t i (cs1\<lparr>cache := c\<rparr>) = (count_hit (cs1\<lparr>cache := fst ?g\<rparr>), Ret (norm d))"
      using Ret x by (simp add: CS_Get_def Let_def split_def)
    then show ?thesis using db by (simp add: count_hit_def)
  next
    case (Fail e)
    have "CS_Get t i (cs1\<lparr>cache := c\<rparr>) = (cache_put ?k d (cs1\<lparr>cache := fst ?g\<rparr>), Ret d)"
      using Fail dirty by (simp add: CS_Get_def Let_def split_def)
    then show ?thesis using db by (simp add: cache_put_def)
  qed (use np in simp)
qed

theorem read_own_write_witness:
  "\<exists>cs1 b cs2 e. CS_Set 4 ''p'' ''1'' [] None (NewCacheSync entity_cache sample_db 1 0 10) = (cs1, Ret b) \<and>
    CS_Get ''p'' ''1'' (cs1\<lparr>cache := entity_cache\<rparr>) = (cs2, Ret e) \<and> e = []"
proof -
  let ?cs = "NewCacheSync entity_cache sample_db 1 0 10"
  have inv: "cache_inv id (cache ?cs)" by (simp add: NewCacheSync_def entity_cache_inv)
  obtain cs1 b where s: "CS_Set 4 ''p'' ''1'' [] None ?cs = (cs1, Ret b)"
    by (simp add: CS_Set_def opts_or_default_def no_options_def Cache_Set_def NewCacheSync_def
        entity_cache_def NewCache_def to_stored_def list_server_def Let_def)
  have "cache_contents entity_cache (formatCacheKey ''p'' ''1'') \<in> {None, Some (id [])}"
    by (simp add: cache_contents_def entity_cache_def NewCache_def list_server_def list_view_def)
  from read_own_write [OF inv _ s entity_cache_inv this] s show ?thesis
    by (auto simp: opts_or_default_def no_options_def)
qed

text \<open>A deletion is not seen by a later read: the dirty entry of a deletion holds no data, so the
  read asks the database, which still has the row, returns it and puts it back into the cache.\<close>

lemma deleted_entity_returns:
  assumes "cache_inv norm c" and "cache_contents c (formatCacheKey t i) = None"
    and "fmlookup (dirtyEntries cs) (formatDirtyKey t i) = Some e" and "Data e = None"
    and "query_answers (asyncDB cs) = QueryRows (Some cells # rows) # answers"
  shows "snd (CS_Get t i (cs\<lparr>cache := c\<rparr>)) = Ret (row_entity cells)"
proof -
  let ?g = "Cache_Get DestObject (formatCacheKey t i) c"
  have "\<exists>e. snd ?g = Fail e"
    using Cache_Get_Ret [OF assms(1), of "formatCacheKey t i"] assms(2) Cache_not_Panic(1) [OF assms(1)]
    by (cases "snd ?g") auto
  then show ?thesis
    using assms(3-) by (auto simp: CS_Get_def Let_def split_def count_miss_def QueryAsync_def)
qed

text \<open>The pass over the dirty entries skips an ID: of three missing IDs that are all dirty the second
  one is left for the database.\<close>

lemma dirty_loop_skips:
  assumes "distinct [a, b, c]"
    and "\<And>i. i \<in> {a, b, c} \<Longrightarrow>
      Option.bind (fmlookup (dirtyEntries cs) (formatDirtyKey t i)) Data \<noteq> None"
  shows "fst (dirty_loop t [0..<length [a, b, c]] [a, b, c] (length [a, b, c]) result cs) = [b]"
  using assms(1) assms(2) [of a] assms(2) [of b] assms(2) [of c]
  by (auto simp: upt_rec remove_at_def cache_put_def numeral_2_eq_2)

text \<open>Two entities share a dirty key when a colon moves from the type to the ID.\<close>

lemma dirty_key_collision: "formatDirtyKey ''a:b'' ''c'' = formatDirtyKey ''a'' ''b:c''"
  by (simp add: formatDirtyKey_def)

text \<open>The statement for an entity with two fields names them without parentheses.\<close>

lemma update_sql_two_fields:
  "update_sql ''p'' [(''a'', x), (''id'', i), (''b'', y)] = ''UPDATE p SET a, b = $1, $2 WHERE id = $3''"
proof -
  have "show_nat 1 = ''1''" "show_nat 2 = ''2''" "show_nat 3 = ''3''" by code_simp+
  then show ?thesis
    by (simp add: update_sql_def update_fields_def placeholders_def placeholder_n_def upt_rec
        eval_nat_numeral)
qed

end
