(* ===== verification/Async_Db.thy ===== *)
theory Async_Db
  imports Go_Prelude "HOL-Library.AList" "HOL-Library.Multiset"
begin

text \<open>
  The asynchronous database access of \<^verbatim>\<open>src/pkg/db/async.go\<close>: a bounded queue served by
  workers, batches that collect operations before they are queued, retries, and callbacks. An
  operation is named by its number, which stands for its statement's arguments, result handler
  and callback (a nil callback is one that does nothing); the averages of the statistics, which are floating-point numbers, are left out. The
  fields \<open>accepted\<close> and \<open>lost\<close> are not in the code: they record the operations whose submission
  succeeded and those that were dropped. The queue of the model has the capacity of a buffered
  channel, so the unbuffered one of a queue size of 0 is not modelled.
\<close>

section \<open>State\<close>

datatype op_type = OpQuery | OpExec

record operation =
  op_id :: nat
  Type :: op_type
  SQL :: string
  RetryCount :: int
  BatchID :: string

record AsyncResult =
  Success :: bool
  Data :: "string option"
  RowsAffected :: int

text \<open>Batches and timers are maps from batch IDs; \<open>running\<close> holds what workers have taken.\<close>

record asyncDB =
  QueueSize :: nat
  MaxRetries :: int
  EnableBatching :: bool
  BatchSize :: int
  queue :: "operation list"
  batchQueues :: "(string \<times> operation list) list"
  batchTimers :: "string list"
  running :: "operation list"
  QueuedOperations :: int
  CompletedOperations :: int
  FailedOperations :: int
  Retries :: int
  BatchesProcessed :: int
  isClosed :: bool
  queueClosed :: bool
  called :: "(nat \<times> AsyncResult) list"
  accepted :: "nat list"
  lost :: "nat list"

datatype async_error = AsyncClosed | QueueFull

definition NewAsyncDB :: "nat \<Rightarrow> int \<Rightarrow> bool \<Rightarrow> int \<Rightarrow> asyncDB" where
  "NewAsyncDB qs retries batching bs =
     \<lparr>QueueSize = qs, MaxRetries = retries, EnableBatching = batching, BatchSize = bs, queue = [],
      batchQueues = [], batchTimers = [], running = [], QueuedOperations = 0,
      CompletedOperations = 0, FailedOperations = 0, Retries = 0, BatchesProcessed = 0,
      isClosed = False, queueClosed = False, called = [], accepted = [], lost = []\<rparr>"

section \<open>Queue and batches\<close>

text \<open>A send on a closed channel panics; the send does not wait when the queue is full.\<close>

definition enqueueOperation :: "operation \<Rightarrow> asyncDB \<Rightarrow> asyncDB \<times> (async_error, unit) go" where
  "enqueueOperation op a =
     (if queueClosed a then (a, Panic)
      else if length (queue a) < QueueSize a
      then (a\<lparr>queue := queue a @ [op], QueuedOperations := wrap64 (QueuedOperations a + 1)\<rparr>, Ret ())
      else (a, Fail QueueFull))"

text \<open>The error of this call is ignored by two of its callers: then the operation is gone.\<close>

definition enqueue_or_lose :: "operation \<Rightarrow> asyncDB \<Rightarrow> asyncDB \<times> (async_error, unit) go" where
  "enqueue_or_lose op a =
     (let (a, res) = enqueueOperation op a
      in case res of
           Panic \<Rightarrow> (a, Panic)
         | Fail _ \<Rightarrow> (a\<lparr>lost := lost a @ [op_id op]\<rparr>, Ret ())
         | Ret _ \<Rightarrow> (a, Ret ()))"

fun enqueue_all :: "operation list \<Rightarrow> asyncDB \<Rightarrow> asyncDB \<times> (async_error, unit) go" where
  "enqueue_all [] a = (a, Ret ())"
| "enqueue_all (op # ops) a =
     (let (a, res) = enqueue_or_lose op a in with_recv a res (\<lambda>_. enqueue_all ops a))"

definition batch_of :: "string \<Rightarrow> asyncDB \<Rightarrow> operation list" where
  "batch_of batchID a = (case map_of (batchQueues a) batchID of None \<Rightarrow> [] | Some ops \<Rightarrow> ops)"

definition processBatch :: "string \<Rightarrow> asyncDB \<Rightarrow> asyncDB \<times> (async_error, unit) go" where
  "processBatch batchID a =
     (let ops = batch_of batchID a
      in if ops = [] then (a, Ret ())
         else enqueue_all ops
           (a\<lparr>batchQueues := AList.delete batchID (batchQueues a),
              BatchesProcessed := wrap64 (BatchesProcessed a + 1)\<rparr>))"

definition addToBatch :: "string \<Rightarrow> operation \<Rightarrow> asyncDB \<Rightarrow> asyncDB \<times> (async_error, unit) go" where
  "addToBatch batchID op a =
     (let op = op\<lparr>BatchID := batchID\<rparr>;
          a = a\<lparr>batchQueues := AList.update batchID (batch_of batchID a @ [op]) (batchQueues a)\<rparr>
      in if BatchSize a \<le> int (length (batch_of batchID a)) then processBatch batchID a
         else (if batchID \<in> set (batchTimers a) then a
               else a\<lparr>batchTimers := batchID # batchTimers a\<rparr>, Ret ()))"

definition processBatchByTimer :: "string \<Rightarrow> asyncDB \<Rightarrow> asyncDB \<times> (async_error, unit) go" where
  "processBatchByTimer batchID a =
     processBatch batchID (a\<lparr>batchTimers := removeAll batchID (batchTimers a)\<rparr>)"

fun process_batches :: "string list \<Rightarrow> asyncDB \<Rightarrow> asyncDB \<times> (async_error, unit) go" where
  "process_batches [] a = (a, Ret ())"
| "process_batches (b # bs) a =
     (let (a, res) = processBatch b a in with_recv a res (\<lambda>_. process_batches bs a))"

definition processPendingBatches :: "string list \<Rightarrow> asyncDB \<Rightarrow> asyncDB \<times> (async_error, unit) go" where
  "processPendingBatches order a = process_batches order (a\<lparr>batchTimers := []\<rparr>)"

section \<open>Submission\<close>

definition isBatchableQuery :: "string \<Rightarrow> bool" where
  "isBatchableQuery sql \<longleftrightarrow> 6 < length sql \<and> take 6 sql = ''SELECT''"

definition isBatchableExec :: "string \<Rightarrow> bool" where
  "isBatchableExec sql \<longleftrightarrow> \<not> length sql < 6 \<and>
     (take 6 sql = ''INSERT'' \<or> take 6 sql = ''UPDATE'' \<or> take 6 sql = ''DELETE'')"

definition getBatchID :: "string \<Rightarrow> string" where
  "getBatchID sql = (if length sql \<le> 20 then sql else take 20 sql)"

definition new_operation :: "nat \<Rightarrow> op_type \<Rightarrow> string \<Rightarrow> operation" where
  "new_operation i ty sql = \<lparr>op_id = i, Type = ty, SQL = sql, RetryCount = 0, BatchID = []\<rparr>"

definition accept :: "nat \<Rightarrow> asyncDB \<times> (async_error, unit) go \<Rightarrow> asyncDB \<times> (async_error, unit) go" where
  "accept i = (\<lambda>(a, res). (if res = Ret () then a\<lparr>accepted := accepted a @ [i]\<rparr> else a, res))"

definition submit_checked ::
    "op_type \<Rightarrow> (string \<Rightarrow> bool) \<Rightarrow> nat \<Rightarrow> string \<Rightarrow> asyncDB \<Rightarrow> asyncDB \<times> (async_error, unit) go" where
  "submit_checked ty batchable i sql a =
     (let op = new_operation i ty sql
      in accept i
           (if EnableBatching a \<and> batchable sql \<and> getBatchID sql \<noteq> []
            then addToBatch (getBatchID sql) op a
            else enqueueOperation op a))"

definition Async_Query :: "nat \<Rightarrow> string \<Rightarrow> asyncDB \<Rightarrow> asyncDB \<times> (async_error, unit) go" where
  "Async_Query i sql a =
     (if isClosed a then (a, Fail AsyncClosed) else submit_checked OpQuery isBatchableQuery i sql a)"

definition Async_Exec :: "nat \<Rightarrow> string \<Rightarrow> asyncDB \<Rightarrow> asyncDB \<times> (async_error, unit) go" where
  "Async_Exec i sql a =
     (if isClosed a then (a, Fail AsyncClosed) else submit_checked OpExec isBatchableExec i sql a)"

section \<open>Workers\<close>

text \<open>
  What the world gives while one operation is processed: whether its context has ended, the rows
  the query returns (\<^term>\<open>None\<close> for an error), the result handler of the operation if it has one,
  and the number of rows a command affects.
\<close>

record world =
  ctx_err :: bool
  pool_query :: "string option"
  ResultHandler :: "(string \<Rightarrow> string option) option"
  pool_exec :: "int option"

definition take_operation :: "asyncDB \<Rightarrow> asyncDB" where
  "take_operation a =
     (case queue a of [] \<Rightarrow> a | op # ops \<Rightarrow> a\<lparr>queue := ops, running := running a @ [op]\<rparr>)"

definition completeOperation :: "operation \<Rightarrow> AsyncResult \<Rightarrow> asyncDB \<Rightarrow> asyncDB" where
  "completeOperation op result a =
     a\<lparr>CompletedOperations := wrap64 (CompletedOperations a + 1), called := called a @ [(op_id op, result)]\<rparr>"

definition run_sql :: "world \<Rightarrow> op_type \<Rightarrow> AsyncResult option" where
  "run_sql w ty =
     (case ty of
        OpQuery \<Rightarrow>
          (case pool_query w of
             None \<Rightarrow> None
           | Some rows \<Rightarrow>
               (case ResultHandler w of
                  None \<Rightarrow> Some \<lparr>Success = True, Data = None, RowsAffected = 0\<rparr>
                | Some h \<Rightarrow>
                    map_option (\<lambda>d. \<lparr>Success = True, Data = Some d, RowsAffected = 0\<rparr>) (h rows)))
      | OpExec \<Rightarrow> map_option (\<lambda>n. \<lparr>Success = True, Data = None, RowsAffected = n\<rparr>) (pool_exec w))"

definition failure :: AsyncResult where
  "failure = \<lparr>Success = False, Data = None, RowsAffected = 0\<rparr>"

definition processOperation :: "operation \<Rightarrow> world \<Rightarrow> asyncDB \<Rightarrow> asyncDB \<times> (async_error, unit) go" where
  "processOperation op w a =
     (if ctx_err w then (completeOperation op failure a, Ret ())
      else case run_sql w (Type op) of
        Some result \<Rightarrow> (completeOperation op result a, Ret ())
      | None \<Rightarrow>
          if RetryCount op < MaxRetries a
          then enqueue_or_lose (op\<lparr>RetryCount := wrap64 (RetryCount op + 1)\<rparr>)
                 (a\<lparr>Retries := wrap64 (Retries a + 1)\<rparr>)
          else (completeOperation op failure
                  (a\<lparr>FailedOperations := wrap64 (FailedOperations a + 1)\<rparr>), Ret ()))"

definition finish_operation :: "operation \<Rightarrow> world \<Rightarrow> asyncDB \<Rightarrow> asyncDB \<times> (async_error, unit) go" where
  "finish_operation op w a = processOperation op w (a\<lparr>running := remove1 op (running a)\<rparr>)"

text \<open>One round of a worker that is not interrupted, and a sequence of rounds.\<close>

definition serve_one :: "world \<Rightarrow> asyncDB \<Rightarrow> asyncDB" where
  "serve_one w a =
     (case queue a of [] \<Rightarrow> a | op # _ \<Rightarrow> fst (finish_operation op w (take_operation a)))"

fun serve :: "world list \<Rightarrow> asyncDB \<Rightarrow> asyncDB" where
  "serve [] a = a"
| "serve (w # ws) a = serve ws (serve_one w a)"

section \<open>Waiting and closing\<close>

text \<open>The condition that ends \<^verbatim>\<open>WaitForCompletion\<close>.\<close>

definition wait_done :: "asyncDB \<Rightarrow> bool" where
  "wait_done a \<longleftrightarrow> queue a = [] \<and> batchQueues a = []"

text \<open>The two halves of \<^verbatim>\<open>Close\<close>: before and after the workers have stopped.\<close>

definition Close_begin :: "string list \<Rightarrow> asyncDB \<Rightarrow> asyncDB \<times> (async_error, unit) go" where
  "Close_begin order a =
     (if isClosed a then (a, Ret ()) else processPendingBatches order (a\<lparr>isClosed := True\<rparr>))"

definition Close_end :: "asyncDB \<Rightarrow> asyncDB" where
  "Close_end a = a\<lparr>queueClosed := True\<rparr>"

text \<open>The counters \<^verbatim>\<open>Stats\<close> reports, with the length of the queue.\<close>

record AsyncStats =
  stat_Queued :: int
  stat_Completed :: int
  stat_Failed :: int
  stat_Retries :: int
  stat_Batches :: int
  CurrentQueueSize :: int

definition Async_Stats :: "asyncDB \<Rightarrow> AsyncStats" where
  "Async_Stats a =
     \<lparr>stat_Queued = QueuedOperations a, stat_Completed = CompletedOperations a,
      stat_Failed = FailedOperations a, stat_Retries = Retries a, stat_Batches = BatchesProcessed a,
      CurrentQueueSize = int (length (queue a))\<rparr>"

section \<open>Runs\<close>

text \<open>
  The steps of the goroutines. A submission whose check of \<^verbatim>\<open>isClosed\<close> came before the closing may
  be carried out after it (\<open>late\<close>); a timer that has fired may run after it was stopped. A step that
  panics ends the process, so no step has that result.
\<close>

inductive async_step :: "asyncDB \<Rightarrow> asyncDB \<Rightarrow> bool" where
  query: "Async_Query i sql a = (a', res) \<Longrightarrow> res \<noteq> Panic \<Longrightarrow> async_step a a'"
| exec: "Async_Exec i sql a = (a', res) \<Longrightarrow> res \<noteq> Panic \<Longrightarrow> async_step a a'"
| late: "submit_checked ty batchable i sql a = (a', res) \<Longrightarrow> res \<noteq> Panic \<Longrightarrow> async_step a a'"
| timer: "processBatchByTimer b a = (a', res) \<Longrightarrow> res \<noteq> Panic \<Longrightarrow> async_step a a'"
| pending: "processPendingBatches order a = (a', res) \<Longrightarrow> res \<noteq> Panic \<Longrightarrow> async_step a a'"
| worker_take: "\<not> queueClosed a \<Longrightarrow> async_step a (take_operation a)"
| worker_finish: "op \<in> set (running a) \<Longrightarrow> finish_operation op w a = (a', res) \<Longrightarrow> res \<noteq> Panic
    \<Longrightarrow> async_step a a'"
| close_begin: "Close_begin order a = (a', res) \<Longrightarrow> res \<noteq> Panic \<Longrightarrow> async_step a a'"
| close_end: "isClosed a \<Longrightarrow> running a = [] \<Longrightarrow> async_step a (Close_end a)"

inductive async_reach :: "asyncDB \<Rightarrow> bool" where
  start: "retries \<le> max_int64 \<Longrightarrow> async_reach (NewAsyncDB qs retries batching bs)"
| step: "async_reach a \<Longrightarrow> async_step a a' \<Longrightarrow> async_reach a'"


section \<open>Accounting for operations\<close>

definition waiting :: "asyncDB \<Rightarrow> operation multiset" where
  "waiting a = mset (queue a) + mset (concat (map snd (batchQueues a))) + mset (running a)"

definition places :: "asyncDB \<Rightarrow> nat multiset" where
  "places a = image_mset op_id (waiting a) + mset (map fst (called a)) + mset (lost a)"

definition retry_ok :: "int \<Rightarrow> operation \<Rightarrow> bool" where
  "retry_ok m op \<longleftrightarrow> 0 \<le> RetryCount op \<and> RetryCount op \<le> max 0 m"

definition loses_when_full :: "asyncDB \<Rightarrow> asyncDB \<Rightarrow> bool" where
  "loses_when_full a a' \<longleftrightarrow> QueueSize a' = QueueSize a \<and> MaxRetries a' = MaxRetries a
     \<and> accepted a' = accepted a \<and> size (places a) \<le> size (places a')
     \<and> (lost a' = lost a \<or> QueueSize a < size (places a'))"

lemma loses_when_full_trans:
  "loses_when_full a b \<Longrightarrow> loses_when_full b c \<Longrightarrow> loses_when_full a c"
  by (auto simp: loses_when_full_def)

definition async_wf :: "asyncDB \<Rightarrow> bool" where
  "async_wf a \<longleftrightarrow> distinct (map fst (batchQueues a)) \<and> length (queue a) \<le> QueueSize a
     \<and> (\<forall>op \<in># waiting a. retry_ok (MaxRetries a) op) \<and> MaxRetries a \<le> max_int64"

lemma mset_alist_update_append:
  "mset (concat (map snd (AList.update k ((case map_of m k of None \<Rightarrow> [] | Some v \<Rightarrow> v) @ [x]) m)))
     = add_mset x (mset (concat (map snd m)))"
  by (induction m) auto

lemma mset_alist_delete:
  "distinct (map fst m) \<Longrightarrow>
   mset (concat (map snd m))
     = mset (case map_of m k of None \<Rightarrow> [] | Some v \<Rightarrow> v) + mset (concat (map snd (AList.delete k m)))"
proof (induction m)
  case (Cons e m)
  obtain k' v where e: "e = (k', v)" by (cases e)
  show ?case
  proof (cases "k' = k")
    case True
    then have "k \<notin> fst ` set m" using Cons.prems e by auto
    then show ?thesis using True e by (simp add: delete_idem)
  next
    case False
    then show ?thesis using Cons e by simp
  qed
qed simp

text \<open>One operation goes into the queue, or is lost because the queue is full.\<close>

lemma enqueueOperation_effect:
  assumes "enqueueOperation op a = (a', Ret ())" and "async_wf a" and "retry_ok (MaxRetries a) op"
  shows "async_wf a'" and "places a' = add_mset (op_id op) (places a)"
    and "loses_when_full a a'"
  using assms
  by (auto simp: enqueueOperation_def async_wf_def places_def waiting_def loses_when_full_def
      split: if_splits; force)+

lemma enqueueOperation_fail: "enqueueOperation op a = (a', Fail e) \<Longrightarrow> a' = a"
  by (auto simp: enqueueOperation_def split: if_splits)

lemma enqueue_or_lose_effect:
  assumes "enqueue_or_lose op a = (a', res)" and "res \<noteq> Panic" and "async_wf a"
    and "retry_ok (MaxRetries a) op"
  shows "async_wf a' \<and> places a' = add_mset (op_id op) (places a)
    \<and> loses_when_full a a' \<and> res = Ret ()"
proof (cases "snd (enqueueOperation op a)")
  case (Ret u)
  then have "enqueueOperation op a = (a', Ret ())" and "res = Ret ()"
    using assms(1) by (auto simp: enqueue_or_lose_def split: prod.splits)
  then show ?thesis using enqueueOperation_effect assms(3,4) by blast
next
  case (Fail e)
  then have full: "QueueSize a \<le> length (queue a)"
    by (auto simp: enqueueOperation_def split: if_splits)
  have eq: "a' = a\<lparr>lost := lost a @ [op_id op]\<rparr>" and "res = Ret ()"
    using assms(1) Fail
    by (auto simp: enqueue_or_lose_def enqueueOperation_def split: if_splits)
  then show ?thesis using full assms(3)
    by (auto simp: async_wf_def places_def waiting_def loses_when_full_def)
next
  case Panic
  then show ?thesis using assms(1,2) by (auto simp: enqueue_or_lose_def split: prod.splits)
qed

lemma enqueue_all_effect:
  assumes "enqueue_all ops a = (a', res)" and "res \<noteq> Panic" and "async_wf a"
    and "\<forall>op \<in> set ops. retry_ok (MaxRetries a) op"
  shows "async_wf a' \<and> places a' = places a + mset (map op_id ops)
    \<and> loses_when_full a a' \<and> res = Ret ()"
  using assms
proof (induction ops arbitrary: a)
  case (Cons op ops)
  obtain a1 r where one: "enqueue_or_lose op a = (a1, r)" by fastforce
  have "r \<noteq> Panic" using Cons.prems(1,2) one by auto
  then have e: "async_wf a1" "places a1 = add_mset (op_id op) (places a)"
    "loses_when_full a a1" "r = Ret ()"
    using enqueue_or_lose_effect [OF one] Cons.prems(3,4) by auto
  have "enqueue_all ops a1 = (a', res)" using Cons.prems(1) one e by simp
  from Cons.IH [OF this Cons.prems(2) e(1)] show ?case
    using Cons.prems(4) e by (auto simp: loses_when_full_def)
qed (simp add: loses_when_full_def)

text \<open>The steps that move operations without taking in a new one.\<close>

definition moves :: "asyncDB \<Rightarrow> asyncDB \<Rightarrow> bool" where
  "moves a a' \<longleftrightarrow> async_wf a' \<and> places a' = places a \<and> loses_when_full a a'"

lemma moves_refl: "async_wf a \<Longrightarrow> moves a a"
  by (simp add: moves_def loses_when_full_def)

lemma moves_trans: "moves a b \<Longrightarrow> moves b c \<Longrightarrow> moves a c"
  by (auto simp: moves_def loses_when_full_def)

lemma mset_batch_of:
  assumes "distinct (map fst (batchQueues a))"
  shows "mset (concat (map snd (batchQueues a)))
    = mset (batch_of b a) + mset (concat (map snd (AList.delete b (batchQueues a))))"
  unfolding batch_of_def by (rule mset_alist_delete [OF assms])

lemma waiting_batch_of:
  assumes "async_wf a" and "op \<in> set (batch_of b a)"
  shows "op \<in># waiting a"
proof -
  have "op \<in># mset (batch_of b a)" using assms(2) by simp
  then have "op \<in># mset (concat (map snd (batchQueues a)))"
    using mset_batch_of [of a b] assms(1) unfolding async_wf_def by (metis union_iff)
  then show ?thesis unfolding waiting_def by (metis union_iff)
qed

lemma processBatch_moves:
  assumes step: "processBatch b a = (a', res)" and np: "res \<noteq> Panic" and wf: "async_wf a"
  shows "moves a a' \<and> res = Ret ()"
proof (cases "batch_of b a = []")
  case True
  then show ?thesis using step wf by (simp add: processBatch_def moves_refl)
next
  case False
  define a1 where "a1 = a\<lparr>batchQueues := AList.delete b (batchQueues a),
    BatchesProcessed := wrap64 (BatchesProcessed a + 1)\<rparr>"
  have all: "enqueue_all (batch_of b a) a1 = (a', res)"
    using step False by (simp add: processBatch_def a1_def)
  have d: "distinct (map fst (batchQueues a))" using wf by (simp add: async_wf_def)
  have w: "waiting a = waiting a1 + mset (batch_of b a)"
    using mset_batch_of [OF d, of b] by (simp add: waiting_def a1_def)
  have q: "QueueSize a1 = QueueSize a" "MaxRetries a1 = MaxRetries a" "accepted a1 = accepted a"
    "lost a1 = lost a" "called a1 = called a" "queue a1 = queue a"
    by (simp_all add: a1_def)
  have "distinct (map fst (batchQueues a1))" using d by (simp add: a1_def distinct_delete)
  then have wf1: "async_wf a1" using wf w q by (simp add: async_wf_def)
  have ok: "\<forall>op \<in> set (batch_of b a). retry_ok (MaxRetries a1) op"
    using wf w q by (simp add: async_wf_def)
  have p: "places a = places a1 + mset (map op_id (batch_of b a))" using w q by (simp add: places_def)
  show ?thesis using enqueue_all_effect [OF all np wf1 ok] p q
    by (auto simp: moves_def loses_when_full_def)
qed

lemma async_wf_fields [simp]:
  "async_wf (a\<lparr>batchTimers := ts\<rparr>) = async_wf a" "places (a\<lparr>batchTimers := ts\<rparr>) = places a"
  "async_wf (a\<lparr>isClosed := c\<rparr>) = async_wf a" "places (a\<lparr>isClosed := c\<rparr>) = places a"
  "async_wf (a\<lparr>queueClosed := c\<rparr>) = async_wf a" "places (a\<lparr>queueClosed := c\<rparr>) = places a"
  "async_wf (a\<lparr>accepted := l\<rparr>) = async_wf a" "places (a\<lparr>accepted := l\<rparr>) = places a"
  "async_wf (a\<lparr>Retries := n\<rparr>) = async_wf a" "places (a\<lparr>Retries := n\<rparr>) = places a"
  "async_wf (a\<lparr>FailedOperations := n\<rparr>) = async_wf a" "places (a\<lparr>FailedOperations := n\<rparr>) = places a"
  by (simp_all add: async_wf_def places_def waiting_def)

lemma moves_fields:
  "async_wf a \<Longrightarrow> moves a (a\<lparr>batchTimers := ts\<rparr>)" "async_wf a \<Longrightarrow> moves a (a\<lparr>isClosed := c\<rparr>)"
  "async_wf a \<Longrightarrow> moves a (a\<lparr>queueClosed := c\<rparr>)"
  by (simp_all add: moves_def loses_when_full_def)

lemma process_batches_moves:
  "process_batches bs a = (a', res) \<Longrightarrow> res \<noteq> Panic \<Longrightarrow> async_wf a \<Longrightarrow> moves a a' \<and> res = Ret ()"
proof (induction bs arbitrary: a)
  case (Cons b bs)
  obtain a1 r where one: "processBatch b a = (a1, r)" by fastforce
  have "r \<noteq> Panic" using Cons.prems(1,2) one by auto
  then have e: "moves a a1" "r = Ret ()" using processBatch_moves [OF one _ Cons.prems(3)] by auto
  have "process_batches bs a1 = (a', res)" using Cons.prems(1) one e by simp
  from Cons.IH [OF this Cons.prems(2)] show ?case using e moves_trans [OF e(1), of a'] by (simp add: moves_def)
qed (simp add: moves_refl)

lemma processBatchByTimer_moves:
  assumes "processBatchByTimer b a = (a', res)" and "res \<noteq> Panic" and "async_wf a"
  shows "moves a a'"
  using processBatch_moves [OF assms(1) [unfolded processBatchByTimer_def] assms(2)]
    moves_fields(1) [OF assms(3)] moves_trans assms(3) by auto

lemma processPendingBatches_moves:
  assumes "processPendingBatches order a = (a', res)" and "res \<noteq> Panic" and "async_wf a"
  shows "moves a a'"
  using process_batches_moves [OF assms(1) [unfolded processPendingBatches_def] assms(2)]
    moves_fields(1) [OF assms(3)] moves_trans assms(3) by auto

lemma Close_begin_moves:
  assumes "Close_begin order a = (a', res)" and "res \<noteq> Panic" and "async_wf a"
  shows "moves a a'"
proof (cases "isClosed a")
  case True
  then show ?thesis using assms by (simp add: Close_begin_def moves_refl)
next
  case False
  then have "processPendingBatches order (a\<lparr>isClosed := True\<rparr>) = (a', res)"
    using assms(1) by (simp add: Close_begin_def)
  from processPendingBatches_moves [OF this assms(2)] show ?thesis
    using moves_fields(2) [OF assms(3)] moves_trans assms(3) by auto
qed

section \<open>Submissions and workers\<close>

text \<open>A submission takes in one operation.\<close>

lemma addToBatch_effect:
  assumes step: "addToBatch b op a = (a', res)" and np: "res \<noteq> Panic" and wf: "async_wf a"
    and ok: "retry_ok (MaxRetries a) op"
  shows "async_wf a' \<and> places a' = add_mset (op_id op) (places a) \<and> loses_when_full a a' \<and> res = Ret ()"
proof -
  define op1 where "op1 = op\<lparr>BatchID := b\<rparr>"
  define a1 where "a1 = a\<lparr>batchQueues := AList.update b (batch_of b a @ [op1]) (batchQueues a)\<rparr>"
  have op1: "op_id op1 = op_id op" "retry_ok (MaxRetries a) op1"
    using ok by (simp_all add: op1_def retry_ok_def)
  have w: "waiting a1 = add_mset op1 (waiting a)"
    using mset_alist_update_append [of b "batchQueues a" op1]
    by (simp add: waiting_def a1_def batch_of_def)
  have "distinct (map fst (batchQueues a1))"
    using wf by (simp add: a1_def distinct_update async_wf_def)
  then have wf1: "async_wf a1" using wf w op1 by (auto simp: async_wf_def a1_def)
  have p1: "places a1 = add_mset (op_id op) (places a)" using w op1 by (simp add: places_def a1_def)
  have l1: "loses_when_full a a1" using p1 by (simp add: loses_when_full_def) (simp add: a1_def)
  consider "processBatch b a1 = (a', res)" | ts where "a' = a1\<lparr>batchTimers := ts\<rparr>" "res = Ret ()"
    | "a' = a1" "res = Ret ()"
    using step unfolding addToBatch_def Let_def op1_def [symmetric] a1_def [symmetric]
    by (auto split: if_splits)
  then have "moves a1 a' \<and> res = Ret ()"
    using processBatch_moves [OF _ np wf1] moves_fields(1) [OF wf1] moves_refl [OF wf1] by metis
  then show ?thesis using p1 l1 loses_when_full_trans by (auto simp: moves_def)
qed

definition conserved :: "asyncDB \<Rightarrow> bool" where
  "conserved a \<longleftrightarrow> async_wf a \<and> mset (accepted a) = places a
     \<and> (lost a = [] \<or> QueueSize a < length (accepted a))"

lemma size_places: "mset (accepted a) = places a \<Longrightarrow> size (places a) = length (accepted a)"
  by (metis size_mset)

lemma moves_conserved:
  assumes "moves a a'" and "conserved a" shows "conserved a'"
proof -
  have "mset (accepted a') = places a'" using assms by (simp add: moves_def conserved_def loses_when_full_def)
  then show ?thesis using assms size_places [of a'] by (auto simp: moves_def conserved_def loses_when_full_def)
qed

lemma submit_checked_conserved:
  assumes step: "submit_checked ty batchable i sql a = (a', res)" and np: "res \<noteq> Panic"
    and inv: "conserved a"
  shows "conserved a'"
proof -
  let ?op = "new_operation i ty sql"
  have wf: "async_wf a" using inv by (simp add: conserved_def)
  have op: "retry_ok (MaxRetries a) ?op" "op_id ?op = i" by (simp_all add: new_operation_def retry_ok_def)
  obtain a1 where a1: "addToBatch (getBatchID sql) ?op a = (a1, res) \<or> enqueueOperation ?op a = (a1, res)"
    and a': "a' = (if res = Ret () then a1\<lparr>accepted := accepted a1 @ [i]\<rparr> else a1)"
    using step by (auto simp: submit_checked_def accept_def Let_def split: if_splits prod.splits)
  show ?thesis
  proof (cases "res = Ret ()")
    case True
    then have e: "async_wf a1" "places a1 = add_mset i (places a)" "loses_when_full a a1"
      using a1 addToBatch_effect [OF _ np wf op(1)] enqueueOperation_effect [OF _ wf op(1)] op(2)
      by auto
    then show ?thesis using True inv a' size_places [of a]
      by (auto simp: conserved_def loses_when_full_def)
  next
    case False
    then obtain e where "res = Fail e" using np by (cases res) auto
    then have "a1 = a" using a1 addToBatch_effect [OF _ np wf op(1)] enqueueOperation_fail by blast
    then show ?thesis using inv a' False by simp
  qed
qed

lemma take_operation_moves: "async_wf a \<Longrightarrow> moves a (take_operation a)"
  by (cases "queue a")
    (auto simp: take_operation_def moves_refl, auto simp: moves_def loses_when_full_def async_wf_def places_def waiting_def)

lemma completeOperation_effect:
  "async_wf a \<Longrightarrow> async_wf (completeOperation op r a)"
  "places (completeOperation op r a) = add_mset (op_id op) (places a)"
  "loses_when_full a (completeOperation op r a)"
  by (auto simp: completeOperation_def async_wf_def places_def waiting_def loses_when_full_def)

lemma processOperation_effect:
  assumes step: "processOperation op w a = (a', res)" and np: "res \<noteq> Panic" and wf: "async_wf a"
    and ok: "retry_ok (MaxRetries a) op"
  shows "async_wf a' \<and> places a' = add_mset (op_id op) (places a) \<and> loses_when_full a a'"
proof -
  let ?op = "op\<lparr>RetryCount := wrap64 (RetryCount op + 1)\<rparr>"
  let ?a = "a\<lparr>Retries := wrap64 (Retries a + 1)\<rparr>"
  let ?f = "a\<lparr>FailedOperations := wrap64 (FailedOperations a + 1)\<rparr>"
  consider r where "a' = completeOperation op r a" | "a' = completeOperation op failure ?f"
    | "RetryCount op < MaxRetries a" "enqueue_or_lose ?op ?a = (a', res)"
    using step by (auto simp: processOperation_def split: if_splits option.splits)
  then show ?thesis
  proof cases
    case 1
    then show ?thesis using completeOperation_effect wf by simp
  next
    case 2
    then show ?thesis using completeOperation_effect(1) [of ?f] completeOperation_effect(2) [of op failure ?f]
      completeOperation_effect(3) [of ?f op failure] wf
      by (simp add: loses_when_full_def)
  next
    case 3
    have "wrap64 (RetryCount op + 1) = RetryCount op + 1"
      using ok wf 3(1) by (intro wrap64_id) (auto simp: retry_ok_def async_wf_def min_int64_def)
    then have "retry_ok (MaxRetries ?a) ?op" using ok 3(1) by (simp add: retry_ok_def)
    from enqueue_or_lose_effect [OF 3(2) np _ this] show ?thesis
      using wf by (auto simp: loses_when_full_def)
  qed
qed

lemma finish_operation_moves:
  assumes mem: "op \<in> set (running a)" and step: "finish_operation op w a = (a', res)"
    and np: "res \<noteq> Panic" and wf: "async_wf a"
  shows "moves a a'"
proof -
  define a1 where "a1 = a\<lparr>running := remove1 op (running a)\<rparr>"
  have w: "waiting a = add_mset op (waiting a1)"
    using mem by (simp add: waiting_def a1_def)
  have p: "places a = add_mset (op_id op) (places a1)" using w by (simp add: places_def a1_def)
  have wf1: "async_wf a1" and ok: "retry_ok (MaxRetries a1) op"
    using wf w by (auto simp: async_wf_def a1_def)
  have q: "QueueSize a1 = QueueSize a" "MaxRetries a1 = MaxRetries a" "accepted a1 = accepted a"
    "lost a1 = lost a" by (simp_all add: a1_def)
  have "processOperation op w a1 = (a', res)" using step by (simp add: finish_operation_def a1_def)
  from processOperation_effect [OF this np wf1 ok] p q show ?thesis
    by (auto simp: moves_def loses_when_full_def)
qed

lemma async_step_conserved:
  "async_step a a' \<Longrightarrow> conserved a \<Longrightarrow> conserved a'"
proof (induction rule: async_step.induct)
  case (query i sql a a' res)
  then show ?case using submit_checked_conserved by (auto simp: Async_Query_def split: if_splits)
next
  case (exec i sql a a' res)
  then show ?case using submit_checked_conserved by (auto simp: Async_Exec_def split: if_splits)
next
  case (late ty batchable i sql a a' res)
  then show ?case using submit_checked_conserved by blast
next
  case (timer b a a' res)
  then show ?case using processBatchByTimer_moves moves_conserved conserved_def by blast
next
  case (pending order a a' res)
  then show ?case using processPendingBatches_moves moves_conserved conserved_def by blast
next
  case (worker_take a)
  then show ?case using take_operation_moves moves_conserved conserved_def by blast
next
  case (worker_finish op a w a' res)
  then show ?case using finish_operation_moves moves_conserved conserved_def by blast
next
  case (close_begin order a a' res)
  then show ?case using Close_begin_moves moves_conserved conserved_def by blast
next
  case (close_end a)
  then show ?case using moves_fields(3) moves_conserved by (simp add: Close_end_def conserved_def)
qed

lemma async_reach_conserved: "async_reach a \<Longrightarrow> conserved a"
proof (induction rule: async_reach.induct)
  case (start retries qs batching bs)
  then show ?case
    by (simp add: conserved_def async_wf_def places_def waiting_def NewAsyncDB_def)
next
  case (step a a')
  then show ?case using async_step_conserved by blast
qed

lemma distinct_sub_mset: "mset xs \<subseteq># mset ys \<Longrightarrow> distinct ys \<Longrightarrow> distinct xs"
proof -
  assume sub: "mset xs \<subseteq># mset ys" and d: "distinct ys"
  have "count (mset xs) x = (if x \<in> set xs then 1 else 0)" for x
  proof -
    have "count (mset xs) x \<le> count (mset ys) x" using sub by (rule mset_subset_eq_count)
    also have "\<dots> \<le> 1" using d by (simp add: distinct_count_atmost_1)
    finally have "count (mset xs) x \<le> 1" .
    moreover have "x \<in> set xs \<Longrightarrow> 1 \<le> count (mset xs) x"
      by (simp add: Suc_le_eq)
    ultimately show ?thesis by (cases "x \<in> set xs") (simp_all add: le_antisym)
  qed
  then show ?thesis by (simp add: distinct_count_atmost_1)
qed

text \<open>C13: The asynchronous database access neither duplicates nor forgets an operation, whatever the
  interleaving of submissions, timers, workers, retries and closing: the operations whose
  submission succeeded are, each exactly once, in the queue, in a batch, with a worker, answered, or
  dropped. None is dropped as long as no more operations were accepted than the queue can hold; and
  when operations are distinct no callback is called twice.\<close>

theorem async_exactly_once:
  assumes "async_reach a"
  shows "mset (accepted a) = image_mset op_id (mset (queue a) + mset (concat (map snd (batchQueues a)))
        + mset (running a)) + mset (map fst (called a)) + mset (lost a)
    \<and> (length (accepted a) \<le> QueueSize a \<longrightarrow> lost a = [])
    \<and> (distinct (accepted a) \<longrightarrow> distinct (map fst (called a)))"
proof -
  have inv: "conserved a" by (rule async_reach_conserved [OF assms])
  then have eq: "mset (accepted a) = places a" by (simp add: conserved_def)
  have "mset (map fst (called a)) \<subseteq># mset (accepted a)"
    unfolding eq places_def by (metis mset_subset_eq_add_left mset_subset_eq_add_right subset_mset.trans)
  then have "distinct (accepted a) \<longrightarrow> distinct (map fst (called a))" using distinct_sub_mset by blast
  then show ?thesis using inv eq by (auto simp: conserved_def places_def waiting_def)
qed

section \<open>Answers\<close>

text \<open>The number of times a worker may have to process what is queued.\<close>

definition rounds :: "int \<Rightarrow> operation \<Rightarrow> nat" where
  "rounds m op = Suc (nat (m - RetryCount op))"

definition budget :: "asyncDB \<Rightarrow> nat" where
  "budget a = sum_list (map (rounds (MaxRetries a)) (queue a))"

definition serving :: "asyncDB \<Rightarrow> bool" where
  "serving a \<longleftrightarrow> async_wf a \<and> \<not> queueClosed a \<and> running a = []"

lemma serve_one_retry:
  assumes "queue a = op # ops" and "serving a" and "\<not> ctx_err w" and "run_sql w (Type op) = None"
    and "RetryCount op < MaxRetries a"
  shows "serve_one w a = a\<lparr>queue := ops @ [op\<lparr>RetryCount := RetryCount op + 1\<rparr>],
    QueuedOperations := wrap64 (QueuedOperations a + 1), Retries := wrap64 (Retries a + 1)\<rparr>"
proof -
  have "wrap64 (RetryCount op + 1) = RetryCount op + 1"
    using assms(1,2,5)
    by (intro wrap64_id) (auto simp: serving_def retry_ok_def async_wf_def waiting_def min_int64_def)
  moreover have "length ops < QueueSize a" using assms(1,2) by (simp add: serving_def async_wf_def)
  ultimately show ?thesis using assms
    by (simp add: serve_one_def take_operation_def finish_operation_def processOperation_def
        enqueue_or_lose_def enqueueOperation_def serving_def)
qed

lemma serve_one_complete:
  assumes "queue a = op # ops" and "serving a"
    and "ctx_err w \<or> run_sql w (Type op) \<noteq> None \<or> \<not> RetryCount op < MaxRetries a"
  obtains n r where "serve_one w a = a\<lparr>queue := ops, FailedOperations := n,
    CompletedOperations := wrap64 (CompletedOperations a + 1), called := called a @ [(op_id op, r)]\<rparr>"
proof -
  have r: "running a = []" using assms(2) by (simp add: serving_def)
  show ?thesis
    using assms(1,3) r
    by (intro that [where n =
          "if ctx_err w \<or> run_sql w (Type op) \<noteq> None then FailedOperations a
           else wrap64 (FailedOperations a + 1)" and r =
          "if ctx_err w then failure else case run_sql w (Type op) of None \<Rightarrow> failure | Some r \<Rightarrow> r"])
      (auto simp: serve_one_def take_operation_def finish_operation_def processOperation_def
        completeOperation_def split: option.splits)
qed

lemma serve_one_progress:
  assumes q: "queue a = op # ops" and sv: "serving a"
  shows "serving (serve_one w a) \<and> budget (serve_one w a) < budget a \<and> lost (serve_one w a) = lost a
    \<and> image_mset op_id (mset (queue (serve_one w a))) + mset (map fst (called (serve_one w a)))
      = image_mset op_id (mset (queue a)) + mset (map fst (called a))"
proof (cases "ctx_err w \<or> run_sql w (Type op) \<noteq> None \<or> \<not> RetryCount op < MaxRetries a")
  case True
  obtain n r where one: "serve_one w a = a\<lparr>queue := ops, FailedOperations := n,
      CompletedOperations := wrap64 (CompletedOperations a + 1), called := called a @ [(op_id op, r)]\<rparr>"
    by (rule serve_one_complete [OF q sv True])
  show ?thesis unfolding one serving_def async_wf_def waiting_def budget_def
    using q sv by (simp add: serving_def async_wf_def waiting_def rounds_def)
next
  case False
  have "serve_one w a = a\<lparr>queue := ops @ [op\<lparr>RetryCount := RetryCount op + 1\<rparr>],
    QueuedOperations := wrap64 (QueuedOperations a + 1), Retries := wrap64 (Retries a + 1)\<rparr>"
    using False by (intro serve_one_retry [OF q sv]) auto
  then show ?thesis using q sv False
    by (auto simp: serving_def async_wf_def waiting_def budget_def rounds_def retry_ok_def)
qed

lemma serve_idle: "queue a = [] \<Longrightarrow> serve ws a = a"
  by (induction ws) (simp_all add: serve_one_def)

text \<open>C30: Retries end. A worker that serves an open queue answers every queued operation, whatever
  the database returns: after at most one round for each operation and each retry it has left the
  queue is empty, the callback of every operation that was queued has been called exactly once, and
  none was dropped.\<close>

theorem retries_end:
  assumes "serving a" and "budget a \<le> length ws"
  shows "queue (serve ws a) = [] \<and> lost (serve ws a) = lost a
    \<and> mset (map fst (called (serve ws a)))
        = mset (map op_id (queue a)) + mset (map fst (called a))"
  using assms
proof (induction ws arbitrary: a)
  case Nil
  then have "queue a = []" by (cases "queue a") (simp_all add: budget_def rounds_def)
  then show ?case by simp
next
  case (Cons w ws)
  show ?case
  proof (cases "queue a")
    case Nil
    then show ?thesis using serve_idle [OF Nil, of "w # ws"] by simp
  next
    case (Cons op ops)
    note one = serve_one_progress [OF Cons \<open>serving a\<close>, of w]
    then have "budget (serve_one w a) \<le> length ws" using Cons.prems(2) by simp
    from Cons.IH [OF _ this] show ?thesis using one by simp
  qed
qed

section \<open>What can be lost\<close>

definition sample_ok :: world where
  "sample_ok = \<lparr>ctx_err = False, pool_query = Some ''r'', ResultHandler = None, pool_exec = Some 1\<rparr>"

definition sample_err :: world where
  "sample_err = \<lparr>ctx_err = False, pool_query = None, ResultHandler = None, pool_exec = None\<rparr>"

definition sample_one :: asyncDB where
  "sample_one = fst (Async_Query 2 ''SELECT 2'' (fst (Async_Exec 1 ''UPDATE t'' (NewAsyncDB 4 1 False 10))))"

text \<open>An operation that was accepted into a batch is dropped when the queue is full.\<close>

lemma batched_operation_lost:
  "(let a = NewAsyncDB 1 3 True 2;
        (a, r1) = Async_Exec 1 ''UPDATE t'' a;
        (a, r2) = Async_Exec 2 ''UPDATE t'' a
    in r1 = Ret () \<and> r2 = Ret () \<and> map op_id (queue a) = [1] \<and> lost a = [2])"
  by code_simp

text \<open>\<^verbatim>\<open>WaitForCompletion\<close> returns while a worker still has an operation.\<close>

lemma wait_done_early:
  "(let a = take_operation (fst (Async_Exec 1 ''UPDATE t'' (NewAsyncDB 1 3 False 2)))
    in wait_done a \<and> map op_id (running a) = [1] \<and> called a = [])"
  by code_simp

text \<open>A submission that passed its check before the closing sends on the closed queue.\<close>

lemma late_submission_panics:
  "\<not> EnableBatching a \<Longrightarrow>
   snd (submit_checked ty batchable i sql (Close_end a)) = Panic"
  by (simp add: submit_checked_def accept_def Close_end_def enqueueOperation_def)

text \<open>\<^verbatim>\<open>Close\<close> may end with operations in the queue: their callbacks are never called.\<close>

lemma close_leaves_queued:
  "(let a = fst (Async_Exec 1 ''UPDATE t'' (NewAsyncDB 1 3 False 2));
        a = Close_end (fst (Close_begin [] a))
    in map op_id (queue a) = [1] \<and> called a = [] \<and> queueClosed a)"
  by code_simp

lemma async_exactly_once_witness:
  "async_reach sample_one \<and> accepted sample_one = [1, 2] \<and> lost sample_one = []
    \<and> distinct (map fst (called sample_one))"
proof -
  define a0 where "a0 = NewAsyncDB 4 1 False 10"
  have "async_reach a0" unfolding a0_def by (rule async_reach.start) (simp add: max_int64_def)
  moreover have "async_step a0 (fst (Async_Exec 1 ''UPDATE t'' a0))"
    by (rule async_step.exec [of 1 "''UPDATE t''" _ _ "Ret ()"])
      (simp_all add: a0_def NewAsyncDB_def Async_Exec_def submit_checked_def accept_def enqueueOperation_def)
  moreover have "async_step (fst (Async_Exec 1 ''UPDATE t'' a0)) sample_one"
    by (rule async_step.query [of 2 "''SELECT 2''" _ _ "Ret ()"])
      (simp_all add: sample_one_def a0_def NewAsyncDB_def Async_Exec_def Async_Query_def submit_checked_def
        accept_def enqueueOperation_def)
  ultimately have reach: "async_reach sample_one" using async_reach.step by blast
  have acc: "accepted sample_one = [1, 2]" and size: "QueueSize sample_one = 4"
    by (simp_all add: sample_one_def NewAsyncDB_def Async_Exec_def Async_Query_def submit_checked_def
        accept_def enqueueOperation_def)
  show ?thesis using async_exactly_once [OF reach] reach acc size by simp
qed

lemma retries_end_witness:
  "queue (serve [sample_err, sample_ok, sample_ok, sample_ok] sample_one) = []
    \<and> mset (map fst (called (serve [sample_err, sample_ok, sample_ok, sample_ok] sample_one))) = {#1, 2#}"
proof -
  have eval: "queue sample_one = [new_operation 1 OpExec ''UPDATE t'', new_operation 2 OpQuery ''SELECT 2'']"
    "MaxRetries sample_one = 1" "called sample_one = []" "running sample_one = []"
    "batchQueues sample_one = []" "\<not> queueClosed sample_one" "QueueSize sample_one = 4"
    by (simp_all add: sample_one_def NewAsyncDB_def Async_Exec_def Async_Query_def submit_checked_def
        accept_def enqueueOperation_def)
  have "serving sample_one"
    by (simp add: serving_def async_wf_def waiting_def eval retry_ok_def new_operation_def max_int64_def)
  moreover have "budget sample_one \<le> length [sample_err, sample_ok, sample_ok, sample_ok]"
    by (simp add: budget_def rounds_def eval new_operation_def)
  ultimately show ?thesis
    using retries_end [of sample_one "[sample_err, sample_ok, sample_ok, sample_ok]"]
    by (simp add: eval new_operation_def)
qed

end
