(* ===== verification/Rpc_Simple.thy ===== *)
theory Rpc_Simple
  imports Go_Prelude "HOL-Library.Finite_Map"
begin

text \<open>
  The standalone RPC client and echo server of \<^verbatim>\<open>src/pkg/rpc/client_standalone.go\<close> and
  \<^verbatim>\<open>src/pkg/rpc/server_standalone.go\<close>, and the system they form. Calls are shared between the
  caller and the goroutine that processes a response, so they live in a store and are named by their address. The
  field \<open>asked\<close> of a call, the message its caller sent, is not in the code. \<^verbatim>\<open>encoding/json\<close> is a parameter. The
  goroutines that process requests and responses run in any order: the two directions of the connection are
  multisets of the packets under way, and a read returns one packet.
\<close>

section \<open>Messages\<close>

record SimpleJsonRequest =
  rq_ServiceMethod :: string
  rq_Sequence :: "64 word"
  rq_Args :: "byte list"

record SimpleJsonResponse =
  rs_ServiceMethod :: string
  rs_Sequence :: "64 word"
  rs_Error :: string
  rs_Reply :: "byte list"

record EchoArgs = ea_Message :: string

record EchoReply =
  er_Message :: string
  er_Time :: int

text \<open>Marshalling and unmarshalling of the four types, and what marshalling makes of a string.\<close>

record simple_json =
  clean :: "string \<Rightarrow> string"
  put_req :: "SimpleJsonRequest \<Rightarrow> byte list option"
  get_req :: "byte list \<Rightarrow> SimpleJsonRequest option"
  put_resp :: "SimpleJsonResponse \<Rightarrow> byte list option"
  get_resp :: "byte list \<Rightarrow> SimpleJsonResponse option"
  put_args :: "EchoArgs \<Rightarrow> byte list option"
  get_args :: "byte list \<Rightarrow> EchoArgs option"
  put_reply :: "EchoReply \<Rightarrow> byte list option"
  get_reply :: "byte list \<Rightarrow> EchoReply option"

text \<open>
  What is marshalled is unmarshalled again, with every string's invalid UTF-8 replaced (\<open>clean\<close>). A raw message
  that a marshalled value was put in comes back as it was; a nil raw message comes back as some other one.
\<close>

definition simple_json_ok :: "simple_json \<Rightarrow> bool" where
  "simple_json_ok j \<longleftrightarrow>
     clean j [] = [] \<and> (\<forall>t. clean j (clean j t) = clean j t) \<and>
     (\<forall>m s args ab bs. put_args j args = Some ab \<longrightarrow>
        put_req j \<lparr>rq_ServiceMethod = m, rq_Sequence = s, rq_Args = ab\<rparr> = Some bs \<longrightarrow>
        get_req j bs = Some \<lparr>rq_ServiceMethod = clean j m, rq_Sequence = s, rq_Args = ab\<rparr>) \<and>
     (\<forall>m s e reply rb bs. put_reply j reply = Some rb \<longrightarrow>
        put_resp j \<lparr>rs_ServiceMethod = m, rs_Sequence = s, rs_Error = e, rs_Reply = rb\<rparr> = Some bs \<longrightarrow>
        get_resp j bs = Some \<lparr>rs_ServiceMethod = clean j m, rs_Sequence = s, rs_Error = clean j e, rs_Reply = rb\<rparr>) \<and>
     (\<forall>m s e bs. put_resp j \<lparr>rs_ServiceMethod = m, rs_Sequence = s, rs_Error = e, rs_Reply = []\<rparr> = Some bs \<longrightarrow>
        (\<exists>rb. get_resp j bs =
           Some \<lparr>rs_ServiceMethod = clean j m, rs_Sequence = s, rs_Error = clean j e, rs_Reply = rb\<rparr>)) \<and>
     (\<forall>t bs. put_args j \<lparr>ea_Message = t\<rparr> = Some bs \<longrightarrow> get_args j bs = Some \<lparr>ea_Message = clean j t\<rparr>) \<and>
     (\<forall>t u bs. put_reply j \<lparr>er_Message = t, er_Time = u\<rparr> = Some bs \<longrightarrow>
        get_reply j bs = Some \<lparr>er_Message = clean j t, er_Time = u\<rparr>)"

section \<open>The client\<close>

record SimpleResponse =
  sr_ServiceMethod :: string
  sr_Sequence :: "64 word"
  sr_Error :: string
  sr_Response :: "byte list"

record SimpleCall =
  call_ServiceMethod :: string
  call_Sequence :: "64 word"
  call_Response :: "SimpleResponse option"
  call_Done :: bool
  asked :: string

record SimpleClient =
  connected :: bool
  seq :: "64 word"
  pending :: "(64 word, nat) fmap"
  calls :: "SimpleCall list"

datatype simple_error =
    ArgsMarshal | RequestMarshal | ConnectionClosed | WriteFailed | ContextEnded | RpcError string | CallTimedOut
  | ReplyUnmarshal | InvalidRequest | UnknownMethod string | InvalidArguments | ReplyMarshal | ResponseMarshal

definition NewSimpleClient :: SimpleClient where
  "NewSimpleClient = \<lparr>connected = True, seq = 0, pending = fmempty, calls = []\<rparr>"

definition forget :: "64 word \<Rightarrow> SimpleClient \<Rightarrow> SimpleClient" where
  "forget s c = c\<lparr>pending := fmdrop s (pending c)\<rparr>"

text \<open>The first part of \<^verbatim>\<open>Call\<close>, up to the write: the call that waits, and the bytes to write.\<close>

definition Call_prepare ::
    "simple_json \<Rightarrow> string \<Rightarrow> string \<Rightarrow> SimpleClient \<Rightarrow> SimpleClient \<times> (simple_error, nat \<times> byte list) go" where
  "Call_prepare j serviceMethod message c =
     (let s = seq c + 1;
          a = length (calls c);
          c = c\<lparr>seq := s, pending := fmupd s a (pending c),
                calls := calls c @ [\<lparr>call_ServiceMethod = serviceMethod, call_Sequence = s, call_Response = None,
                                     call_Done = False, asked = message\<rparr>]\<rparr>
      in case put_args j \<lparr>ea_Message = message\<rparr> of
           None \<Rightarrow> (forget s c, Fail ArgsMarshal)
         | Some argsBytes \<Rightarrow>
             (case put_req j \<lparr>rq_ServiceMethod = serviceMethod, rq_Sequence = s, rq_Args = argsBytes\<rparr> of
                None \<Rightarrow> (forget s c, Fail RequestMarshal)
              | Some reqBytes \<Rightarrow>
                  if \<not> connected c then (forget s c, Fail ConnectionClosed) else (c, Ret (a, reqBytes))))"

text \<open>The write, which may fail.\<close>

definition Call_begin ::
    "simple_json \<Rightarrow> bool \<Rightarrow> string \<Rightarrow> string \<Rightarrow> SimpleClient \<Rightarrow>
      SimpleClient \<times> (simple_error, nat \<times> byte list) go" where
  "Call_begin j written serviceMethod message c =
     (let (c, res) = Call_prepare j serviceMethod message c
      in with_recv c res (\<lambda>(a, reqBytes).
           if written then (c, Ret (a, reqBytes)) else (forget (call_Sequence (calls c ! a)) c, Fail WriteFailed)))"

datatype call_event = CtxDone | GotResponse | TimedOut

text \<open>The last part of \<^verbatim>\<open>Call\<close>: the event that ends the wait; \<^term>\<open>None\<close> when it cannot happen yet.\<close>

definition Call_finish ::
    "nat \<Rightarrow> call_event \<Rightarrow> SimpleClient \<Rightarrow> SimpleClient \<times> (simple_error, SimpleResponse) go option" where
  "Call_finish a ev c =
     (case ev of
        CtxDone \<Rightarrow> (forget (call_Sequence (calls c ! a)) c, Some (Fail ContextEnded))
      | TimedOut \<Rightarrow> (forget (call_Sequence (calls c ! a)) c, Some (Fail CallTimedOut))
      | GotResponse \<Rightarrow>
          (case call_Response (calls c ! a) of
             None \<Rightarrow> (c, None)
           | Some resp \<Rightarrow>
               (c\<lparr>calls := (calls c)[a := (calls c ! a)\<lparr>call_Response := None\<rparr>]\<rparr>,
                Some (if sr_Error resp \<noteq> [] then Fail (RpcError (sr_Error resp)) else Ret resp))))"

definition CallEcho_reply ::
    "simple_json \<Rightarrow> (simple_error, SimpleResponse) go \<Rightarrow> (simple_error, string \<times> int) go" where
  "CallEcho_reply j res =
     go_bind res (\<lambda>resp. case get_reply j (sr_Response resp) of
        None \<Rightarrow> Fail ReplyUnmarshal
      | Some reply \<Rightarrow> Ret (er_Message reply, er_Time reply))"

text \<open>The channel of a call holds one response; closing \<^verbatim>\<open>Done\<close> twice would panic.\<close>

definition processResponse :: "simple_json \<Rightarrow> byte list \<Rightarrow> SimpleClient \<Rightarrow> SimpleClient \<times> (simple_error, unit) go" where
  "processResponse j data c =
     (case get_resp j data of
        None \<Rightarrow> (c, Ret ())
      | Some resp \<Rightarrow>
          (case fmlookup (pending c) (rs_Sequence resp) of
             None \<Rightarrow> (c, Ret ())
           | Some a \<Rightarrow>
               let c = forget (rs_Sequence resp) c;
                   call = calls c ! a;
                   simpleResp = \<lparr>sr_ServiceMethod = rs_ServiceMethod resp, sr_Sequence = rs_Sequence resp,
                                 sr_Error = rs_Error resp, sr_Response = rs_Reply resp\<rparr>;
                   call = (if call_Response call = None then call\<lparr>call_Response := Some simpleResp\<rparr> else call)
               in if call_Done call then (c, Panic)
                  else (c\<lparr>calls := (calls c)[a := call\<lparr>call_Done := True\<rparr>]\<rparr>, Ret ())))"

definition read_error :: "SimpleClient \<Rightarrow> SimpleClient" where
  "read_error c = c\<lparr>connected := False\<rparr>"

section \<open>The server\<close>

definition Echo :: "int \<Rightarrow> EchoArgs \<Rightarrow> EchoReply" where
  "Echo now req = \<lparr>er_Message = ea_Message req, er_Time = now\<rparr>"

definition EchoMethod :: string where
  "EchoMethod = ''SimpleEchoService.Echo''"

definition handleRequest :: "simple_json \<Rightarrow> int \<Rightarrow> byte list \<Rightarrow> (simple_error, byte list) go" where
  "handleRequest j now data =
     (case get_req j data of
        None \<Rightarrow> Fail InvalidRequest
      | Some req \<Rightarrow>
          if rq_ServiceMethod req \<noteq> EchoMethod then Fail (UnknownMethod (rq_ServiceMethod req))
          else
            (case get_args j (rq_Args req) of
               None \<Rightarrow> Fail InvalidArguments
             | Some args \<Rightarrow>
                 (case put_reply j (Echo now args) of
                    None \<Rightarrow> Fail ReplyMarshal
                  | Some replyBytes \<Rightarrow>
                      (case put_resp j \<lparr>rs_ServiceMethod = rq_ServiceMethod req, rs_Sequence = rq_Sequence req,
                                        rs_Error = [], rs_Reply = replyBytes\<rparr> of
                         None \<Rightarrow> Fail ResponseMarshal
                       | Some bs \<Rightarrow> Ret bs))))"

text \<open>
  What the goroutine of \<^verbatim>\<open>handleConnection\<close> writes for a packet; \<open>err_text\<close> gives the text of an error. An error response that
  cannot be marshalled writes nothing.
\<close>

definition serve_packet :: "simple_json \<Rightarrow> (simple_error \<Rightarrow> string) \<Rightarrow> int \<Rightarrow> byte list \<Rightarrow> byte list option" where
  "serve_packet j err_text now data =
     (case handleRequest j now data of
        Ret response \<Rightarrow> Some response
      | Fail e \<Rightarrow> put_resp j \<lparr>rs_ServiceMethod = [], rs_Sequence = 0, rs_Error = err_text e, rs_Reply = []\<rparr>
      | Panic \<Rightarrow> None)"

section \<open>The system\<close>

record rpc_system =
  client :: SimpleClient
  to_server :: "byte list list"
  to_client :: "byte list list"

inductive rpc_step :: "simple_json \<Rightarrow> (simple_error \<Rightarrow> string) \<Rightarrow> rpc_system \<Rightarrow> rpc_system \<Rightarrow> bool"
  for j err_text where
  call_sent: "Call_begin j written m msg (client s) = (c, Ret (a, bs)) \<Longrightarrow>
    rpc_step j err_text s (s\<lparr>client := c, to_server := bs # to_server s\<rparr>)"
| call_failed: "Call_begin j written m msg (client s) = (c, Fail e) \<Longrightarrow>
    rpc_step j err_text s (s\<lparr>client := c\<rparr>)"
| served: "bs \<in> set (to_server s) \<Longrightarrow> serve_packet j err_text now bs = Some out \<Longrightarrow>
    rpc_step j err_text s (s\<lparr>to_server := remove1 bs (to_server s), to_client := out # to_client s\<rparr>)"
| dropped: "bs \<in> set (to_server s) \<Longrightarrow> rpc_step j err_text s (s\<lparr>to_server := remove1 bs (to_server s)\<rparr>)"
| received: "bs \<in> set (to_client s) \<Longrightarrow> processResponse j bs (client s) = (c, Ret ()) \<Longrightarrow>
    rpc_step j err_text s (s\<lparr>client := c, to_client := remove1 bs (to_client s)\<rparr>)"
| finished: "a < length (calls (client s)) \<Longrightarrow> Call_finish a ev (client s) = (c, Some res) \<Longrightarrow>
    rpc_step j err_text s (s\<lparr>client := c\<rparr>)"
| broken: "rpc_step j err_text s (s\<lparr>client := read_error (client s)\<rparr>)"

inductive rpc_reach :: "simple_json \<Rightarrow> (simple_error \<Rightarrow> string) \<Rightarrow> rpc_system \<Rightarrow> bool" for j err_text where
  start: "rpc_reach j err_text \<lparr>client = NewSimpleClient, to_server = [], to_client = []\<rparr>"
| step: "rpc_reach j err_text s \<Longrightarrow> rpc_step j err_text s s' \<Longrightarrow> rpc_reach j err_text s'"

section \<open>Answers belong to calls\<close>

definition answers :: "simple_json \<Rightarrow> SimpleCall \<Rightarrow> byte list \<Rightarrow> bool" where
  "answers j call bs \<longleftrightarrow> (\<exists>t. get_reply j bs = Some \<lparr>er_Message = clean j (asked call), er_Time = t\<rparr>)"

definition request_of :: "simple_json \<Rightarrow> SimpleClient \<Rightarrow> byte list \<Rightarrow> bool" where
  "request_of j c bs \<longleftrightarrow> (\<exists>a < length (calls c). \<exists>m ab.
     get_req j bs = Some \<lparr>rq_ServiceMethod = m, rq_Sequence = call_Sequence (calls c ! a), rq_Args = ab\<rparr>
     \<and> get_args j ab = Some \<lparr>ea_Message = clean j (asked (calls c ! a))\<rparr>)"

definition response_to :: "simple_json \<Rightarrow> SimpleClient \<Rightarrow> byte list \<Rightarrow> bool" where
  "response_to j c bs \<longleftrightarrow> (\<exists>resp. get_resp j bs = Some resp \<and> (rs_Sequence resp = 0 \<or>
     (\<exists>a < length (calls c). rs_Sequence resp = call_Sequence (calls c ! a) \<and> rs_Error resp = []
        \<and> answers j (calls c ! a) (rs_Reply resp))))"

definition call_ok :: "simple_json \<Rightarrow> nat \<Rightarrow> SimpleCall \<Rightarrow> bool" where
  "call_ok j a call \<longleftrightarrow> call_Sequence call = of_nat (Suc a)
     \<and> (\<forall>r. call_Response call = Some r \<longrightarrow> sr_Sequence r = call_Sequence call
          \<and> (sr_Error r = [] \<longrightarrow> answers j call (sr_Response r)))"

definition client_ok :: "simple_json \<Rightarrow> SimpleClient \<Rightarrow> bool" where
  "client_ok j c \<longleftrightarrow> seq c = of_nat (length (calls c)) \<and> (\<forall>a < length (calls c). call_ok j a (calls c ! a))
     \<and> (\<forall>s a. fmlookup (pending c) s = Some a \<longrightarrow> a < length (calls c) \<and> call_Sequence (calls c ! a) = s
          \<and> call_Response (calls c ! a) = None \<and> \<not> call_Done (calls c ! a))"

definition system_ok :: "simple_json \<Rightarrow> rpc_system \<Rightarrow> bool" where
  "system_ok j s \<longleftrightarrow> client_ok j (client s) \<and> (\<forall>bs \<in> set (to_server s). request_of j (client s) bs)
     \<and> (\<forall>bs \<in> set (to_client s). response_to j (client s) bs)"

text \<open>What is under way stays right when calls are added or change in their channel only.\<close>

definition extends :: "SimpleClient \<Rightarrow> SimpleClient \<Rightarrow> bool" where
  "extends c c' \<longleftrightarrow> length (calls c) \<le> length (calls c') \<and> (\<forall>a < length (calls c).
     call_Sequence (calls c' ! a) = call_Sequence (calls c ! a) \<and> asked (calls c' ! a) = asked (calls c ! a))"

lemma extends_packets:
  assumes "extends c c'"
  shows "request_of j c bs \<Longrightarrow> request_of j c' bs" and "response_to j c bs \<Longrightarrow> response_to j c' bs"
proof -
  have e: "a < length (calls c')" "call_Sequence (calls c' ! a) = call_Sequence (calls c ! a)"
    "asked (calls c' ! a) = asked (calls c ! a)" if "a < length (calls c)" for a
    using assms that unfolding extends_def by auto
  show "request_of j c' bs" if r: "request_of j c bs"
  proof -
    obtain a where a: "a < length (calls c)" "\<exists>m ab.
        get_req j bs = Some \<lparr>rq_ServiceMethod = m, rq_Sequence = call_Sequence (calls c ! a), rq_Args = ab\<rparr>
        \<and> get_args j ab = Some \<lparr>ea_Message = clean j (asked (calls c ! a))\<rparr>"
      using r unfolding request_of_def by blast
    then show ?thesis unfolding request_of_def by (intro exI [of _ a]) (simp add: e)
  qed
  show "response_to j c' bs" if r: "response_to j c bs"
  proof -
    obtain resp where resp: "get_resp j bs = Some resp" "rs_Sequence resp = 0 \<or>
        (\<exists>a < length (calls c). rs_Sequence resp = call_Sequence (calls c ! a) \<and> rs_Error resp = []
          \<and> answers j (calls c ! a) (rs_Reply resp))"
      using r unfolding response_to_def by blast
    have "rs_Sequence resp = 0 \<or> (\<exists>a < length (calls c'). rs_Sequence resp = call_Sequence (calls c' ! a)
        \<and> rs_Error resp = [] \<and> answers j (calls c' ! a) (rs_Reply resp))"
    proof (cases "rs_Sequence resp = 0")
      case False
      then obtain a where a: "a < length (calls c)" "rs_Sequence resp = call_Sequence (calls c ! a)"
        "rs_Error resp = []" "answers j (calls c ! a) (rs_Reply resp)" using resp(2) by blast
      then show ?thesis by (intro disjI2 exI [of _ a]) (simp add: e answers_def)
    qed simp
    then show ?thesis using resp(1) by (simp add: response_to_def)
  qed
qed

lemma sequence_bound: "Suc a < 2 ^ 64 \<Longrightarrow> unat (of_nat (Suc a) :: 64 word) = Suc a"
  by (simp add: unat_of_nat del: of_nat_Suc)

lemma sequence_eq:
  assumes "client_ok j c" and "length (calls c) < 2 ^ 64" and "a < length (calls c)" and "b < length (calls c)"
    and "call_Sequence (calls c ! a) = call_Sequence (calls c ! b)"
  shows "a = b"
proof -
  have "(of_nat (Suc a) :: 64 word) = of_nat (Suc b)" using assms by (simp add: client_ok_def call_ok_def del: of_nat_Suc)
  then have "unat (of_nat (Suc a) :: 64 word) = unat (of_nat (Suc b) :: 64 word)" by simp
  then show ?thesis using sequence_bound [of a] sequence_bound [of b] assms(2,3,4) by (simp del: of_nat_Suc)
qed

lemma sequence_nonzero:
  assumes "client_ok j c" and "length (calls c) < 2 ^ 64" and "a < length (calls c)"
  shows "call_Sequence (calls c ! a) \<noteq> 0"
proof
  assume "call_Sequence (calls c ! a) = 0"
  then have "(of_nat (Suc a) :: 64 word) = 0" using assms by (simp add: client_ok_def call_ok_def del: of_nat_Suc)
  then have "unat (of_nat (Suc a) :: 64 word) = 0" by simp
  then show False using sequence_bound [of a] assms(2,3) by (simp del: of_nat_Suc)
qed

lemma forget_ok:
  "client_ok j c \<Longrightarrow> client_ok j (forget s c)" "calls (forget s c) = calls c" "seq (forget s c) = seq c"
  "connected (forget s c) = connected c"
  by (auto simp: forget_def client_ok_def split: if_splits)

lemma extends_same: "calls c' = calls c \<Longrightarrow> extends c c'"
  by (simp add: extends_def)

lemmas client_ok_seq = client_ok_def [THEN iffD1, THEN conjunct1]
  and client_ok_call = client_ok_def [THEN iffD1, THEN conjunct2, THEN conjunct1, rule_format]
  and client_ok_pending = client_ok_def [THEN iffD1, THEN conjunct2, THEN conjunct2, rule_format]

text \<open>A new call.\<close>

definition new_call :: "string \<Rightarrow> string \<Rightarrow> SimpleClient \<Rightarrow> SimpleClient" where
  "new_call m msg c = c\<lparr>seq := seq c + 1, pending := fmupd (seq c + 1) (length (calls c)) (pending c),
     calls := calls c @ [\<lparr>call_ServiceMethod = m, call_Sequence = seq c + 1, call_Response = None,
       call_Done = False, asked = msg\<rparr>]\<rparr>"

lemma new_call_ok:
  assumes "client_ok j c"
  shows "client_ok j (new_call m msg c)" and "extends c (new_call m msg c)"
proof -
  show "extends c (new_call m msg c)" by (simp add: extends_def new_call_def nth_append)
  note n = client_ok_seq [OF assms]
  show "client_ok j (new_call m msg c)" unfolding client_ok_def
  proof (intro conjI allI impI)
    show "seq (new_call m msg c) = of_nat (length (calls (new_call m msg c)))"
      using n by (simp add: new_call_def)
  next
    fix a assume "a < length (calls (new_call m msg c))"
    then consider "a = length (calls c)" | "a < length (calls c)" by (auto simp: new_call_def less_Suc_eq)
    then show "call_ok j a (calls (new_call m msg c) ! a)"
    proof cases
      case 1
      show ?thesis using n unfolding 1 by (simp add: new_call_def call_ok_def)
    next
      case 2
      then show ?thesis using client_ok_call [OF assms 2] by (simp add: new_call_def nth_append)
    qed
  next
    fix s a assume p: "fmlookup (pending (new_call m msg c)) s = Some a"
    show "a < length (calls (new_call m msg c))" "call_Sequence (calls (new_call m msg c) ! a) = s"
      "call_Response (calls (new_call m msg c) ! a) = None" "\<not> call_Done (calls (new_call m msg c) ! a)"
    proof -
      have p: "fmlookup (fmupd (seq c + 1) (length (calls c)) (pending c)) s = Some a"
        using p by (simp add: new_call_def)
      have "a < length (calls (new_call m msg c)) \<and> call_Sequence (calls (new_call m msg c) ! a) = s
        \<and> call_Response (calls (new_call m msg c) ! a) = None \<and> \<not> call_Done (calls (new_call m msg c) ! a)"
      proof (cases "s = seq c + 1")
        case True
        then have "a = length (calls c)" using p by simp
        then show ?thesis unfolding True by (simp add: new_call_def)
      next
        case False
        then have "fmlookup (pending c) s = Some a" using p by simp
        from client_ok_pending [OF assms this] show ?thesis by (simp add: new_call_def nth_append)
      qed
      then show "a < length (calls (new_call m msg c))" "call_Sequence (calls (new_call m msg c) ! a) = s"
        "call_Response (calls (new_call m msg c) ! a) = None" "\<not> call_Done (calls (new_call m msg c) ! a)" by auto
    qed
  qed
qed

lemma Call_begin_ok:
  assumes ok: "client_ok j c" and json: "simple_json_ok j" and step: "Call_begin j written m msg c = (c', res)"
  shows "client_ok j c' \<and> extends c c' \<and> length (calls c') = Suc (length (calls c))
    \<and> (\<forall>a bs. res = Ret (a, bs) \<longrightarrow> request_of j c' bs)"
proof -
  let ?n = "new_call m msg c"
  have n: "client_ok j ?n" "extends c ?n" "length (calls ?n) = Suc (length (calls c))"
    using new_call_ok [OF ok] by (simp_all add: new_call_def)
  have c': "c' = ?n \<or> (\<exists>s. c' = forget s ?n)"
    using step by (auto simp: Call_begin_def Call_prepare_def new_call_def Let_def split: option.splits if_splits)
  have "request_of j c' bs" if r: "res = Ret (a, bs)" for a bs
  proof -
    obtain ab where ab: "put_args j \<lparr>ea_Message = msg\<rparr> = Some ab"
      "put_req j \<lparr>rq_ServiceMethod = m, rq_Sequence = seq c + 1, rq_Args = ab\<rparr> = Some bs" "c' = ?n"
      using step r by (auto simp: Call_begin_def Call_prepare_def new_call_def Let_def split: option.splits if_splits)
    then have "get_args j ab = Some \<lparr>ea_Message = clean j msg\<rparr>"
      "get_req j bs = Some \<lparr>rq_ServiceMethod = clean j m, rq_Sequence = seq c + 1, rq_Args = ab\<rparr>"
      using json unfolding simple_json_ok_def by blast+
    then show ?thesis unfolding request_of_def ab(3)
      by (intro exI [of _ "length (calls c)"]) (simp add: new_call_def)
  qed
  then show ?thesis using c' n forget_ok by (auto simp: extends_def)
qed

lemma nil_reply:
  assumes "simple_json_ok j" and "put_resp j \<lparr>rs_ServiceMethod = m, rs_Sequence = s, rs_Error = e, rs_Reply = []\<rparr> = Some bs"
  shows "\<exists>rb. get_resp j bs = Some \<lparr>rs_ServiceMethod = clean j m, rs_Sequence = s, rs_Error = clean j e, rs_Reply = rb\<rparr>"
  using assms by (simp add: simple_json_ok_def)

lemma serve_packet_response:
  assumes json: "simple_json_ok j" and req: "request_of j c bs" and out: "serve_packet j err_text now bs = Some out"
  shows "response_to j c out"
proof -
  obtain a m ab where a: "a < length (calls c)"
    "get_req j bs = Some \<lparr>rq_ServiceMethod = m, rq_Sequence = call_Sequence (calls c ! a), rq_Args = ab\<rparr>"
    "get_args j ab = Some \<lparr>ea_Message = clean j (asked (calls c ! a))\<rparr>"
    using req by (auto simp: request_of_def)
  show ?thesis
  proof (cases "handleRequest j now bs")
    case (Ret r)
    then obtain rb where rb: "put_reply j \<lparr>er_Message = clean j (asked (calls c ! a)), er_Time = now\<rparr> = Some rb"
      "put_resp j \<lparr>rs_ServiceMethod = m, rs_Sequence = call_Sequence (calls c ! a), rs_Error = [], rs_Reply = rb\<rparr> = Some r"
      using a by (auto simp: handleRequest_def Echo_def split: if_splits option.splits)
    have "out = r" using out Ret by (simp add: serve_packet_def)
    moreover have "clean j [] = []" "clean j (clean j t) = clean j t" for t
      using json by (simp_all add: simple_json_ok_def)
    moreover have "get_resp j r = Some \<lparr>rs_ServiceMethod = clean j m, rs_Sequence = call_Sequence (calls c ! a),
        rs_Error = clean j [], rs_Reply = rb\<rparr>"
      "get_reply j rb = Some \<lparr>er_Message = clean j (clean j (asked (calls c ! a))), er_Time = now\<rparr>"
      using rb json unfolding simple_json_ok_def by blast+
    ultimately show ?thesis using a(1) by (auto simp: response_to_def answers_def)
  next
    case (Fail e)
    then have "put_resp j \<lparr>rs_ServiceMethod = [], rs_Sequence = 0, rs_Error = err_text e, rs_Reply = []\<rparr> = Some out"
      using out by (simp add: serve_packet_def)
    then obtain rb where "get_resp j out =
        Some \<lparr>rs_ServiceMethod = clean j [], rs_Sequence = 0, rs_Error = clean j (err_text e), rs_Reply = rb\<rparr>"
      using nil_reply [OF json] by blast
    then show ?thesis by (simp add: response_to_def)
  next
    case Panic
    then show ?thesis using out by (simp add: serve_packet_def)
  qed
qed

text \<open>A response reaches the call with its number, which has none yet.\<close>

lemma processResponse_ok:
  assumes ok: "client_ok j c" and bound: "length (calls c) < 2 ^ 64" and resp: "response_to j c bs"
    and step: "processResponse j bs c = (c', res)"
  shows "client_ok j c' \<and> extends c c' \<and> length (calls c') = length (calls c) \<and> res = Ret ()"
proof -
  obtain r where r: "get_resp j bs = Some r" using resp by (auto simp: response_to_def)
  show ?thesis
  proof (cases "fmlookup (pending c) (rs_Sequence r)")
    case None
    then show ?thesis using step r ok by (simp add: processResponse_def extends_same)
  next
    case (Some a)
    then have a: "a < length (calls c)" "call_Sequence (calls c ! a) = rs_Sequence r"
      "call_Response (calls c ! a) = None" "\<not> call_Done (calls c ! a)"
      using client_ok_pending [OF ok] by blast+
    have "rs_Sequence r \<noteq> 0" using sequence_nonzero [OF ok bound a(1)] a(2) by simp
    then obtain b where b: "b < length (calls c)" "rs_Sequence r = call_Sequence (calls c ! b)" "rs_Error r = []"
      "answers j (calls c ! b) (rs_Reply r)"
      using resp r by (auto simp: response_to_def)
    have "b = a" using sequence_eq [OF ok bound b(1) a(1)] b(2) a(2) by simp
    define call where "call = (calls c ! a)\<lparr>call_Response := Some \<lparr>sr_ServiceMethod = rs_ServiceMethod r,
      sr_Sequence = rs_Sequence r, sr_Error = rs_Error r, sr_Response = rs_Reply r\<rparr>, call_Done := True\<rparr>"
    have c': "c' = (forget (rs_Sequence r) c)\<lparr>calls := (calls c)[a := call]\<rparr>" "res = Ret ()"
      using step r Some a by (simp_all add: processResponse_def forget_def call_def Let_def)
    note old = client_ok_call [OF ok]
    have "call_ok j a call"
      using old [OF a(1)] a(2) b(3,4) \<open>b = a\<close> by (simp add: call_ok_def call_def answers_def)
    then have "call_ok j i (calls c' ! i)" if "i < length (calls c)" for i
      using old [OF that] that a(1) by (cases "i = a") (simp_all add: c'(1))
    moreover have "i < length (calls c) \<and> call_Sequence (calls c' ! i) = s \<and> call_Response (calls c' ! i) = None
        \<and> \<not> call_Done (calls c' ! i)" if p: "fmlookup (pending c') s = Some i" for s i
    proof -
      have q: "fmlookup (pending c) s = Some i" "s \<noteq> rs_Sequence r"
        using p by (auto simp: c'(1) forget_def split: if_splits)
      note i = client_ok_pending [OF ok q(1)]
      have "i \<noteq> a" using i q(2) a(2) by auto
      then show ?thesis using i by (simp add: c'(1))
    qed
    moreover have "seq c' = of_nat (length (calls c'))" "length (calls c') = length (calls c)"
      using client_ok_seq [OF ok] by (simp_all add: c'(1) forget_def)
    moreover have "extends c c'" using a(1) by (auto simp: extends_def c'(1) call_def nth_list_update)
    ultimately show ?thesis using c'(2) by (simp add: client_ok_def)
  qed
qed

lemma Call_finish_ok:
  assumes ok: "client_ok j c" and a: "a < length (calls c)" and step: "Call_finish a ev c = (c', res)"
  shows "client_ok j c' \<and> extends c c' \<and> length (calls c') = length (calls c)"
proof (cases "ev = GotResponse \<and> call_Response (calls c ! a) \<noteq> None")
  case False
  then have "c' = c \<or> c' = forget (call_Sequence (calls c ! a)) c"
    using step by (cases ev) (auto simp: Call_finish_def)
  then show ?thesis using ok forget_ok by (auto simp: extends_def)
next
  case True
  let ?call = "(calls c ! a)\<lparr>call_Response := None\<rparr>"
  have c': "c' = c\<lparr>calls := (calls c)[a := ?call]\<rparr>" using step True by (auto simp: Call_finish_def)
  have "call_ok j i (calls c' ! i)" if "i < length (calls c)" for i
    using client_ok_call [OF ok that] that a by (cases "i = a") (simp_all add: c' call_ok_def)
  moreover have "i < length (calls c) \<and> call_Sequence (calls c' ! i) = s \<and> call_Response (calls c' ! i) = None
        \<and> \<not> call_Done (calls c' ! i)" if p: "fmlookup (pending c') s = Some i" for s i
  proof -
    show ?thesis using client_ok_pending [OF ok, of s i] p by (cases "i = a") (simp_all add: c')
  qed
  moreover have "extends c c'" using a by (auto simp: extends_def c' nth_list_update)
  ultimately show ?thesis using client_ok_seq [OF ok] by (simp add: client_ok_def c')
qed

lemma rpc_step_ok:
  assumes "simple_json_ok j"
  shows "rpc_step j err_text s s' \<Longrightarrow> length (calls (client s')) < 2 ^ 64 \<Longrightarrow> system_ok j s \<Longrightarrow>
    system_ok j s'"
proof (induction rule: rpc_step.induct)
  case (call_sent written m msg s c a bs)
  have ok: "client_ok j (client s)" using call_sent by (simp add: system_ok_def)
  note e = Call_begin_ok [OF ok assms call_sent(1)]
  show ?case using call_sent(3) e extends_packets [of "client s" c j] by (auto simp: system_ok_def)
next
  case (call_failed written m msg s c e)
  have ok: "client_ok j (client s)" using call_failed by (simp add: system_ok_def)
  note e = Call_begin_ok [OF ok assms call_failed(1)]
  show ?case using call_failed(3) e extends_packets [of "client s" c j] by (auto simp: system_ok_def)
next
  case (served bs s now out)
  then have "response_to j (client s) out"
    using serve_packet_response [OF assms] by (auto simp: system_ok_def)
  then show ?case using served by (auto simp: system_ok_def dest: set_remove1_subset [THEN subsetD])
next
  case (dropped bs s)
  then show ?case by (auto simp: system_ok_def dest: set_remove1_subset [THEN subsetD])
next
  case (received bs s c)
  have ok: "client_ok j (client s)" "response_to j (client s) bs" using received by (auto simp: system_ok_def)
  have len: "length (calls c) < 2 ^ 64" using received(3) by simp
  have "length (calls c) = length (calls (client s))"
    using received(2) by (auto simp: processResponse_def forget_def Let_def split: option.splits if_splits)
  then have "length (calls (client s)) < 2 ^ 64" using len by simp
  note e = processResponse_ok [OF ok(1) this ok(2) received(2)]
  show ?case using received(4) e extends_packets [of "client s" c j]
    by (auto simp: system_ok_def dest: set_remove1_subset [THEN subsetD])
next
  case (finished a s ev c res)
  have ok: "client_ok j (client s)" using finished by (simp add: system_ok_def)
  note e = Call_finish_ok [OF ok finished(1,2)]
  show ?case using finished(4) e extends_packets [of "client s" c j] by (auto simp: system_ok_def)
next
  case (broken s)
  then show ?case by (simp add: system_ok_def read_error_def client_ok_def request_of_def response_to_def)
qed

lemma calls_grow:
  "rpc_step j err_text s s' \<Longrightarrow> length (calls (client s)) \<le> length (calls (client s'))"
proof (induction rule: rpc_step.induct)
  case (call_sent written m msg s c a bs)
  then show ?case by (auto simp: Call_begin_def Call_prepare_def Let_def forget_ok split: option.splits if_splits)
next
  case (call_failed written m msg s c e)
  then show ?case by (auto simp: Call_begin_def Call_prepare_def Let_def forget_ok split: option.splits if_splits)
next
  case (received bs s c)
  then show ?case by (auto simp: processResponse_def Let_def forget_ok split: option.splits if_splits)
next
  case (finished a s ev c res)
  then show ?case by (auto simp: Call_finish_def forget_ok split: option.splits call_event.splits)
qed (simp_all add: read_error_def)

lemma rpc_reach_ok:
  assumes "simple_json_ok j"
  shows "rpc_reach j err_text s \<Longrightarrow> length (calls (client s)) < 2 ^ 64 \<Longrightarrow> system_ok j s"
proof (induction rule: rpc_reach.induct)
  case start
  then show ?case by (simp add: system_ok_def client_ok_def NewSimpleClient_def)
next
  case (step s s')
  then show ?case using rpc_step_ok [OF assms step.hyps(2) step.prems] calls_grow [OF step.hyps(2)] by simp
qed

lemma reach_client:
  assumes "simple_json_ok j" and "rpc_reach j err_text s" and "length (calls (client s)) < 2 ^ 64"
  shows "client_ok j (client s)"
  using rpc_reach_ok [OF assms] by (simp add: system_ok_def)

text \<open>
  The answer to a request that the server cannot handle carries the number 0, which no call has: it reaches no call,
  and the caller learns of the error by its timeout only.
\<close>

lemma error_answer_ignored:
  assumes "simple_json_ok j" and "rpc_reach j err_text s" and "length (calls (client s)) < 2 ^ 64"
    and "handleRequest j now bs = Fail e" and "serve_packet j err_text now bs = Some out"
  shows "processResponse j out (client s) = (client s, Ret ())"
proof -
  note ok = reach_client [OF assms(1-3)]
  have "fmlookup (pending (client s)) 0 = None"
  proof (rule ccontr)
    assume "\<not> ?thesis"
    then obtain a where "fmlookup (pending (client s)) 0 = Some a" by auto
    from client_ok_pending [OF ok this] sequence_nonzero [OF ok assms(3), of a] show False by simp
  qed
  moreover have "put_resp j \<lparr>rs_ServiceMethod = [], rs_Sequence = 0, rs_Error = err_text e, rs_Reply = []\<rparr> = Some out"
    using assms(4,5) by (simp add: serve_packet_def)
  note nil_reply [OF assms(1) this]
  ultimately show ?thesis by (auto simp: processResponse_def)
qed

section \<open>The property\<close>

text \<open>C16: However the goroutines of the client and the server interleave, with up to 2 ^ 64 - 1 calls, an echo call that
  gets a response gets the one to its own request: the message it sent (its invalid UTF-8 replaced) under its own
  sequence number; and no packet under way makes the client close a call's channel twice.\<close>

theorem call_gets_own_answer:
  assumes "simple_json_ok j" and "rpc_reach j err_text s" and "length (calls (client s)) < 2 ^ 64"
  shows "(\<forall>a < length (calls (client s)). \<forall>c' resp.
      Call_finish a GotResponse (client s) = (c', Some (Ret resp)) \<longrightarrow>
      sr_Sequence resp = call_Sequence (calls (client s) ! a) \<and>
      (\<exists>t. CallEcho_reply j (Ret resp) = Ret (clean j (asked (calls (client s) ! a)), t)))
    \<and> (\<forall>bs \<in> set (to_client s). snd (processResponse j bs (client s)) = Ret ())"
proof (intro conjI allI impI ballI)
  note ok = reach_client [OF assms]
  fix a c' resp
  assume a: "a < length (calls (client s))" and f: "Call_finish a GotResponse (client s) = (c', Some (Ret resp))"
  then have "call_Response (calls (client s) ! a) = Some resp" "sr_Error resp = []"
    by (auto simp: Call_finish_def split: option.splits if_splits)
  with client_ok_call [OF ok a] have r: "sr_Sequence resp = call_Sequence (calls (client s) ! a)"
    "answers j (calls (client s) ! a) (sr_Response resp)" by (simp_all add: call_ok_def)
  then show "sr_Sequence resp = call_Sequence (calls (client s) ! a)"
    "\<exists>t. CallEcho_reply j (Ret resp) = Ret (clean j (asked (calls (client s) ! a)), t)"
    by (auto simp: CallEcho_reply_def answers_def)
next
  fix bs assume "bs \<in> set (to_client s)"
  then have "response_to j (client s) bs" using rpc_reach_ok [OF assms] by (simp add: system_ok_def)
  then show "snd (processResponse j bs (client s)) = Ret ()"
    using processResponse_ok [OF reach_client [OF assms] assms(3)] by (metis prod.collapse)
qed

text \<open>An encoding for one echo call of the message \<open>hi\<close>, and the state after its response.\<close>

definition one_json :: simple_json where
  "one_json = \<lparr>clean = (\<lambda>t. t),
     put_req = (\<lambda>x. if rq_ServiceMethod x = EchoMethod \<and> rq_Sequence x = 1 then Some (rq_Args x) else None),
     get_req = (\<lambda>bs. Some \<lparr>rq_ServiceMethod = EchoMethod, rq_Sequence = 1, rq_Args = bs\<rparr>),
     put_resp = (\<lambda>x. if rs_ServiceMethod x = EchoMethod \<and> rs_Sequence x = 1 \<and> rs_Error x = []
                      then Some (rs_Reply x) else None),
     get_resp = (\<lambda>bs. Some \<lparr>rs_ServiceMethod = EchoMethod, rs_Sequence = 1, rs_Error = [], rs_Reply = bs\<rparr>),
     put_args = (\<lambda>x. if ea_Message x = ''hi'' then Some [104, 105] else None),
     get_args = (\<lambda>bs. Some \<lparr>ea_Message = ''hi''\<rparr>),
     put_reply = (\<lambda>x. if x = \<lparr>er_Message = ''hi'', er_Time = 7\<rparr> then Some [104, 105, 7] else None),
     get_reply = (\<lambda>bs. Some \<lparr>er_Message = ''hi'', er_Time = 7\<rparr>)\<rparr>"

definition answered :: rpc_system where
  "answered = \<lparr>client = \<lparr>connected = True, seq = 1, pending = fmdrop 1 (fmupd 1 0 fmempty),
     calls = [\<lparr>call_ServiceMethod = EchoMethod, call_Sequence = 1,
       call_Response = Some \<lparr>sr_ServiceMethod = EchoMethod, sr_Sequence = 1, sr_Error = [],
         sr_Response = [104, 105, 7]\<rparr>, call_Done = True, asked = ''hi''\<rparr>]\<rparr>,
     to_server = [], to_client = []\<rparr>"

lemma one_json_ok: "simple_json_ok one_json"
  by (auto simp: simple_json_ok_def one_json_def split: if_splits)

lemma answered_reach: "rpc_reach one_json (\<lambda>_. ''error'') answered"
proof -
  let ?E = "\<lambda>_ :: simple_error. ''error''"
  define s0 where "s0 = \<lparr>client = NewSimpleClient, to_server = [], to_client = []\<rparr>"
  define c where "c = \<lparr>connected = True, seq = 1, pending = fmupd 1 0 fmempty,
     calls = [\<lparr>call_ServiceMethod = EchoMethod, call_Sequence = 1, call_Response = None, call_Done = False,
       asked = ''hi''\<rparr>]\<rparr>"
  have "rpc_reach one_json ?E s0" unfolding s0_def by (rule rpc_reach.start)
  moreover have "Call_begin one_json True EchoMethod ''hi'' (client s0) = (c, Ret (0, [104, 105]))"
    by (simp add: Call_begin_def Call_prepare_def s0_def NewSimpleClient_def one_json_def c_def)
  note call_sent [OF this, of ?E]
  ultimately have "rpc_reach one_json ?E (s0\<lparr>client := c, to_server := [[104, 105]]\<rparr>)"
    by (auto simp: s0_def intro: rpc_reach.step)
  moreover have "serve_packet one_json ?E 7 [104, 105] = Some [104, 105, 7]"
    by (simp add: serve_packet_def handleRequest_def one_json_def Echo_def)
  note served [OF _ this, of "s0\<lparr>client := c, to_server := [[104, 105]]\<rparr>"]
  ultimately have "rpc_reach one_json ?E (s0\<lparr>client := c, to_client := [[104, 105, 7]]\<rparr>)"
    by (auto simp: s0_def intro: rpc_reach.step)
  moreover have "processResponse one_json [104, 105, 7] c = (client answered, Ret ())"
    by (simp add: processResponse_def one_json_def c_def answered_def forget_def)
  then have "rpc_step one_json ?E (s0\<lparr>client := c, to_client := [[104, 105, 7]]\<rparr>) answered"
    using received [of "[104, 105, 7]" "s0\<lparr>client := c, to_client := [[104, 105, 7]]\<rparr>" one_json]
    by (simp add: s0_def answered_def)
  ultimately show ?thesis by (rule rpc_reach.step)
qed

theorem call_gets_own_answer_witness:
  "simple_json_ok one_json \<and> rpc_reach one_json (\<lambda>_. ''error'') answered \<and>
   (\<exists>resp. snd (Call_finish 0 GotResponse (client answered)) = Some (Ret resp) \<and>
     sr_Sequence resp = 1 \<and> (\<exists>t. CallEcho_reply one_json (Ret resp) = Ret (''hi'', t)))"
proof -
  have len: "length (calls (client answered)) < 2 ^ 64" by (simp add: answered_def)
  obtain c' resp where f: "Call_finish 0 GotResponse (client answered) = (c', Some (Ret resp))"
    by (simp add: Call_finish_def answered_def)
  have "0 < length (calls (client answered))" "asked (calls (client answered) ! 0) = ''hi''"
    "call_Sequence (calls (client answered) ! 0) = 1" "clean one_json = (\<lambda>t. t)"
    by (simp_all add: answered_def one_json_def)
  moreover note conjunct1 [OF call_gets_own_answer [OF one_json_ok answered_reach len], rule_format, OF _ f]
  ultimately show ?thesis using f one_json_ok answered_reach by simp
qed

end
