(* ===== verification/Redis_PubSub.thy ===== *)
theory Redis_PubSub
  imports Go_Prelude "HOL-Library.Finite_Map"
begin

text \<open>
  The publish/subscribe service of \<^verbatim>\<open>src/pkg/redis/pubsub.go\<close>. Handler functions are numbers; a handler that is
  started is recorded in the field \<open>started\<close>, and \<open>loops\<close> holds the position of every goroutine that
  \<^verbatim>\<open>startMessageLoop\<close> started, neither of which is in the code. The Redis client and its \<^verbatim>\<open>PubSub\<close> object are
  parameters. The methods hold the lock of the service throughout, so one method is one step; the goroutine of the
  message loop takes a step for its \<^verbatim>\<open>select\<close>, for reading the field \<^verbatim>\<open>pubsub\<close>, and for handling
  what \<^verbatim>\<open>ReceiveMessage\<close> returned.
\<close>

section \<open>The Redis client\<close>

datatype client_kind = SingleClient | ClusterClient | OtherClient

record 'p pubsub_client =
  pc_kind :: client_kind
  pc_ping :: bool
  pc_new :: 'p
  pc_subscribe :: "string list \<Rightarrow> 'p \<Rightarrow> 'p \<times> bool"
  pc_unsubscribe :: "string list \<Rightarrow> 'p \<Rightarrow> 'p \<times> bool"
  pc_psubscribe :: "string list \<Rightarrow> 'p \<Rightarrow> 'p \<times> bool"
  pc_punsubscribe :: "string list \<Rightarrow> 'p \<Rightarrow> 'p \<times> bool"
  pc_close :: "'p \<Rightarrow> bool"
  pc_publish :: "string \<Rightarrow> string \<Rightarrow> int option"
  pc_numsub :: "string \<Rightarrow> (string, int) fmap option"
  pc_channels :: "'p \<Rightarrow> string list"
  pc_patterns :: "'p \<Rightarrow> string list"

text \<open>
  What Redis does with an accepted command: \<^verbatim>\<open>SUBSCRIBE\<close> and \<^verbatim>\<open>PSUBSCRIBE\<close> add to the subscriptions of the
  connection, \<^verbatim>\<open>UNSUBSCRIBE\<close> and \<^verbatim>\<open>PUNSUBSCRIBE\<close> remove the named ones, and all when none is named.
\<close>

definition pubsub_client_ok :: "'p pubsub_client \<Rightarrow> bool" where
  "pubsub_client_ok pc \<longleftrightarrow>
     pc_channels pc (pc_new pc) = [] \<and> pc_patterns pc (pc_new pc) = [] \<and>
     (\<forall>p. distinct (pc_channels pc p) \<and> distinct (pc_patterns pc p)) \<and>
     (\<forall>cs p p'. pc_subscribe pc cs p = (p', True) \<longrightarrow>
        set (pc_channels pc p') = set (pc_channels pc p) \<union> set cs \<and> pc_patterns pc p' = pc_patterns pc p) \<and>
     (\<forall>cs p p'. pc_unsubscribe pc cs p = (p', True) \<longrightarrow>
        set (pc_channels pc p') = (if cs = [] then {} else set (pc_channels pc p) - set cs)
        \<and> pc_patterns pc p' = pc_patterns pc p) \<and>
     (\<forall>cs p p'. pc_psubscribe pc cs p = (p', True) \<longrightarrow>
        set (pc_patterns pc p') = set (pc_patterns pc p) \<union> set cs \<and> pc_channels pc p' = pc_channels pc p) \<and>
     (\<forall>cs p p'. pc_punsubscribe pc cs p = (p', True) \<longrightarrow>
        set (pc_patterns pc p') = (if cs = [] then {} else set (pc_patterns pc p) - set cs)
        \<and> pc_channels pc p' = pc_channels pc p)"

record redis_message =
  m_Channel :: string
  m_Pattern :: string
  m_Payload :: string

text \<open>
  The messages that a connection gets for one published message: one for the channel if it is subscribed to, and
  one for every pattern it is subscribed to that the channel matches.
\<close>

definition deliveries ::
    "'p pubsub_client \<Rightarrow> (string \<Rightarrow> string \<Rightarrow> bool) \<Rightarrow> 'p \<Rightarrow> string \<Rightarrow> string \<Rightarrow> redis_message list" where
  "deliveries pc matches p channel payload =
     (if channel \<in> set (pc_channels pc p)
      then [\<lparr>m_Channel = channel, m_Pattern = [], m_Payload = payload\<rparr>] else []) @
     map (\<lambda>pt. \<lparr>m_Channel = channel, m_Pattern = pt, m_Payload = payload\<rparr>)
       (filter (\<lambda>pt. matches pt channel) (pc_patterns pc p))"

section \<open>The service\<close>

datatype loop_at = AtSelect | AtReceive | Receiving | LoopEnded

type_synonym handler_table = "(string, nat list) fmap"

record 'p RedisPubSub =
  pubsub :: "'p option"
  handlers :: handler_table
  patternHandlers :: handler_table
  activeChannels :: "string list"
  isRunning :: bool
  stopChan_closed :: bool
  loops :: "loop_at list"
  started :: "(nat \<times> string \<times> string) list"

datatype pubsub_error =
    PoolMissing | PingFailed | PublishFailed | NoChannels | NilHandler | UnsupportedClient | SubscribeFailed
  | NotInitialised | UnsubscribeFailed | NumSubFailed | CloseFailed

text \<open>The pool is nil or gives a client.\<close>

definition NewPubSub :: "'p pubsub_client option \<Rightarrow> (pubsub_error, 'p RedisPubSub) go" where
  "NewPubSub pool =
     (case pool of
        None \<Rightarrow> Fail PoolMissing
      | Some pc \<Rightarrow>
          let ps = \<lparr>pubsub = None, handlers = fmempty, patternHandlers = fmempty, activeChannels = [],
                    isRunning = False, stopChan_closed = False, loops = [], started = []\<rparr>
          in if \<not> pc_ping pc then Fail PingFailed else Ret ps)"

datatype publish_value = StringValue string | BytesValue "byte list" | OtherValue string

text \<open>Any other value is given by what \<^verbatim>\<open>fmt.Sprintf\<close> prints for it. The result is the text that was published.\<close>

definition Publish :: "'p pubsub_client \<Rightarrow> string \<Rightarrow> publish_value \<Rightarrow> (pubsub_error, string) go" where
  "Publish pc channel message =
     (let msgStr = (case message of
                      StringValue msg \<Rightarrow> msg
                    | BytesValue msg \<Rightarrow> string_of msg
                    | OtherValue printed \<Rightarrow> printed)
      in case pc_publish pc channel msgStr of None \<Rightarrow> Fail PublishFailed | Some _ \<Rightarrow> Ret msgStr)"

definition startMessageLoop :: "'p RedisPubSub \<Rightarrow> 'p RedisPubSub" where
  "startMessageLoop ps =
     (if isRunning ps then ps else ps\<lparr>isRunning := True, loops := loops ps @ [AtSelect]\<rparr>)"

text \<open>The object of the service, created on first use.\<close>

definition ensure_pubsub :: "'p pubsub_client \<Rightarrow> 'p RedisPubSub \<Rightarrow> (pubsub_error, 'p RedisPubSub \<times> 'p) go" where
  "ensure_pubsub pc ps =
     (case pubsub ps of
        Some p \<Rightarrow> Ret (ps, p)
      | None \<Rightarrow>
          (case pc_kind pc of
             OtherClient \<Rightarrow> Fail UnsupportedClient
           | _ \<Rightarrow> Ret (startMessageLoop (ps\<lparr>pubsub := Some (pc_new pc)\<rparr>), pc_new pc)))"

definition table_get :: "handler_table \<Rightarrow> string \<Rightarrow> nat list" where
  "table_get t k = (case fmlookup t k of None \<Rightarrow> [] | Some hs \<Rightarrow> hs)"

fun add_handler :: "nat \<Rightarrow> string list \<Rightarrow> handler_table \<Rightarrow> handler_table" where
  "add_handler h [] t = t"
| "add_handler h (k # ks) t = add_handler h ks (fmupd k (table_get t k @ [h]) t)"

definition drop_all :: "string list \<Rightarrow> handler_table \<Rightarrow> handler_table" where
  "drop_all ks t = foldl (\<lambda>t k. fmdrop k t) t ks"

definition add_channels :: "string list \<Rightarrow> string list \<Rightarrow> string list" where
  "add_channels cs active = foldl (\<lambda>a c. List.insert c a) active cs"

definition drop_channels :: "string list \<Rightarrow> string list \<Rightarrow> string list" where
  "drop_channels cs active = foldl (\<lambda>a c. remove1 c a) active cs"

definition Subscribe ::
    "'p pubsub_client \<Rightarrow> nat option \<Rightarrow> string list \<Rightarrow> 'p RedisPubSub \<Rightarrow> 'p RedisPubSub \<times> (pubsub_error, unit) go" where
  "Subscribe pc handler channels ps =
     (if channels = [] then (ps, Fail NoChannels)
      else
        case handler of
          None \<Rightarrow> (ps, Fail NilHandler)
        | Some h \<Rightarrow>
            with_recv ps (ensure_pubsub pc ps) (\<lambda>(ps, p).
              let ps = ps\<lparr>handlers := add_handler h channels (handlers ps),
                          activeChannels := add_channels channels (activeChannels ps)\<rparr>;
                  (p, ok) = pc_subscribe pc channels p;
                  ps = ps\<lparr>pubsub := Some p\<rparr>
              in if \<not> ok then (ps, Fail SubscribeFailed) else (ps, Ret ())))"

definition Unsubscribe ::
    "'p pubsub_client \<Rightarrow> string list \<Rightarrow> 'p RedisPubSub \<Rightarrow> 'p RedisPubSub \<times> (pubsub_error, unit) go" where
  "Unsubscribe pc channels ps =
     (case pubsub ps of
        None \<Rightarrow> (ps, Fail NotInitialised)
      | Some p \<Rightarrow>
          let (p, ok) = pc_unsubscribe pc channels p;
              ps = ps\<lparr>pubsub := Some p\<rparr>
          in if \<not> ok then (ps, Fail UnsubscribeFailed)
             else (ps\<lparr>handlers := drop_all channels (handlers ps),
                      activeChannels := drop_channels channels (activeChannels ps)\<rparr>, Ret ()))"

definition PSubscribe ::
    "'p pubsub_client \<Rightarrow> nat option \<Rightarrow> string list \<Rightarrow> 'p RedisPubSub \<Rightarrow> 'p RedisPubSub \<times> (pubsub_error, unit) go" where
  "PSubscribe pc handler patterns ps =
     (if patterns = [] then (ps, Fail NoChannels)
      else
        case handler of
          None \<Rightarrow> (ps, Fail NilHandler)
        | Some h \<Rightarrow>
            with_recv ps (ensure_pubsub pc ps) (\<lambda>(ps, p).
              let ps = ps\<lparr>patternHandlers := add_handler h patterns (patternHandlers ps)\<rparr>;
                  (p, ok) = pc_psubscribe pc patterns p;
                  ps = ps\<lparr>pubsub := Some p\<rparr>
              in if \<not> ok then (ps, Fail SubscribeFailed) else (ps, Ret ())))"

definition PUnsubscribe ::
    "'p pubsub_client \<Rightarrow> string list \<Rightarrow> 'p RedisPubSub \<Rightarrow> 'p RedisPubSub \<times> (pubsub_error, unit) go" where
  "PUnsubscribe pc patterns ps =
     (case pubsub ps of
        None \<Rightarrow> (ps, Fail NotInitialised)
      | Some p \<Rightarrow>
          let (p, ok) = pc_punsubscribe pc patterns p;
              ps = ps\<lparr>pubsub := Some p\<rparr>
          in if \<not> ok then (ps, Fail UnsubscribeFailed)
             else (ps\<lparr>patternHandlers := drop_all patterns (patternHandlers ps)\<rparr>, Ret ()))"

definition NumActiveChannels :: "'p RedisPubSub \<Rightarrow> nat" where
  "NumActiveChannels ps = length (activeChannels ps)"

definition NumSubscribers :: "'p pubsub_client \<Rightarrow> string \<Rightarrow> (pubsub_error, int) go" where
  "NumSubscribers pc channel =
     (case pc_numsub pc channel of
        None \<Rightarrow> Fail NumSubFailed
      | Some result \<Rightarrow> Ret (case fmlookup result channel of None \<Rightarrow> 0 | Some n \<Rightarrow> n))"

text \<open>The order of the result is arbitrary in the code.\<close>

definition ActiveChannels :: "'p RedisPubSub \<Rightarrow> string list" where
  "ActiveChannels ps = activeChannels ps"

definition PubSub_Close :: "'p pubsub_client \<Rightarrow> 'p RedisPubSub \<Rightarrow> 'p RedisPubSub \<times> (pubsub_error, unit) go" where
  "PubSub_Close pc ps =
     (if \<not> isRunning ps then (ps, Ret ())
      else if stopChan_closed ps then (ps, Panic)
      else
        let ps = ps\<lparr>stopChan_closed := True, isRunning := False\<rparr>
        in case pubsub ps of
             Some p \<Rightarrow>
               if \<not> pc_close pc p then (ps, Fail CloseFailed)
               else (ps\<lparr>pubsub := None, handlers := fmempty, patternHandlers := fmempty, activeChannels := []\<rparr>, Ret ())
           | None \<Rightarrow> (ps\<lparr>handlers := fmempty, patternHandlers := fmempty, activeChannels := []\<rparr>, Ret ()))"

definition PubSub_handleMessage :: "redis_message \<Rightarrow> 'p RedisPubSub \<Rightarrow> 'p RedisPubSub" where
  "PubSub_handleMessage msg ps =
     (let start = (\<lambda>hs. map (\<lambda>h. (h, m_Channel msg, m_Payload msg)) hs);
          ps = (case fmlookup (handlers ps) (m_Channel msg) of
                  Some hs \<Rightarrow> ps\<lparr>started := started ps @ start hs\<rparr>
                | None \<Rightarrow> ps)
      in if m_Pattern msg \<noteq> [] then
           (case fmlookup (patternHandlers ps) (m_Pattern msg) of
              Some hs \<Rightarrow> ps\<lparr>started := started ps @ start hs\<rparr>
            | None \<Rightarrow> ps)
         else ps)"

text \<open>The goroutine \<open>i\<close> of the message loop: its \<^verbatim>\<open>select\<close>, reading the field, and the return of
  \<^verbatim>\<open>ReceiveMessage\<close>, with a message or an error.\<close>

definition set_loop :: "nat \<Rightarrow> loop_at \<Rightarrow> 'p RedisPubSub \<Rightarrow> 'p RedisPubSub" where
  "set_loop i l ps = ps\<lparr>loops := (loops ps)[i := l]\<rparr>"

definition loop_select :: "nat \<Rightarrow> 'p RedisPubSub \<Rightarrow> 'p RedisPubSub" where
  "loop_select i ps = set_loop i (if stopChan_closed ps then LoopEnded else AtReceive) ps"

definition loop_deref :: "nat \<Rightarrow> 'p RedisPubSub \<Rightarrow> 'p RedisPubSub \<times> (pubsub_error, unit) go" where
  "loop_deref i ps = (case pubsub ps of None \<Rightarrow> (ps, Panic) | Some _ \<Rightarrow> (set_loop i Receiving ps, Ret ()))"

definition loop_received :: "nat \<Rightarrow> redis_message option \<Rightarrow> 'p RedisPubSub \<Rightarrow> 'p RedisPubSub" where
  "loop_received i msg ps =
     set_loop i AtSelect (case msg of None \<Rightarrow> ps | Some m \<Rightarrow> PubSub_handleMessage m ps)"

section \<open>Runs\<close>

datatype pubsub_op =
    OpSubscribe "nat option" "string list" | OpUnsubscribe "string list"
  | OpPSubscribe "nat option" "string list" | OpPUnsubscribe "string list" | OpClose
  | LoopSelect nat | LoopDeref nat | LoopReceived nat "redis_message option"

definition loop_is :: "nat \<Rightarrow> loop_at \<Rightarrow> 'p RedisPubSub \<Rightarrow> bool" where
  "loop_is i l ps \<longleftrightarrow> i < length (loops ps) \<and> loops ps ! i = l"

text \<open>A step of a goroutine that is somewhere else changes nothing.\<close>

fun pubsub_exec :: "'p pubsub_client \<Rightarrow> pubsub_op \<Rightarrow> 'p RedisPubSub \<Rightarrow> 'p RedisPubSub \<times> (pubsub_error, unit) go" where
  "pubsub_exec pc (OpSubscribe h cs) ps = Subscribe pc h cs ps"
| "pubsub_exec pc (OpUnsubscribe cs) ps = Unsubscribe pc cs ps"
| "pubsub_exec pc (OpPSubscribe h cs) ps = PSubscribe pc h cs ps"
| "pubsub_exec pc (OpPUnsubscribe cs) ps = PUnsubscribe pc cs ps"
| "pubsub_exec pc OpClose ps = PubSub_Close pc ps"
| "pubsub_exec pc (LoopSelect i) ps = (if loop_is i AtSelect ps then loop_select i ps else ps, Ret ())"
| "pubsub_exec pc (LoopDeref i) ps = (if loop_is i AtReceive ps then loop_deref i ps else (ps, Ret ()))"
| "pubsub_exec pc (LoopReceived i m) ps = (if loop_is i Receiving ps then loop_received i m ps else ps, Ret ())"

text \<open>A run: the results of the steps are collected, and a panic ends it.\<close>

fun pubsub_run ::
    "'p pubsub_client \<Rightarrow> pubsub_op list \<Rightarrow> 'p RedisPubSub \<Rightarrow> 'p RedisPubSub \<times> (pubsub_error, unit) go list" where
  "pubsub_run pc [] ps = (ps, [])"
| "pubsub_run pc (op # ops) ps =
     (case pubsub_exec pc op ps of
        (ps, Panic) \<Rightarrow> (ps, [Panic])
      | (ps, res) \<Rightarrow> (let (ps, rs) = pubsub_run pc ops ps in (ps, res # rs)))"

section \<open>Tables\<close>

definition table_keys :: "handler_table \<Rightarrow> string set" where
  "table_keys t = {k. fmlookup t k \<noteq> None}"

definition table_ok :: "handler_table \<Rightarrow> bool" where
  "table_ok t \<longleftrightarrow> (\<forall>k. fmlookup t k \<noteq> Some [])"

lemma table_keys_get: "table_ok t \<Longrightarrow> table_keys t = {k. table_get t k \<noteq> []}"
  by (auto simp: table_keys_def table_get_def table_ok_def split: option.splits)

lemma table_get_upd: "table_get (fmupd k hs t) k' = (if k' = k then hs else table_get t k')"
  by (simp add: table_get_def)

lemma add_handler_get: "table_get (add_handler h ks t) k = table_get t k @ replicate (count_list ks k) h"
  by (induction ks arbitrary: t) (auto simp: table_get_upd)

lemma add_handler_keys: "table_keys (add_handler h ks t) = table_keys t \<union> set ks"
  by (induction ks arbitrary: t) (auto simp: table_keys_def split: if_splits)

lemma add_handler_ok: "table_ok t \<Longrightarrow> table_ok (add_handler h ks t)"
  by (induction ks arbitrary: t) (auto simp: table_ok_def)

lemma drop_all_lookup: "fmlookup (drop_all ks t) k = (if k \<in> set ks then None else fmlookup t k)"
  by (induction ks arbitrary: t) (auto simp: drop_all_def)

lemma drop_all_keys: "table_keys (drop_all ks t) = table_keys t - set ks"
  by (auto simp: table_keys_def drop_all_lookup)

lemma drop_all_ok: "table_ok t \<Longrightarrow> table_ok (drop_all ks t)"
  by (simp add: table_ok_def drop_all_lookup)

lemma drop_all_get: "table_get (drop_all ks t) k = (if k \<in> set ks then [] else table_get t k)"
  by (simp add: table_get_def drop_all_lookup)

lemma table_empty [simp]: "table_keys fmempty = {}" "table_ok fmempty" "table_get fmempty k = []"
  by (simp_all add: table_keys_def table_ok_def table_get_def)

lemma add_channels_set:
  "set (add_channels cs a) = set a \<union> set cs" "distinct a \<Longrightarrow> distinct (add_channels cs a)"
  by (induction cs arbitrary: a) (auto simp: add_channels_def)

lemma drop_channels_set:
  "distinct a \<Longrightarrow> set (drop_channels cs a) = set a - set cs \<and> distinct (drop_channels cs a)"
  by (induction cs arbitrary: a) (auto simp: drop_channels_def)

lemmas table_simps = add_handler_keys add_handler_ok drop_all_keys drop_all_ok add_channels_set drop_channels_set

section \<open>Invariants\<close>

text \<open>
  While the service has not been closed: the list of active channels is the domain of the handler table, every
  entry has a handler, and one goroutine receives messages once the object exists.
\<close>

definition service_ok :: "'p RedisPubSub \<Rightarrow> bool" where
  "service_ok ps \<longleftrightarrow> set (activeChannels ps) = table_keys (handlers ps) \<and> distinct (activeChannels ps)
     \<and> table_ok (handlers ps) \<and> table_ok (patternHandlers ps) \<and> \<not> stopChan_closed ps
     \<and> (isRunning ps \<longleftrightarrow> pubsub ps \<noteq> None) \<and> length (loops ps) = (if isRunning ps then 1 else 0)
     \<and> LoopEnded \<notin> set (loops ps)"

text \<open>While no command has failed, the connection is subscribed to what has handlers.\<close>

definition in_sync :: "'p pubsub_client \<Rightarrow> 'p RedisPubSub \<Rightarrow> bool" where
  "in_sync pc ps \<longleftrightarrow>
     (case pubsub ps of
        None \<Rightarrow> table_keys (handlers ps) = {} \<and> table_keys (patternHandlers ps) = {}
      | Some p \<Rightarrow> set (pc_channels pc p) = table_keys (handlers ps)
                  \<and> set (pc_patterns pc p) = table_keys (patternHandlers ps))"

lemma ensure_pubsub_ok:
  assumes "service_ok ps" and "ensure_pubsub pc ps = Ret (ps', p)"
  shows "service_ok ps'" "pubsub ps' = Some p" "handlers ps' = handlers ps"
    "patternHandlers ps' = patternHandlers ps" "activeChannels ps' = activeChannels ps"
    "pubsub_client_ok pc \<Longrightarrow> in_sync pc ps \<Longrightarrow> in_sync pc ps'"
  using assms
  by (auto simp: ensure_pubsub_def startMessageLoop_def service_ok_def in_sync_def pubsub_client_ok_def
      split: option.splits client_kind.splits)

lemma ensure_pubsub_not_Panic: "ensure_pubsub pc ps \<noteq> Panic"
  by (auto simp: ensure_pubsub_def split: option.splits client_kind.splits)

lemma handleMessage_frame:
  "pubsub (PubSub_handleMessage m ps) = pubsub ps" "handlers (PubSub_handleMessage m ps) = handlers ps"
  "patternHandlers (PubSub_handleMessage m ps) = patternHandlers ps" "activeChannels (PubSub_handleMessage m ps) = activeChannels ps"
  "isRunning (PubSub_handleMessage m ps) = isRunning ps" "stopChan_closed (PubSub_handleMessage m ps) = stopChan_closed ps"
  "loops (PubSub_handleMessage m ps) = loops ps"
  by (simp_all add: PubSub_handleMessage_def Let_def split: option.splits)

lemma set_loop_ok: "service_ok ps \<Longrightarrow> l \<noteq> LoopEnded \<Longrightarrow> service_ok (set_loop i l ps)"
  by (auto simp: service_ok_def set_loop_def dest!: set_update_subset_insert [THEN subsetD])

lemma set_loop_frame [simp]:
  "pubsub (set_loop i l ps) = pubsub ps" "handlers (set_loop i l ps) = handlers ps"
  "patternHandlers (set_loop i l ps) = patternHandlers ps"
  by (simp_all add: set_loop_def)

lemma handleMessage_ok: "service_ok (PubSub_handleMessage m ps) = service_ok ps"
  by (simp add: service_ok_def handleMessage_frame)

lemma subscribe_ok:
  assumes "service_ok ps" and "Subscribe pc h cs ps = (ps', res)"
  shows "service_ok ps' \<and> res \<noteq> Panic \<and> (pubsub_client_ok pc \<longrightarrow> in_sync pc ps \<longrightarrow> res = Ret () \<longrightarrow>
      in_sync pc ps' \<and> (\<exists>h'. h = Some h' \<and> handlers ps' = add_handler h' cs (handlers ps))
      \<and> patternHandlers ps' = patternHandlers ps)"
proof (cases "ensure_pubsub pc ps")
  case (Ret r)
  obtain ps1 p where r: "r = (ps1, p)" by (cases r)
  note e = ensure_pubsub_ok [OF assms(1) Ret [unfolded r]]
  obtain p' ok where p': "pc_subscribe pc cs p = (p', ok)" by (cases "pc_subscribe pc cs p")
  show ?thesis
  proof (cases "cs = [] \<or> h = None")
    case True
    then show ?thesis using assms by (auto simp: Subscribe_def split: if_splits)
  next
    case False
    then obtain h' where h': "h = Some h'" "cs \<noteq> []" by auto
    have ps': "ps' = ps1\<lparr>handlers := add_handler h' cs (handlers ps1),
        activeChannels := add_channels cs (activeChannels ps1), pubsub := Some p'\<rparr>"
      "res = (if ok then Ret () else Fail SubscribeFailed)"
      using assms(2) h' Ret p' by (auto simp: Subscribe_def r Let_def split: if_splits)
    have "service_ok ps'" using e(1,2) by (simp add: ps'(1) service_ok_def table_simps)
    moreover have "in_sync pc ps'" if "pubsub_client_ok pc" "in_sync pc ps" "ok"
      using e(2) e(6) [OF that(1,2)] p' that(1,3)
      by (auto simp: in_sync_def ps'(1) table_simps pubsub_client_ok_def)
    ultimately show ?thesis using e h' by (auto simp: ps')
  qed
next
  case (Fail e)
  then show ?thesis using assms by (auto simp: Subscribe_def split: if_splits option.splits)
qed (use ensure_pubsub_not_Panic in blast)

lemma psubscribe_ok:
  assumes "service_ok ps" and "PSubscribe pc h cs ps = (ps', res)"
  shows "service_ok ps' \<and> res \<noteq> Panic \<and> (pubsub_client_ok pc \<longrightarrow> in_sync pc ps \<longrightarrow> res = Ret () \<longrightarrow>
      in_sync pc ps' \<and> (\<exists>h'. h = Some h' \<and> patternHandlers ps' = add_handler h' cs (patternHandlers ps))
      \<and> handlers ps' = handlers ps)"
proof (cases "ensure_pubsub pc ps")
  case (Ret r)
  obtain ps1 p where r: "r = (ps1, p)" by (cases r)
  note e = ensure_pubsub_ok [OF assms(1) Ret [unfolded r]]
  obtain p' ok where p': "pc_psubscribe pc cs p = (p', ok)" by (cases "pc_psubscribe pc cs p")
  show ?thesis
  proof (cases "cs = [] \<or> h = None")
    case True
    then show ?thesis using assms by (auto simp: PSubscribe_def split: if_splits)
  next
    case False
    then obtain h' where h': "h = Some h'" "cs \<noteq> []" by auto
    have ps': "ps' = ps1\<lparr>patternHandlers := add_handler h' cs (patternHandlers ps1), pubsub := Some p'\<rparr>"
      "res = (if ok then Ret () else Fail SubscribeFailed)"
      using assms(2) h' Ret p' by (auto simp: PSubscribe_def r Let_def split: if_splits)
    have "service_ok ps'" using e(1,2) by (simp add: ps'(1) service_ok_def table_simps)
    moreover have "in_sync pc ps'" if "pubsub_client_ok pc" "in_sync pc ps" "ok"
      using e(2) e(6) [OF that(1,2)] p' that(1,3)
      by (auto simp: in_sync_def ps'(1) table_simps pubsub_client_ok_def)
    ultimately show ?thesis using e h' by (auto simp: ps')
  qed
next
  case (Fail e)
  then show ?thesis using assms by (auto simp: PSubscribe_def split: if_splits option.splits)
qed (use ensure_pubsub_not_Panic in blast)

lemma unsubscribe_ok:
  assumes "service_ok ps" and "Unsubscribe pc cs ps = (ps', res)"
  shows "service_ok ps' \<and> res \<noteq> Panic \<and> (pubsub_client_ok pc \<longrightarrow> in_sync pc ps \<longrightarrow> res = Ret () \<longrightarrow> cs \<noteq> [] \<longrightarrow>
      in_sync pc ps' \<and> handlers ps' = drop_all cs (handlers ps) \<and> patternHandlers ps' = patternHandlers ps)"
proof (cases "pubsub ps")
  case (Some p)
  obtain p' ok where p': "pc_unsubscribe pc cs p = (p', ok)" by (cases "pc_unsubscribe pc cs p")
  show ?thesis
  proof (cases ok)
    case True
    then have ps': "ps' = ps\<lparr>pubsub := Some p', handlers := drop_all cs (handlers ps),
        activeChannels := drop_channels cs (activeChannels ps)\<rparr>" "res = Ret ()"
      using assms(2) Some p' by (auto simp: Unsubscribe_def)
    have "service_ok ps'" using assms(1) Some by (simp add: ps'(1) service_ok_def table_simps)
    moreover have "in_sync pc ps'" if "pubsub_client_ok pc" "in_sync pc ps" "cs \<noteq> []"
      using p' that Some True by (simp add: in_sync_def ps'(1) table_simps pubsub_client_ok_def)
    ultimately show ?thesis by (simp add: ps')
  next
    case False
    then show ?thesis using assms Some p' by (auto simp: Unsubscribe_def service_ok_def)
  qed
next
  case None
  then show ?thesis using assms by (auto simp: Unsubscribe_def)
qed

lemma punsubscribe_ok:
  assumes "service_ok ps" and "PUnsubscribe pc cs ps = (ps', res)"
  shows "service_ok ps' \<and> res \<noteq> Panic \<and> (pubsub_client_ok pc \<longrightarrow> in_sync pc ps \<longrightarrow> res = Ret () \<longrightarrow> cs \<noteq> [] \<longrightarrow>
      in_sync pc ps' \<and> patternHandlers ps' = drop_all cs (patternHandlers ps) \<and> handlers ps' = handlers ps)"
proof (cases "pubsub ps")
  case (Some p)
  obtain p' ok where p': "pc_punsubscribe pc cs p = (p', ok)" by (cases "pc_punsubscribe pc cs p")
  show ?thesis
  proof (cases ok)
    case True
    then have ps': "ps' = ps\<lparr>pubsub := Some p', patternHandlers := drop_all cs (patternHandlers ps)\<rparr>" "res = Ret ()"
      using assms(2) Some p' by (auto simp: PUnsubscribe_def)
    have "service_ok ps'" using assms(1) Some by (simp add: ps'(1) service_ok_def table_simps)
    moreover have "in_sync pc ps'" if "pubsub_client_ok pc" "in_sync pc ps" "cs \<noteq> []"
      using p' that Some True by (simp add: in_sync_def ps'(1) table_simps pubsub_client_ok_def)
    ultimately show ?thesis by (simp add: ps')
  next
    case False
    then show ?thesis using assms Some p' by (auto simp: PUnsubscribe_def service_ok_def)
  qed
next
  case None
  then show ?thesis using assms by (auto simp: PUnsubscribe_def)
qed

text \<open>The goroutine of the loop changes no table, and does not panic while the object exists.\<close>

lemma loop_ok:
  assumes "service_ok ps" and "pubsub_exec pc op ps = (ps', res)"
    and "op = LoopSelect i \<or> op = LoopDeref i \<or> op = LoopReceived i m"
  shows "service_ok ps' \<and> res = Ret () \<and> pubsub ps' = pubsub ps \<and> handlers ps' = handlers ps
    \<and> patternHandlers ps' = patternHandlers ps"
proof -
  have some: "\<exists>p. pubsub ps = Some p" if "loop_is i l ps" for l
    using assms(1) that by (cases "isRunning ps") (auto simp: service_ok_def loop_is_def)
  have ns: "\<not> stopChan_closed ps" using assms(1) by (simp add: service_ok_def)
  from assms(3) consider "op = LoopSelect i" | "op = LoopDeref i" | "op = LoopReceived i m" by blast
  then show ?thesis
  proof cases
    case 1
    then show ?thesis using assms(1,2) ns by (auto simp: loop_select_def set_loop_ok split: if_splits)
  next
    case 2
    then show ?thesis
      using assms(1,2) some [of AtReceive]
      by (cases "pubsub ps") (auto simp: loop_deref_def set_loop_ok split: if_splits)
  next
    case 3
    then show ?thesis using assms(1,2)
      by (auto simp: loop_received_def set_loop_ok handleMessage_ok handleMessage_frame split: if_splits option.splits)
  qed
qed

lemma exec_ok:
  assumes "service_ok ps" and "op \<noteq> OpClose" and "pubsub_exec pc op ps = (ps', res)"
  shows "service_ok ps' \<and> res \<noteq> Panic"
proof (cases op)
  case (OpSubscribe h cs) then show ?thesis using assms subscribe_ok by fastforce
next
  case (OpUnsubscribe cs) then show ?thesis using assms unsubscribe_ok by fastforce
next
  case (OpPSubscribe h cs) then show ?thesis using assms psubscribe_ok by fastforce
next
  case (OpPUnsubscribe cs) then show ?thesis using assms punsubscribe_ok by fastforce
next
  case (LoopSelect i) then show ?thesis using loop_ok [OF assms(1,3)] by simp
next
  case (LoopDeref i) then show ?thesis using loop_ok [OF assms(1,3)] by simp
next
  case (LoopReceived i m) then show ?thesis using loop_ok [OF assms(1,3)] by simp
qed (use assms in simp)

lemma run_ok:
  "service_ok ps \<Longrightarrow> OpClose \<notin> set ops \<Longrightarrow> pubsub_run pc ops ps = (ps', rs) \<Longrightarrow>
    service_ok ps' \<and> Panic \<notin> set rs \<and> length rs = length ops"
proof (induction ops arbitrary: ps ps' rs)
  case (Cons op ops)
  obtain ps1 res where e: "pubsub_exec pc op ps = (ps1, res)" by (cases "pubsub_exec pc op ps")
  have ok: "service_ok ps1" "res \<noteq> Panic" using exec_ok [OF Cons.prems(1) _ e] Cons.prems(2) by auto
  obtain ps2 rs2 where r: "pubsub_run pc ops ps1 = (ps2, rs2)" by (cases "pubsub_run pc ops ps1")
  have "ps' = ps2" "rs = res # rs2" using Cons.prems(3) e r ok(2) by (cases res; simp)+
  then show ?case using Cons.IH [OF ok(1) _ r] Cons.prems(2) ok(2) by auto
qed simp

lemma new_ok: "NewPubSub (Some pc) = Ret ps \<Longrightarrow> service_ok ps \<and> in_sync pc ps"
  by (auto simp: NewPubSub_def service_ok_def in_sync_def Let_def split: if_splits)

section \<open>What is subscribed\<close>

text \<open>
  The handlers of a channel as the callers see them, from the operations alone: every subscription adds its handler
  once for each time it names the channel, an unsubscription removes all of them.
\<close>

fun channel_handlers :: "string \<Rightarrow> pubsub_op list \<Rightarrow> nat list \<Rightarrow> nat list" where
  "channel_handlers c [] hs = hs"
| "channel_handlers c (OpSubscribe (Some h) cs # ops) hs = channel_handlers c ops (hs @ replicate (count_list cs c) h)"
| "channel_handlers c (OpUnsubscribe cs # ops) hs = channel_handlers c ops (if c \<in> set cs then [] else hs)"
| "channel_handlers c (_ # ops) hs = channel_handlers c ops hs"

fun pattern_handlers :: "string \<Rightarrow> pubsub_op list \<Rightarrow> nat list \<Rightarrow> nat list" where
  "pattern_handlers c [] hs = hs"
| "pattern_handlers c (OpPSubscribe (Some h) cs # ops) hs = pattern_handlers c ops (hs @ replicate (count_list cs c) h)"
| "pattern_handlers c (OpPUnsubscribe cs # ops) hs = pattern_handlers c ops (if c \<in> set cs then [] else hs)"
| "pattern_handlers c (_ # ops) hs = pattern_handlers c ops hs"

text \<open>Operations that name what they unsubscribe from, and no \<^verbatim>\<open>Close\<close>.\<close>

fun plain_op :: "pubsub_op \<Rightarrow> bool" where
  "plain_op OpClose = False"
| "plain_op (OpUnsubscribe cs) = (cs \<noteq> [])"
| "plain_op (OpPUnsubscribe cs) = (cs \<noteq> [])"
| "plain_op _ = True"

lemma exec_sync:
  assumes "service_ok ps" and "in_sync pc ps" and "pubsub_client_ok pc" and "plain_op op"
    and "pubsub_exec pc op ps = (ps', Ret ())"
  shows "in_sync pc ps'
    \<and> channel_handlers c (op # ops) (table_get (handlers ps) c) = channel_handlers c ops (table_get (handlers ps') c)
    \<and> pattern_handlers c (op # ops) (table_get (patternHandlers ps) c)
        = pattern_handlers c ops (table_get (patternHandlers ps') c)"
proof (cases op)
  case (OpSubscribe h cs)
  then show ?thesis using subscribe_ok [OF assms(1)] assms(2-5) by (fastforce simp: add_handler_get)
next
  case (OpUnsubscribe cs)
  then show ?thesis using unsubscribe_ok [OF assms(1)] assms(2-5) by (fastforce simp: drop_all_get)
next
  case (OpPSubscribe h cs)
  then show ?thesis using psubscribe_ok [OF assms(1)] assms(2-5) by (fastforce simp: add_handler_get)
next
  case (OpPUnsubscribe cs)
  then show ?thesis using punsubscribe_ok [OF assms(1)] assms(2-5) by (fastforce simp: drop_all_get)
next
  case (LoopSelect i)
  then show ?thesis using loop_ok [OF assms(1,5)] assms(2) by (auto simp: in_sync_def split: option.splits)
next
  case (LoopDeref i)
  then show ?thesis using loop_ok [OF assms(1,5)] assms(2) by (auto simp: in_sync_def split: option.splits)
next
  case (LoopReceived i m)
  then show ?thesis using loop_ok [OF assms(1,5)] assms(2) by (auto simp: in_sync_def split: option.splits)
qed (use assms in simp)

lemma run_sync:
  "service_ok ps \<Longrightarrow> in_sync pc ps \<Longrightarrow> pubsub_client_ok pc \<Longrightarrow> list_all plain_op ops \<Longrightarrow>
    pubsub_run pc ops ps = (ps', rs) \<Longrightarrow> list_all (\<lambda>r. r = Ret ()) rs \<Longrightarrow>
    in_sync pc ps' \<and> table_get (handlers ps') c = channel_handlers c ops (table_get (handlers ps) c)
    \<and> table_get (patternHandlers ps') c = pattern_handlers c ops (table_get (patternHandlers ps) c)"
proof (induction ops arbitrary: ps ps' rs)
  case (Cons op ops)
  obtain ps1 res where e: "pubsub_exec pc op ps = (ps1, res)" by (cases "pubsub_exec pc op ps")
  obtain ps2 rs2 where r: "pubsub_run pc ops ps1 = (ps2, rs2)" by (cases "pubsub_run pc ops ps1")
  have op: "plain_op op" "list_all plain_op ops" using Cons.prems(4) by simp_all
  have "op \<noteq> OpClose" using op(1) by auto
  then have ok: "service_ok ps1" "res \<noteq> Panic" using exec_ok [OF Cons.prems(1) _ e] by auto
  have rs: "ps' = ps2" "rs = res # rs2" using Cons.prems(5) e r ok(2) by (cases res; simp)+
  have "res = Ret ()" using rs(2) Cons.prems(6) by simp
  note x = exec_sync [OF Cons.prems(1-3) op(1) e [unfolded this], of c ops]
  show ?case using Cons.IH [OF ok(1) _ Cons.prems(3) op(2) r] x rs Cons.prems(6) by simp
qed simp

section \<open>One published message\<close>

definition handler_calls :: "'p RedisPubSub \<Rightarrow> redis_message \<Rightarrow> nat list" where
  "handler_calls ps m = table_get (handlers ps) (m_Channel m)
     @ (if m_Pattern m \<noteq> [] then table_get (patternHandlers ps) (m_Pattern m) else [])"

lemma handleMessage_started:
  "started (PubSub_handleMessage m ps) = started ps @ map (\<lambda>h. (h, m_Channel m, m_Payload m)) (handler_calls ps m)"
  by (simp add: PubSub_handleMessage_def handler_calls_def table_get_def Let_def split: option.splits)

lemma handler_calls_frame: "handler_calls (PubSub_handleMessage m' ps) m = handler_calls ps m"
  by (cases "m_Pattern m = []") (simp_all add: handler_calls_def handleMessage_frame)

lemma handle_all_started:
  "started (foldl (\<lambda>ps m. PubSub_handleMessage m ps) ps ms)
     = started ps @ concat (map (\<lambda>m. map (\<lambda>h. (h, m_Channel m, m_Payload m)) (handler_calls ps m)) ms)"
  by (induction ms arbitrary: ps)
    (simp_all add: handleMessage_started handler_calls_frame)

lemma count_concat: "count_list (concat xss) x = sum_list (map (\<lambda>xs. count_list xs x) xss)"
  by (induction xss) simp_all

lemma sum_list_plus: "sum_list (map (\<lambda>x. f x + g x) xs) = sum_list (map f xs) + (sum_list (map g xs) :: nat)"
  by (induction xs) simp_all

lemma pattern_calls:
  assumes "[] \<notin> set pts"
  shows "sum_list (map (\<lambda>pt. count_list (handler_calls ps \<lparr>m_Channel = c, m_Pattern = pt, m_Payload = v\<rparr>) h) pts)
    = length pts * count_list (table_get (handlers ps) c) h
      + sum_list (map (\<lambda>pt. count_list (table_get (patternHandlers ps) pt) h) pts)"
  using assms by (induction pts) (auto simp: handler_calls_def)

text \<open>C27: After a run of operations that all succeed, with no \<^verbatim>\<open>Close\<close> and no unsubscription without names, one
  message published on a channel starts each handler of the channel once, and once more for every subscribed pattern
  that the channel matches, and starts each handler of such a pattern once; nothing else is started.\<close>

theorem published_deliveries:
  assumes "pubsub_client_ok pc" and "NewPubSub (Some pc) = Ret ps0" and "list_all plain_op ops"
    and "pubsub_run pc ops ps0 = (ps, rs)" and "list_all (\<lambda>r. r = Ret ()) rs" and "pubsub ps = Some p"
    and "pattern_handlers [] ops [] = []"
  shows "\<exists>hs pts. started (foldl (\<lambda>ps m. PubSub_handleMessage m ps) ps (deliveries pc matches p channel payload))
        = started ps @ map (\<lambda>h. (h, channel, payload)) hs
      \<and> distinct pts \<and> set pts = {pt. matches pt channel \<and> pattern_handlers pt ops [] \<noteq> []}
      \<and> (\<forall>h. count_list hs h = Suc (length pts) * count_list (channel_handlers channel ops []) h
          + (\<Sum>pt\<leftarrow>pts. count_list (pattern_handlers pt ops []) h))"
proof -
  have new: "service_ok ps0" "in_sync pc ps0" "handlers ps0 = fmempty" "patternHandlers ps0 = fmempty"
    using new_ok [OF assms(2)] assms(2) by (auto simp: NewPubSub_def Let_def split: if_splits)
  have "in_sync pc ps" and get: "table_get (handlers ps) c = channel_handlers c ops []"
    "table_get (patternHandlers ps) c = pattern_handlers c ops []" for c
    using run_sync [OF new(1,2) assms(1,3,4,5), of c] new(3,4) by simp_all
  have "OpClose \<notin> set ops" using assms(3) by (auto simp: list_all_iff)
  then have "service_ok ps" using run_ok [OF new(1) _ assms(4)] by simp
  then have keys: "table_keys (handlers ps) = {c. channel_handlers c ops [] \<noteq> []}"
    "table_keys (patternHandlers ps) = {pt. pattern_handlers pt ops [] \<noteq> []}"
    by (simp_all add: service_ok_def table_keys_get get)
  define pts where "pts = filter (\<lambda>pt. matches pt channel) (pc_patterns pc p)"
  have pts: "distinct pts" "set pts = {pt. matches pt channel \<and> pattern_handlers pt ops [] \<noteq> []}"
    and ch: "channel \<in> set (pc_channels pc p) \<longleftrightarrow> channel_handlers channel ops [] \<noteq> []"
    using \<open>in_sync pc ps\<close> assms(1,6) keys by (auto simp: pts_def in_sync_def pubsub_client_ok_def)
  define ms where "ms = deliveries pc matches p channel payload"
  have same: "m \<in> set ms \<Longrightarrow> m_Channel m = channel \<and> m_Payload m = payload" for m
    by (auto simp: ms_def deliveries_def split: if_splits)
  define hs where "hs = concat (map (handler_calls ps) ms)"
  have "started (foldl (\<lambda>ps m. PubSub_handleMessage m ps) ps ms) = started ps @ map (\<lambda>h. (h, channel, payload)) hs"
    unfolding handle_all_started hs_def map_concat map_map
    by (intro arg_cong2 [of _ _ _ _ "(@)"] refl arg_cong [of _ _ concat] map_cong) (simp_all add: same)
  moreover have "count_list hs h = Suc (length pts) * count_list (channel_handlers channel ops []) h
      + (\<Sum>pt\<leftarrow>pts. count_list (pattern_handlers pt ops []) h)" for h
  proof -
    have "[] \<notin> set pts" using pts(2) assms(7) by simp
    note c = pattern_calls [OF this, of ps channel payload h]
    have one: "(if channel \<in> set (pc_channels pc p) then count_list (channel_handlers channel ops []) h else 0)
      = count_list (channel_handlers channel ops []) h" using ch by auto
    have "count_list hs h = (if channel \<in> set (pc_channels pc p) then count_list (channel_handlers channel ops []) h else 0)
        + sum_list (map (\<lambda>pt. count_list (handler_calls ps \<lparr>m_Channel = channel, m_Pattern = pt, m_Payload = payload\<rparr>) h) pts)"
      by (simp add: hs_def ms_def deliveries_def count_concat pts_def [symmetric] comp_def get handler_calls_def)
    then show ?thesis unfolding one c by (simp add: get)
  qed
  ultimately show ?thesis using pts unfolding ms_def by blast
qed

text \<open>A client whose commands all succeed.\<close>

definition sample_client :: "(string list \<times> string list) pubsub_client" where
  "sample_client = \<lparr>pc_kind = SingleClient, pc_ping = True, pc_new = ([], []),
     pc_subscribe = (\<lambda>cs (a, b). ((remdups (cs @ a), remdups b), True)),
     pc_unsubscribe = (\<lambda>cs (a, b). ((if cs = [] then [] else filter (\<lambda>c. c \<notin> set cs) (remdups a), remdups b), True)),
     pc_psubscribe = (\<lambda>cs (a, b). ((remdups a, remdups (cs @ b)), True)),
     pc_punsubscribe = (\<lambda>cs (a, b). ((remdups a, if cs = [] then [] else filter (\<lambda>c. c \<notin> set cs) (remdups b)), True)),
     pc_close = (\<lambda>_. True), pc_publish = (\<lambda>_ _. Some 1), pc_numsub = (\<lambda>_. Some fmempty),
     pc_channels = (\<lambda>(a, b). remdups a), pc_patterns = (\<lambda>(a, b). remdups b)\<rparr>"

lemma sample_client_ok: "pubsub_client_ok sample_client"
  by (auto simp: pubsub_client_ok_def sample_client_def distinct_remdups_id)

lemma distinct_single: "distinct xs \<Longrightarrow> set xs = {x} \<Longrightarrow> xs = [x]"
proof (cases xs)
  case (Cons y ys)
  moreover assume "distinct xs" "set xs = {x}"
  ultimately show ?thesis by (cases ys) auto
qed simp

definition sample_ops :: "pubsub_op list" where
  "sample_ops = [OpSubscribe (Some 1) [''a''], LoopSelect 0, OpPSubscribe (Some 2) [''a*''], LoopDeref 0]"

definition fresh_service :: "(string list \<times> string list) RedisPubSub" where
  "fresh_service = \<lparr>pubsub = None, handlers = fmempty, patternHandlers = fmempty, activeChannels = [],
     isRunning = False, stopChan_closed = False, loops = [], started = []\<rparr>"

lemma fresh_service_new: "NewPubSub (Some sample_client) = Ret fresh_service"
  by (simp add: NewPubSub_def sample_client_def fresh_service_def)

lemmas pubsub_eval = Subscribe_def PSubscribe_def Unsubscribe_def PubSub_Close_def ensure_pubsub_def
  startMessageLoop_def loop_select_def loop_deref_def set_loop_def loop_is_def table_get_def add_channels_def
  sample_client_def fresh_service_def

definition sample_state :: "(string list \<times> string list) RedisPubSub" where
  "sample_state = \<lparr>pubsub = Some ([''a''], [''a*'']), handlers = fmupd ''a'' [1] fmempty,
     patternHandlers = fmupd ''a*'' [2] fmempty, activeChannels = [''a''], isRunning = True,
     stopChan_closed = False, loops = [Receiving], started = []\<rparr>"

lemma sample_run:
  "pubsub_run sample_client sample_ops fresh_service = (sample_state, [Ret (), Ret (), Ret (), Ret ()])"
  by (simp add: sample_ops_def sample_state_def pubsub_eval)

theorem published_deliveries_witness:
  "pubsub_client_ok sample_client \<and> fst (pubsub_run sample_client sample_ops fresh_service) = sample_state \<and>
   (\<exists>hs. started (foldl (\<lambda>ps m. PubSub_handleMessage m ps) sample_state
        (deliveries sample_client (\<lambda>pt c. pt = ''a*'') ([''a''], [''a*'']) ''a'' ''hello''))
      = map (\<lambda>h. (h, ''a'', ''hello'')) hs \<and> count_list hs 1 = 2 \<and> count_list hs 2 = 1)"
proof -
  have plain: "list_all plain_op sample_ops" "pattern_handlers [] sample_ops [] = []"
    "list_all (\<lambda>r. r = Ret ()) [Ret (), Ret (), Ret (), Ret () :: (pubsub_error, unit) go]"
    "pubsub sample_state = Some ([''a''], [''a*''])" "started sample_state = []"
    by (simp_all add: sample_ops_def sample_state_def)
  obtain hs pts where t: "started (foldl (\<lambda>ps m. PubSub_handleMessage m ps) sample_state
          (deliveries sample_client (\<lambda>pt c. pt = ''a*'') ([''a''], [''a*'']) ''a'' ''hello''))
        = started sample_state @ map (\<lambda>h. (h, ''a'', ''hello'')) hs"
      "distinct pts" "set pts = {pt. pt = ''a*'' \<and> pattern_handlers pt sample_ops [] \<noteq> []}"
      "\<forall>h. count_list hs h = Suc (length pts) * count_list (channel_handlers ''a'' sample_ops []) h
        + (\<Sum>pt\<leftarrow>pts. count_list (pattern_handlers pt sample_ops []) h)"
    using published_deliveries [OF sample_client_ok fresh_service_new plain(1) sample_run plain(3,4,2),
      of "\<lambda>pt c. pt = ''a*''" "''a''" "''hello''"] by (elim exE conjE) (rule that)
  have "set pts = {''a*''}" unfolding t(3) by (auto simp: sample_ops_def)
  with t(2) have "pts = [''a*'']" by (rule distinct_single)
  then have "count_list hs 1 = 2" "count_list hs 2 = 1" unfolding t(4) [rule_format] by (simp_all add: sample_ops_def)
  then show ?thesis using sample_client_ok sample_run t(1) plain(5) by auto
qed

section \<open>Consistency\<close>

text \<open>C28: While the service is not closed, no sequence of its operations and of the steps of its goroutine panics,
  whatever fails; the active channels are exactly the channels with a handler, each listed once; and there is one
  receiving goroutine when the object exists, none otherwise.\<close>

theorem pubsub_stays_consistent:
  assumes "NewPubSub (Some pc) = Ret ps0" and "OpClose \<notin> set ops" and "pubsub_run pc ops ps0 = (ps, rs)"
  shows "Panic \<notin> set rs \<and> length rs = length ops \<and> distinct (ActiveChannels ps)
    \<and> set (ActiveChannels ps) = {c. table_get (handlers ps) c \<noteq> []}
    \<and> NumActiveChannels ps = card {c. table_get (handlers ps) c \<noteq> []}
    \<and> length (loops ps) = (if pubsub ps = None then 0 else 1) \<and> LoopEnded \<notin> set (loops ps)"
proof -
  have r: "service_ok ps" "Panic \<notin> set rs" "length rs = length ops"
    using run_ok [OF _ assms(2,3)] new_ok [OF assms(1)] by auto
  then have a: "distinct (activeChannels ps)" "set (activeChannels ps) = {c. table_get (handlers ps) c \<noteq> []}"
    by (auto simp: service_ok_def table_keys_get)
  then have "length (activeChannels ps) = card {c. table_get (handlers ps) c \<noteq> []}"
    using distinct_card [OF a(1)] by simp
  then show ?thesis using r a by (auto simp: ActiveChannels_def NumActiveChannels_def service_ok_def split: if_splits)
qed

theorem pubsub_stays_consistent_witness:
  "NewPubSub (Some sample_client) = Ret fresh_service \<and> OpClose \<notin> set sample_ops \<and>
   Panic \<notin> set (snd (pubsub_run sample_client sample_ops fresh_service)) \<and>
   ActiveChannels (fst (pubsub_run sample_client sample_ops fresh_service)) = [''a'']"
proof -
  have "OpClose \<notin> set sample_ops" by (simp add: sample_ops_def)
  with pubsub_stays_consistent [OF fresh_service_new this sample_run] show ?thesis
    by (simp add: fresh_service_new sample_run sample_state_def ActiveChannels_def)
qed

section \<open>Closing\<close>

text \<open>A goroutine that has passed its \<^verbatim>\<open>select\<close> reads the field that \<^verbatim>\<open>Close\<close> has set to nil.\<close>

lemma close_races_loop:
  assumes "service_ok ps" and "PubSub_Close pc ps = (ps1, Ret ())" and "loop_is i AtReceive ps"
  shows "pubsub_exec pc (LoopDeref i) ps1 = (ps1, Panic)"
proof -
  have "isRunning ps" using assms(1,3) by (auto simp: service_ok_def loop_is_def split: if_splits)
  then have "pubsub ps1 = None" "loops ps1 = loops ps"
    using assms(1,2) by (auto simp: PubSub_Close_def service_ok_def Let_def split: option.splits if_splits)
  then show ?thesis using assms(3) by (simp add: loop_is_def loop_deref_def)
qed

text \<open>
  The stop channel stays closed: when a closed service is used again, its new goroutine ends at its first
  \<^verbatim>\<open>select\<close>, and the next \<^verbatim>\<open>Close\<close> panics.
\<close>

lemma reopened_service:
  assumes "service_ok ps" and "isRunning ps" and "PubSub_Close pc ps = (ps1, Ret ())"
    and "Subscribe pc (Some h) cs ps1 = (ps2, Ret ())" and "loop_is i AtSelect ps2"
  shows "loops (fst (pubsub_exec pc (LoopSelect i) ps2)) = (loops ps2)[i := LoopEnded]"
    and "snd (pubsub_exec pc OpClose ps2) = Panic"
proof -
  have c: "pubsub ps1 = None" "stopChan_closed ps1" "\<not> isRunning ps1"
    using assms(1,2,3) by (auto simp: PubSub_Close_def service_ok_def Let_def split: option.splits if_splits)
  then have "stopChan_closed ps2" "isRunning ps2"
    using assms(4) by (auto simp: Subscribe_def ensure_pubsub_def startMessageLoop_def Let_def
        split: if_splits client_kind.splits prod.splits)
  then show "loops (fst (pubsub_exec pc (LoopSelect i) ps2)) = (loops ps2)[i := LoopEnded]"
    "snd (pubsub_exec pc OpClose ps2) = Panic"
    using assms(5) by (simp_all add: loop_select_def set_loop_def PubSub_Close_def)
qed

lemma reopened_service_panics:
  "snd (pubsub_run sample_client [OpSubscribe (Some 1) [''a''], OpClose, OpSubscribe (Some 1) [''a''], OpClose] fresh_service)
     = [Ret (), Ret (), Ret (), Panic]"
  by (simp add: pubsub_eval)

text \<open>A subscription that fails leaves its handler in the table.\<close>

lemma failed_subscription_stays:
  assumes "Subscribe pc (Some h) cs ps = (ps', Fail SubscribeFailed)" and "c \<in> set cs"
  shows "h \<in> set (table_get (handlers ps') c)"
  using assms
  by (auto simp: Subscribe_def ensure_pubsub_def Let_def add_handler_get count_list_0_iff
      split: if_splits option.splits client_kind.splits prod.splits)

text \<open>Unsubscribing from no channels ends every subscription of the connection and removes no handler.\<close>

lemma unsubscribe_nothing:
  assumes "pubsub_client_ok pc" and "Unsubscribe pc [] ps = (ps', Ret ())" and "pubsub ps' = Some p"
  shows "pc_channels pc p = [] \<and> handlers ps' = handlers ps \<and> activeChannels ps' = activeChannels ps"
proof -
  obtain q where q: "pubsub ps = Some q" using assms(2) by (auto simp: Unsubscribe_def split: option.splits)
  then have "pc_unsubscribe pc [] q = (p, True)" "ps' = ps\<lparr>pubsub := Some p\<rparr>"
    using assms(2,3) by (auto simp: Unsubscribe_def drop_all_def drop_channels_def Let_def split: prod.splits if_splits)
  moreover have "\<forall>cs p p'. pc_unsubscribe pc cs p = (p', True) \<longrightarrow>
      set (pc_channels pc p') = (if cs = [] then {} else set (pc_channels pc p) - set cs)"
    using assms(1) by (simp add: pubsub_client_ok_def)
  note this [rule_format, OF calculation(1)]
  ultimately show ?thesis by simp
qed

end
