(* ===== verification/Float32.thy ===== *)
theory Float32
  imports Complex_Main Go_Prelude
begin

text \<open>
  The \<^verbatim>\<open>float32\<close> arithmetic of Go: IEEE 754 binary32 with rounding to nearest, ties to even, after
  every operation (no fused operations, as on amd64). A finite number is the rational it stands for, so
  the two zeros are one number; no result below depends on the sign of a zero. The conversion
  of a number that no \<^verbatim>\<open>int\<close> represents gives the smallest \<^verbatim>\<open>int\<close>, as on amd64.
\<close>

section \<open>Rounding\<close>

definition round_even :: "rat \<Rightarrow> int" where
  "round_even r =
     (let n = \<lfloor>r\<rfloor>; d = r - of_int n
      in if d < 1 / 2 then n else if 1 / 2 < d then n + 1 else if even n then n else n + 1)"

text \<open>The exponent of a positive number, not below that of the subnormal numbers.\<close>

fun expo_below :: "nat \<Rightarrow> rat \<Rightarrow> int" where
  "expo_below 0 x = - 126"
| "expo_below (Suc n) x = (if 2 powi (int n - 125) \<le> x then int n - 125 else expo_below n x)"

definition expo :: "rat \<Rightarrow> int" where
  "expo x = expo_below 253 x"

definition ulp :: "rat \<Rightarrow> rat" where
  "ulp x = 2 powi (expo x - 23)"

definition round_pos :: "rat \<Rightarrow> rat" where
  "round_pos x = of_int (round_even (x / ulp x)) * ulp x"

definition round24 :: "rat \<Rightarrow> rat" where
  "round24 x = (if x < 0 then - round_pos (- x) else round_pos x)"

section \<open>Numbers\<close>

datatype float32 = Fin rat | PInf | MInf | NaN

definition to_float32 :: "rat \<Rightarrow> float32" where
  "to_float32 x =
     (let r = round24 x in if 2 ^ 128 \<le> r then PInf else if r \<le> - (2 ^ 128) then MInf else Fin r)"

fun fneg :: "float32 \<Rightarrow> float32" where
  "fneg (Fin x) = Fin (- x)"
| "fneg PInf = MInf"
| "fneg MInf = PInf"
| "fneg NaN = NaN"

fun fadd :: "float32 \<Rightarrow> float32 \<Rightarrow> float32" where
  "fadd (Fin x) (Fin y) = to_float32 (x + y)"
| "fadd NaN _ = NaN"
| "fadd _ NaN = NaN"
| "fadd PInf MInf = NaN"
| "fadd MInf PInf = NaN"
| "fadd PInf _ = PInf"
| "fadd _ PInf = PInf"
| "fadd MInf _ = MInf"
| "fadd _ MInf = MInf"

definition fsub :: "float32 \<Rightarrow> float32 \<Rightarrow> float32" where
  "fsub a b = fadd a (fneg b)"

definition signed_inf :: "rat \<Rightarrow> float32" where
  "signed_inf x = (if x = 0 then NaN else if 0 < x then PInf else MInf)"

fun fmul :: "float32 \<Rightarrow> float32 \<Rightarrow> float32" where
  "fmul (Fin x) (Fin y) = to_float32 (x * y)"
| "fmul NaN _ = NaN"
| "fmul _ NaN = NaN"
| "fmul (Fin x) PInf = signed_inf x"
| "fmul (Fin x) MInf = signed_inf (- x)"
| "fmul PInf (Fin y) = signed_inf y"
| "fmul MInf (Fin y) = signed_inf (- y)"
| "fmul PInf PInf = PInf"
| "fmul MInf MInf = PInf"
| "fmul PInf MInf = MInf"
| "fmul MInf PInf = MInf"

fun fdiv :: "float32 \<Rightarrow> float32 \<Rightarrow> float32" where
  "fdiv (Fin x) (Fin y) = (if y = 0 then signed_inf x else to_float32 (x / y))"
| "fdiv NaN _ = NaN"
| "fdiv _ NaN = NaN"
| "fdiv (Fin _) _ = Fin 0"
| "fdiv PInf (Fin y) = (if y < 0 then MInf else PInf)"
| "fdiv MInf (Fin y) = (if y < 0 then PInf else MInf)"
| "fdiv _ _ = NaN"

fun fless :: "float32 \<Rightarrow> float32 \<Rightarrow> bool" where
  "fless (Fin x) (Fin y) \<longleftrightarrow> x < y"
| "fless NaN _ \<longleftrightarrow> False"
| "fless _ NaN \<longleftrightarrow> False"
| "fless a PInf \<longleftrightarrow> a \<noteq> PInf"
| "fless MInf b \<longleftrightarrow> b \<noteq> MInf"
| "fless _ _ \<longleftrightarrow> False"

definition fle :: "float32 \<Rightarrow> float32 \<Rightarrow> bool" where
  "fle a b \<longleftrightarrow> fless a b \<or> a = b \<and> a \<noteq> NaN"

definition float_of_int :: "int \<Rightarrow> float32" where
  "float_of_int i = to_float32 (of_int i)"

definition in_int64 :: "int \<Rightarrow> int" where
  "in_int64 i = (if min_int64 \<le> i \<and> i \<le> max_int64 then i else min_int64)"

definition rat_trunc :: "rat \<Rightarrow> int" where
  "rat_trunc x = (if x < 0 then \<lceil>x\<rceil> else \<lfloor>x\<rfloor>)"

fun int_of_float :: "float32 \<Rightarrow> int" where
  "int_of_float (Fin x) = in_int64 (rat_trunc x)"
| "int_of_float _ = min_int64"

text \<open>\<^verbatim>\<open>int(math.Ceil(float64(a)))\<close>: the conversion to \<^verbatim>\<open>float64\<close> is exact.\<close>

fun int_ceil_of_float :: "float32 \<Rightarrow> int" where
  "int_ceil_of_float (Fin x) = in_int64 \<lceil>x\<rceil>"
| "int_ceil_of_float _ = min_int64"

section \<open>Rounding is monotone\<close>

lemma round_even_of_int [simp]: "round_even (of_int n) = n"
  by (simp add: round_even_def)

lemma round_even_mono: "x \<le> y \<Longrightarrow> round_even x \<le> round_even y"
proof -
  assume le: "x \<le> y"
  have bounds: "\<lfloor>r\<rfloor> \<le> round_even r \<and> round_even r \<le> \<lfloor>r\<rfloor> + 1" for r
    by (simp add: round_even_def Let_def)
  show ?thesis
  proof (cases "\<lfloor>x\<rfloor> = \<lfloor>y\<rfloor>")
    case True
    then show ?thesis using le by (auto simp: round_even_def Let_def)
  next
    case False
    then have "\<lfloor>x\<rfloor> + 1 \<le> \<lfloor>y\<rfloor>" using floor_mono [OF le] by simp
    then show ?thesis using bounds [of x] bounds [of y] by linarith
  qed
qed

lemma expo_below_range: "- 126 \<le> expo_below n x \<and> expo_below n x \<le> int n - 126"
  by (induction n) auto

lemma expo_below_lower: "expo_below n x = - 126 \<or> 2 powi (expo_below n x) \<le> x"
  by (induction n) auto

lemma expo_below_upper:
  "x < 2 powi (int n - 125) \<Longrightarrow> x < 2 powi (expo_below n x + 1)"
proof (induction n)
  case (Suc n)
  then show ?case by (cases "2 powi (int n - 125) \<le> x") (simp_all add: algebra_simps)
qed simp

lemma expo_below_mono: "x \<le> y \<Longrightarrow> expo_below n x \<le> expo_below n y"
proof (induction n)
  case (Suc n)
  then show ?case using expo_below_range [of n x] by auto
qed simp

lemma expo_mono: "x \<le> y \<Longrightarrow> expo x \<le> expo y"
  by (simp add: expo_def expo_below_mono)

lemma expo_top: "expo x < expo y \<Longrightarrow> x < 2 powi (expo x + 1)"
proof -
  assume less: "expo x < expo y"
  have "expo y \<le> 127" using expo_below_range [of 253 y] by (simp add: expo_def)
  then have "\<not> 2 powi 127 \<le> x" using less by (auto simp: expo_def numeral_eq_Suc)
  moreover have "(2::rat) powi 127 \<le> 2 powi 128" by simp
  ultimately have "x < 2 powi 128" by linarith
  then show ?thesis using expo_below_upper [of x 253] by (simp add: expo_def)
qed

lemma ulp_pos: "0 < ulp x"
  by (simp add: ulp_def)

lemma power_over_ulp:
  assumes "expo x - 23 \<le> k"
  shows "2 powi k / ulp x = of_int (2 ^ nat (k - expo x + 23))"
proof -
  have "2 powi k / ulp x = 2 powi (k - (expo x - 23))" by (simp add: ulp_def power_int_diff)
  also have "\<dots> = 2 ^ nat (k - (expo x - 23))" using assms by (simp add: power_int_def)
  finally show ?thesis by (simp add: algebra_simps)
qed

lemma round_pos_le_power:
  assumes "x \<le> 2 powi k" and "expo x - 23 \<le> k"
  shows "round_pos x \<le> 2 powi k"
proof -
  have "x / ulp x \<le> 2 powi k / ulp x" using assms(1) ulp_pos [of x] by (simp add: divide_right_mono)
  then have "x / ulp x \<le> of_int (2 ^ nat (k - expo x + 23))" by (simp only: power_over_ulp [OF assms(2)])
  from round_even_mono [OF this] have "round_even (x / ulp x) \<le> 2 ^ nat (k - expo x + 23)"
    by (simp only: round_even_of_int)
  then have "rat_of_int (round_even (x / ulp x)) \<le> 2 powi k / ulp x"
    unfolding power_over_ulp [OF assms(2)] by (simp only: of_int_le_iff)
  then show ?thesis using ulp_pos [of x] by (simp add: round_pos_def pos_le_divide_eq)
qed

lemma power_le_round_pos:
  assumes "2 powi k \<le> x" and "expo x - 23 \<le> k"
  shows "2 powi k \<le> round_pos x"
proof -
  have "2 powi k / ulp x \<le> x / ulp x" using assms(1) ulp_pos [of x] by (simp add: divide_right_mono)
  then have "of_int (2 ^ nat (k - expo x + 23)) \<le> x / ulp x" by (simp only: power_over_ulp [OF assms(2)])
  from round_even_mono [OF this] have "2 ^ nat (k - expo x + 23) \<le> round_even (x / ulp x)"
    by (simp only: round_even_of_int)
  then have "2 powi k / ulp x \<le> rat_of_int (round_even (x / ulp x))"
    unfolding power_over_ulp [OF assms(2)] by (simp only: of_int_le_iff)
  then show ?thesis using ulp_pos [of x] by (simp add: round_pos_def pos_divide_le_eq)
qed

lemma round_pos_mono: "x \<le> y \<Longrightarrow> round_pos x \<le> round_pos y"
proof (cases "expo x = expo y")
  case True
  assume "x \<le> y"
  then have "x / ulp y \<le> y / ulp y" using ulp_pos [of y] by (simp add: divide_right_mono)
  then have "round_even (x / ulp y) \<le> round_even (y / ulp y)" by (rule round_even_mono)
  moreover have "ulp x = ulp y" using True by (simp add: ulp_def)
  ultimately show ?thesis using ulp_pos [of y] by (simp add: round_pos_def)
next
  case False
  assume le: "x \<le> y"
  then have less: "expo x < expo y" using False expo_mono [OF le] by simp
  then have "expo y \<noteq> - 126" using expo_below_range [of 253 x] by (simp add: expo_def)
  then have "2 powi (expo y) \<le> y" using expo_below_lower [of 253 y] by (simp add: expo_def)
  then have "2 powi (expo y) \<le> round_pos y" by (intro power_le_round_pos) simp_all
  moreover have "round_pos x \<le> 2 powi (expo x + 1)"
    using expo_top [OF less] by (intro round_pos_le_power) simp_all
  moreover have "(2::rat) powi (expo x + 1) \<le> 2 powi (expo y)"
    using less by (intro power_int_increasing) simp_all
  ultimately show ?thesis by linarith
qed

lemma round_pos_0 [simp]: "round_pos 0 = 0"
  using round_even_of_int [of 0] by (simp add: round_pos_def)

lemma round_pos_nonneg: "0 \<le> x \<Longrightarrow> 0 \<le> round_pos x"
  using round_pos_mono [of 0 x] by simp

lemma round24_mono: "x \<le> y \<Longrightarrow> round24 x \<le> round24 y"
  using round_pos_mono [of x y] round_pos_mono [of "- y" "- x"] round_pos_nonneg [of y]
    round_pos_nonneg [of "- x"]
  by (auto simp: round24_def)

lemma round24_0 [simp]: "round24 0 = 0"
  by (simp add: round24_def)

lemma round24_neg: "round24 (- x) = - round24 x"
  by (cases "x = 0") (auto simp: round24_def)

lemma to_float32_between:
  assumes "round24 lo = lo" and "round24 hi = hi" and "lo \<le> x" and "x \<le> hi"
    and "- (2 ^ 128) < lo" and "hi < 2 ^ 128"
  shows "to_float32 x = Fin (round24 x) \<and> lo \<le> round24 x \<and> round24 x \<le> hi"
  using round24_mono [OF assms(3)] round24_mono [OF assms(4)] assms
  by (auto simp: to_float32_def Let_def)

section \<open>Integers and divisions\<close>

lemma expo_below_ge: "2 powi j \<le> x \<Longrightarrow> - 126 \<le> j \<Longrightarrow> j \<le> int n - 126 \<Longrightarrow> j \<le> expo_below n x"
proof (induction n)
  case (Suc n)
  then show ?case by (cases "j = int n - 125") auto
qed simp

lemma expo_ge: "2 powi j \<le> x \<Longrightarrow> - 126 \<le> j \<Longrightarrow> j \<le> 127 \<Longrightarrow> j \<le> expo x"
  unfolding expo_def by (rule expo_below_ge) simp_all

lemma expo_normal:
  assumes "2 powi j \<le> x" and "- 125 \<le> j" and "x < 2 powi 128"
  shows "2 powi (expo x) \<le> x \<and> x < 2 powi (expo x + 1)"
proof -
  have "min j 127 \<le> expo x"
  proof (cases "j \<le> 127")
    case True
    then show ?thesis using expo_ge [OF assms(1)] assms(2) by simp
  next
    case False
    then have "(2::rat) powi 127 \<le> 2 powi j" by (intro power_int_increasing) simp_all
    then show ?thesis using expo_ge [of 127 x] assms(1) False by simp
  qed
  then have "expo x \<noteq> - 126" using assms(2) by linarith
  then show ?thesis
    using expo_below_lower [of 253 x] expo_below_upper [of x 253] assms(3) by (simp add: expo_def)
qed

lemma expo_le: "x < 2 powi (j + 1) \<Longrightarrow> - 126 \<le> j \<Longrightarrow> expo x \<le> j"
proof (rule ccontr)
  assume less: "x < 2 powi (j + 1)" and j: "- 126 \<le> j" and "\<not> expo x \<le> j"
  then have "2 powi (expo x) \<le> x" using expo_below_lower [of 253 x] by (auto simp: expo_def)
  moreover have "(2::rat) powi (j + 1) \<le> 2 powi (expo x)"
    using \<open>\<not> expo x \<le> j\<close> by (intro power_int_increasing) simp_all
  ultimately show False using less by linarith
qed

lemma ulp_inverse: "expo x \<le> 23 \<Longrightarrow> 1 / ulp x = of_int (2 ^ nat (23 - expo x))"
  using power_over_ulp [of x 0] by (simp add: algebra_simps)

lemma round24_int: "0 \<le> n \<Longrightarrow> n < 2 ^ 24 \<Longrightarrow> round24 (of_int n) = of_int n"
proof -
  assume n: "0 \<le> n" "n < 2 ^ 24"
  have "rat_of_int n < of_int (2 ^ 24)" using n(2) by (simp only: of_int_less_iff)
  then have "expo (of_int n) \<le> 23" by (intro expo_le) simp_all
  then have "of_int n * (1 / ulp (of_int n)) = of_int n * of_int (2 ^ nat (23 - expo (of_int n)))"
    by (simp only: ulp_inverse)
  then have q: "of_int n / ulp (of_int n) = of_int (n * 2 ^ nat (23 - expo (of_int n)))" by simp
  have "round_pos (of_int n) = of_int n / ulp (of_int n) * ulp (of_int n)"
    unfolding round_pos_def q by (simp only: round_even_of_int)
  then show ?thesis using n ulp_pos [of "of_int n"] by (simp add: round24_def)
qed

lemma round_even_error: "\<bar>of_int (round_even r) - r\<bar> \<le> 1 / 2"
proof -
  have "of_int \<lfloor>r\<rfloor> \<le> r" "r < of_int \<lfloor>r\<rfloor> + 1" by linarith+
  then show ?thesis by (auto simp: round_even_def Let_def)
qed

lemma round_pos_error: "\<bar>round_pos x - x\<bar> \<le> ulp x / 2"
proof -
  have "round_pos x - x = (of_int (round_even (x / ulp x)) - x / ulp x) * ulp x"
    using ulp_pos [of x] by (simp add: round_pos_def field_simps)
  then have "\<bar>round_pos x - x\<bar> = \<bar>of_int (round_even (x / ulp x)) - x / ulp x\<bar> * ulp x"
    using ulp_pos [of x] by (simp add: abs_mult)
  also have "\<dots> \<le> 1 / 2 * ulp x"
    using round_even_error ulp_pos [of x] by (intro mult_right_mono) simp_all
  finally show ?thesis by simp
qed

text \<open>
  The rounded quotient of a non-negative number by an integer does not reach an integer that the exact
  quotient does not reach: cutting a range into cells of an integral width is exact.
\<close>

lemma multiple_gap:
  assumes v: "round24 v = v" "0 \<le> v" "v < 2 ^ 24" and m: "v < of_int m"
  shows "v + ulp v \<le> of_int m"
proof -
  have "expo v \<le> 23" using v(3) by (intro expo_le) simp_all
  from ulp_inverse [OF this] obtain p :: int where p: "1 / ulp v = of_int p" by blast
  then have pu: "of_int p * ulp v = 1" using ulp_pos [of v] by (simp add: field_simps)
  have "v = of_int (round_even (v / ulp v)) * ulp v" using v by (simp add: round24_def round_pos_def)
  then obtain n :: int where n: "v = of_int n * ulp v" by blast
  have "of_int n * ulp v < of_int m * (of_int p * ulp v)" using m n pu by simp
  then have "rat_of_int n < of_int (m * p)" using ulp_pos [of v] by (simp add: mult.assoc [symmetric])
  then have "n + 1 \<le> m * p" by (simp only: of_int_less_iff zless_imp_add1_zle)
  then have "rat_of_int (n + 1) \<le> of_int (m * p)" by (simp only: of_int_le_iff)
  then have "of_int (n + 1) * ulp v \<le> of_int (m * p) * ulp v"
    using ulp_pos [of v] by (intro mult_right_mono) simp_all
  moreover have "of_int (m * p) * ulp v = of_int m" using pu by (simp add: mult.assoc)
  moreover have "of_int (n + 1) * ulp v = v + ulp v" using n by (simp add: distrib_right)
  ultimately show ?thesis by (simp only:)
qed

lemma round24_div_less:
  assumes v: "round24 v = v" "0 \<le> v" "v < 2 ^ 24" and w: "0 < w" and k: "1 \<le> k"
    and less: "v < of_int (w * k)"
  shows "round24 (v / of_int w) < of_int k"
proof (cases "v / of_int w \<le> 1 / 2")
  case True
  let ?y = "v / rat_of_int w"
  have "?y < 1" using True by linarith
  then have "?y < 2 powi (- 1 + 1)" by simp
  then have "expo ?y \<le> - 1" by (rule expo_le) simp
  then have "round_pos ?y \<le> 2 powi (- 1)" using True by (intro round_pos_le_power) simp_all
  moreover have "\<not> ?y < 0" using v(2) w by (simp add: not_less)
  then have "round24 ?y = round_pos ?y" by (simp add: round24_def)
  ultimately show ?thesis using k by (simp add: power_int_minus)
next
  case False
  let ?y = "v / rat_of_int w"
  have w': "0 < rat_of_int w" using w by simp
  have y: "2 powi (- 1) \<le> ?y" using False by (simp add: power_int_minus)
  have "1 \<le> rat_of_int w" using w by simp
  then have "?y \<le> v / 1" using v(2) by (intro divide_left_mono) simp_all
  then have yv: "?y \<le> v" by simp
  have big: "v < 2 powi 128" using v(3) by simp
  have ey: "2 powi (expo ?y) \<le> ?y" using expo_normal [OF y] yv big by simp
  have "2 powi (- 1) \<le> v" using y yv by linarith
  from expo_normal [OF this] have ev: "v < 2 powi (expo v + 1)" using big by simp
  have "v + ulp v \<le> of_int (w * k)" by (rule multiple_gap [OF v less])
  then have gap: "?y + ulp v / of_int w \<le> of_int k" using w' by (simp add: field_simps)
  have "of_int w * 2 powi (expo ?y) \<le> v" using ey w' by (simp add: field_simps)
  then have "rat_of_int w * 2 powi (expo ?y) < 2 * 2 powi (expo v)"
    using ev by (simp add: power_int_add)
  then have "of_int w * ulp ?y < 2 * ulp v"
    by (simp add: ulp_def power_int_diff divide_strict_right_mono)
  then have "ulp ?y / 2 < ulp v / of_int w" using w' by (simp add: field_simps)
  then have "round_pos ?y < of_int k" using round_pos_error [of ?y] gap by linarith
  moreover have "\<not> ?y < 0" using v(2) w by (simp add: not_less)
  ultimately show ?thesis by (simp add: round24_def)
qed

lemma floor_round24_div:
  assumes v: "round24 v = v" "0 \<le> v" "v < 2 ^ 24" and w: "0 < w"
  shows "\<lfloor>round24 (v / of_int w)\<rfloor> = \<lfloor>v / of_int w\<rfloor>"
proof -
  define k where "k = \<lfloor>v / of_int w\<rfloor>"
  have w1: "1 \<le> rat_of_int w" using w by simp
  have k: "of_int k \<le> v / of_int w" "v / of_int w < of_int k + 1" unfolding k_def by linarith+
  have k0: "0 \<le> k" unfolding k_def using v w by simp
  have "v / of_int w \<le> v / 1" using v(2) w1 by (intro divide_left_mono) simp_all
  then have "rat_of_int k < of_int (2 ^ 24)" using k(1) v(3) by simp
  then have "k < 2 ^ 24" by (simp only: of_int_less_iff)
  then have "of_int k \<le> round24 (v / of_int w)" using round24_mono [OF k(1)] round24_int [OF k0] by simp
  moreover have "round24 (v / of_int w) < of_int (k + 1)"
    using k(2) k0 w by (intro round24_div_less [OF v w]) (simp_all add: field_simps)
  ultimately show ?thesis unfolding k_def [symmetric] by (intro floor_unique) simp_all
qed

lemma to_float32_rep: "round24 v = v \<Longrightarrow> 0 \<le> v \<Longrightarrow> v < 2 ^ 24 \<Longrightarrow> to_float32 v = Fin v"
  by (simp add: to_float32_def)

lemma to_float32_int: "0 \<le> n \<Longrightarrow> n < 2 ^ 24 \<Longrightarrow> to_float32 (of_int n) = Fin (of_int n)"
proof -
  assume n: "0 \<le> n" "n < 2 ^ 24"
  then have "rat_of_int n < of_int (2 ^ 24)" by (simp only: of_int_less_iff)
  then show ?thesis using round24_int [OF n] n(1) by (intro to_float32_rep) simp_all
qed

end
