(* ===== verification/Aoi_Grid.thy ===== *)
theory Aoi_Grid
  imports Float32 "HOL-Library.AList"
begin

text \<open>
  The area-of-interest grid of \<^verbatim>\<open>src/pkg/aoi/aoi.go\<close>. An entity is an interface value, whose methods read
  state that lives elsewhere: \<open>'e\<close> is the type of the references, and the methods are a record of
  functions. A map is an association list; the order in which the code visits a map is that of the
  list, and the theorems do not depend on it. A grid is named by its place in the table, which never
  changes. Ranges whose upper end is the largest \<^verbatim>\<open>int\<close>, where the loops of the code would not
  end, are outside of the model.
\<close>

section \<open>Data\<close>

record 'e Entity =
  GetID :: "'e \<Rightarrow> string"
  GetPosition :: "'e \<Rightarrow> float32 \<times> float32 \<times> float32"
  GetTypeID :: "'e \<Rightarrow> int"

record GridPos =
  X :: int
  Y :: int

record 'e Grid =
  gridPos :: GridPos
  entities :: "(string \<times> 'e) list"
  playerCount :: int

record 'e AOIManager =
  minX :: float32
  maxX :: float32
  minZ :: float32
  maxZ :: float32
  gridWidth :: float32
  gridCount :: int
  grids :: "'e Grid list list"

datatype aoi_error = OutOfScene

section \<open>Construction\<close>

definition new_grid :: "int \<Rightarrow> int \<Rightarrow> 'e Grid" where
  "new_grid i j = \<lparr>gridPos = \<lparr>X = i, Y = j\<rparr>, entities = [], playerCount = 0\<rparr>"

definition NewAOIManager ::
    "float32 \<Rightarrow> float32 \<Rightarrow> float32 \<Rightarrow> float32 \<Rightarrow> int \<Rightarrow> (aoi_error, 'e AOIManager) go" where
  "NewAOIManager mnX mxX mnZ mxZ count =
     (if count < 0 then Panic
      else Ret \<lparr>minX = mnX, maxX = mxX, minZ = mnZ, maxZ = mxZ,
        gridWidth = fdiv (fsub mxX mnX) (float_of_int count), gridCount = count,
        grids = map (\<lambda>i. map (\<lambda>j. new_grid i j) [0..count - 1]) [0..count - 1]\<rparr>)"

section \<open>Looking up grids\<close>

definition grid_at :: "'e AOIManager \<Rightarrow> int \<Rightarrow> int \<Rightarrow> (aoi_error, 'e Grid) go" where
  "grid_at m i j = go_bind (go_index (grids m) i) (\<lambda>row. go_index row j)"

definition out_of_scene :: "'e AOIManager \<Rightarrow> float32 \<Rightarrow> float32 \<Rightarrow> bool" where
  "out_of_scene m x z \<longleftrightarrow>
     fless x (minX m) \<or> fle (maxX m) x \<or> fless z (minZ m) \<or> fle (maxZ m) z"

definition cell_index :: "'e AOIManager \<Rightarrow> float32 \<Rightarrow> float32 \<Rightarrow> int" where
  "cell_index m low v =
     (let i = int_of_float (fdiv (fsub v low) (gridWidth m))
      in if gridCount m \<le> i then gridCount m - 1 else i)"

definition GetGridPosition :: "'e AOIManager \<Rightarrow> float32 \<Rightarrow> float32 \<Rightarrow> (aoi_error, GridPos) go" where
  "GetGridPosition m x z =
     (if out_of_scene m x z then Fail OutOfScene
      else Ret \<lparr>X = cell_index m (minX m) x, Y = cell_index m (minZ m) z\<rparr>)"

definition GetGrid :: "'e AOIManager \<Rightarrow> float32 \<Rightarrow> float32 \<Rightarrow> (aoi_error, 'e Grid) go" where
  "GetGrid m x z =
     (if out_of_scene m x z then Fail OutOfScene
      else grid_at m (cell_index m (minX m) x) (cell_index m (minZ m) z))"

definition GetSurroundingGridsByRange :: "'e AOIManager \<Rightarrow> 'e Grid \<Rightarrow> int \<Rightarrow> (aoi_error, 'e Grid list) go" where
  "GetSurroundingGridsByRange m centerGrid r =
     (let cx = X (gridPos centerGrid); cy = Y (gridPos centerGrid);
          places = [(x, y). x \<leftarrow> [wrap64 (cx - r)..wrap64 (cx + r)],
                            y \<leftarrow> [wrap64 (cy - r)..wrap64 (cy + r)],
                            0 \<le> x \<and> x < gridCount m \<and> 0 \<le> y \<and> y < gridCount m]
      in foldr (\<lambda>(x, y) acc. go_bind (grid_at m x y) (\<lambda>g. go_bind acc (\<lambda>gs. Ret (g # gs)))) places (Ret []))"

definition GetSurroundingGrids :: "'e AOIManager \<Rightarrow> float32 \<Rightarrow> float32 \<Rightarrow> int \<Rightarrow> (aoi_error, 'e Grid list) go" where
  "GetSurroundingGrids m x z r =
     go_bind (GetGrid m x z) (\<lambda>centerGrid. GetSurroundingGridsByRange m centerGrid r)"

section \<open>Queries\<close>

definition GetSurroundingEntities ::
    "'e Entity \<Rightarrow> 'e AOIManager \<Rightarrow> float32 \<Rightarrow> float32 \<Rightarrow> int \<Rightarrow> (aoi_error, 'e list) go" where
  "GetSurroundingEntities ent m x z r =
     go_bind (GetSurroundingGrids m x z r) (\<lambda>gs.
       let entityMap = foldl (\<lambda>em g. foldl (\<lambda>em (_, e). AList.update (GetID ent e) e em) em (entities g)) [] gs
       in Ret (map snd entityMap))"

definition in_range :: "'e Entity \<Rightarrow> float32 \<Rightarrow> float32 \<Rightarrow> float32 \<Rightarrow> float32 \<Rightarrow> 'e \<Rightarrow> bool" where
  "in_range ent x y z distance e =
     (let (ex, ey, ez) = GetPosition ent e;
          dx = fsub ex x; dy = fsub ey y; dz = fsub ez z
      in fle (fadd (fadd (fmul dx dx) (fmul dy dy)) (fmul dz dz)) (fmul distance distance))"

definition GetEntitiesByDistance ::
    "'e Entity \<Rightarrow> 'e AOIManager \<Rightarrow> float32 \<Rightarrow> float32 \<Rightarrow> float32 \<Rightarrow> float32 \<Rightarrow> (aoi_error, 'e list) go" where
  "GetEntitiesByDistance ent m x y z distance =
     (let gridRange = int_ceil_of_float (fdiv distance (gridWidth m))
      in go_bind (GetSurroundingEntities ent m x z gridRange) (\<lambda>es.
           Ret (filter (in_range ent x y z distance) es)))"

definition AOI_GetNearbyPlayers :: "'e AOIManager \<Rightarrow> float32 \<Rightarrow> float32 \<Rightarrow> int \<Rightarrow> (aoi_error, int) go" where
  "AOI_GetNearbyPlayers m x z r =
     go_bind (GetSurroundingGrids m x z r) (\<lambda>gs. Ret (foldl (\<lambda>n g. wrap64 (n + playerCount g)) 0 gs))"

definition GetGridSize :: "'e AOIManager \<Rightarrow> int \<times> int" where
  "GetGridSize m = (gridCount m, gridCount m)"

section \<open>Updates\<close>

definition put_grid :: "'e Grid \<Rightarrow> 'e AOIManager \<Rightarrow> 'e AOIManager" where
  "put_grid g m =
     (let i = nat (X (gridPos g)); j = nat (Y (gridPos g))
      in m\<lparr>grids := (grids m)[i := (grids m ! i)[j := g]]\<rparr>)"

definition grid_add :: "'e Entity \<Rightarrow> 'e \<Rightarrow> 'e Grid \<Rightarrow> 'e Grid" where
  "grid_add ent e g =
     (let g = g\<lparr>entities := AList.update (GetID ent e) e (entities g)\<rparr>
      in if GetTypeID ent e = 0 then g\<lparr>playerCount := wrap64 (playerCount g + 1)\<rparr> else g)"

definition grid_remove :: "'e Entity \<Rightarrow> 'e \<Rightarrow> 'e Grid \<Rightarrow> 'e Grid" where
  "grid_remove ent e g =
     (if map_of (entities g) (GetID ent e) = None then g
      else let g = g\<lparr>entities := AList.delete (GetID ent e) (entities g)\<rparr>
           in if GetTypeID ent e = 0 then g\<lparr>playerCount := wrap64 (playerCount g - 1)\<rparr> else g)"

definition AddEntity :: "'e Entity \<Rightarrow> 'e \<Rightarrow> 'e AOIManager \<Rightarrow> 'e AOIManager \<times> (aoi_error, unit) go" where
  "AddEntity ent e m =
     (let (x, _, z) = GetPosition ent e
      in with_recv m (GetGrid m x z) (\<lambda>g. (put_grid (grid_add ent e g) m, Ret ())))"

definition RemoveEntity :: "'e Entity \<Rightarrow> 'e \<Rightarrow> 'e AOIManager \<Rightarrow> 'e AOIManager \<times> (aoi_error, unit) go" where
  "RemoveEntity ent e m =
     (let (x, _, z) = GetPosition ent e
      in with_recv m (GetGrid m x z) (\<lambda>g. (put_grid (grid_remove ent e g) m, Ret ())))"

definition UpdateEntity ::
    "'e Entity \<Rightarrow> 'e \<Rightarrow> float32 \<Rightarrow> float32 \<Rightarrow> 'e AOIManager \<Rightarrow> 'e AOIManager \<times> (aoi_error, unit) go" where
  "UpdateEntity ent e oldX oldZ m =
     (let (newX, _, newZ) = GetPosition ent e
      in with_recv m (GetGrid m oldX oldZ) (\<lambda>oldGrid.
         with_recv m (GetGrid m newX newZ) (\<lambda>newGrid.
         if gridPos oldGrid = gridPos newGrid then (m, Ret ())
         else (put_grid (grid_add ent e newGrid) (put_grid (grid_remove ent e oldGrid) m), Ret ()))))"

section \<open>The shape of the table\<close>

definition on_table :: "'e AOIManager \<Rightarrow> int \<Rightarrow> int \<Rightarrow> bool" where
  "on_table m i j \<longleftrightarrow> 0 \<le> i \<and> i < gridCount m \<and> 0 \<le> j \<and> j < gridCount m"

definition grid :: "'e AOIManager \<Rightarrow> int \<Rightarrow> int \<Rightarrow> 'e Grid" where
  "grid m i j = grids m ! nat i ! nat j"

definition shape :: "'e AOIManager \<Rightarrow> bool" where
  "shape m \<longleftrightarrow> 0 < gridCount m \<and> gridCount m < 2 ^ 62 \<and> int (length (grids m)) = gridCount m
     \<and> (\<forall>i < length (grids m). int (length (grids m ! i)) = gridCount m)
     \<and> (\<forall>i j. on_table m i j \<longrightarrow> gridPos (grid m i j) = \<lparr>X = i, Y = j\<rparr>)"

definition scene_ok :: "'e AOIManager \<Rightarrow> bool" where
  "scene_ok m \<longleftrightarrow> (\<exists>w. gridWidth m = Fin w \<and> 0 < w
     \<and> (\<exists>l h d q. minX m = Fin l \<and> maxX m = Fin h \<and> fsub (Fin h) (Fin l) = Fin d
          \<and> fdiv (Fin d) (Fin w) = Fin q \<and> q < 2 ^ 63)
     \<and> (\<exists>l h d q. minZ m = Fin l \<and> maxZ m = Fin h \<and> fsub (Fin h) (Fin l) = Fin d
          \<and> fdiv (Fin d) (Fin w) = Fin q \<and> q < 2 ^ 63))"

lemma shape_bounds:
  assumes "shape m" and "on_table m i j"
  shows "nat i < length (grids m)" and "nat j < length (grids m ! nat i)"
proof -
  show i: "nat i < length (grids m)" using assms unfolding shape_def on_table_def by linarith
  have "int (length (grids m ! nat i)) = gridCount m" using assms(1) i by (simp add: shape_def)
  then show "nat j < length (grids m ! nat i)" using assms(2) unfolding on_table_def by linarith
qed

lemma grid_at_on_table:
  assumes "shape m" shows "grid_at m i j = (if on_table m i j then Ret (grid m i j) else Panic)"
proof (cases "0 \<le> i \<and> i < gridCount m")
  case True
  then have "int (length (grids m ! nat i)) = gridCount m" "int (length (grids m)) = gridCount m"
    using assms by (auto simp: shape_def)
  then show ?thesis using True by (auto simp: grid_at_def go_index_def on_table_def grid_def)
next
  case False
  then show ?thesis using assms by (auto simp: grid_at_def go_index_def on_table_def shape_def)
qed

lemma grid_put:
  assumes sh: "shape m" and on: "on_table m i j" and g: "gridPos g = \<lparr>X = i, Y = j\<rparr>"
    and ab: "on_table m a b"
  shows "grid (put_grid g m) a b = (if a = i \<and> b = j then g else grid m a b)"
proof -
  have bounds: "nat i < length (grids m)" "nat j < length (grids m ! nat i)"
    using shape_bounds [OF sh on] by auto
  have eq: "nat a = nat i \<longleftrightarrow> a = i" "nat b = nat j \<longleftrightarrow> b = j"
    using on ab by (auto simp: on_table_def)
  show ?thesis using bounds eq
    by (cases "a = i"; cases "b = j") (simp_all add: grid_def put_grid_def g Let_def)
qed

lemma put_fields [simp]:
  "gridCount (put_grid g m) = gridCount m" "gridWidth (put_grid g m) = gridWidth m"
  "minX (put_grid g m) = minX m" "maxX (put_grid g m) = maxX m"
  "minZ (put_grid g m) = minZ m" "maxZ (put_grid g m) = maxZ m"
  "on_table (put_grid g m) i j = on_table m i j"
  by (simp_all add: put_grid_def Let_def on_table_def)

lemma shape_put:
  assumes sh: "shape m" and on: "on_table m i j" and g: "gridPos g = \<lparr>X = i, Y = j\<rparr>"
  shows "shape (put_grid g m)"
proof -
  have "int (length (grids (put_grid g m) ! k)) = gridCount m" if "k < length (grids m)" for k
    using that sh by (cases "k = nat i") (auto simp: put_grid_def g shape_def Let_def)
  moreover have "length (grids (put_grid g m)) = length (grids m)" by (simp add: put_grid_def Let_def)
  moreover have "gridPos (grid (put_grid g m) a b) = \<lparr>X = a, Y = b\<rparr>" if "on_table m a b" for a b
    using grid_put [OF sh on g that] that sh g by (auto simp: shape_def)
  ultimately show ?thesis using sh by (simp add: shape_def)
qed

section \<open>Cells of positions\<close>

lemma quotient_index:
  assumes w: "0 < w" and lo: "l \<le> v" and hi: "v \<le> h" and d: "fsub (Fin h) (Fin l) = Fin d"
    and q: "fdiv (Fin d) (Fin w) = Fin q" and small: "q < 2 ^ 63"
  shows "int_of_float (fdiv (fsub (Fin v) (Fin l)) (Fin w)) = \<lfloor>round24 (round24 (v - l) / w)\<rfloor>
    \<and> 0 \<le> round24 (round24 (v - l) / w)"
proof -
  have fin: "b = round24 a \<and> round24 a < 2 ^ 128" if "to_float32 a = Fin b" for a b
    using that unfolding to_float32_def Let_def by (simp split: if_splits)
  have lim: "to_float32 a = Fin (round24 a) \<and> 0 \<le> round24 a \<and> round24 a \<le> c"
    if "0 \<le> a" and "a \<le> b" and "to_float32 b = Fin c" for a b c
  proof -
    have "0 \<le> round24 a" using round24_mono [OF that(1)] by simp
    moreover have "round24 a \<le> c" "c < 2 ^ 128"
      using round24_mono [OF that(2)] fin [OF that(3)] by simp_all
    ultimately show ?thesis by (simp add: to_float32_def)
  qed
  have "to_float32 (h - l) = Fin d" using d by (simp add: fsub_def)
  from lim [OF _ _ this, of "v - l"] lo hi
  have s: "fsub (Fin v) (Fin l) = Fin (round24 (v - l))" "0 \<le> round24 (v - l)" "round24 (v - l) \<le> d"
    by (simp_all add: fsub_def)
  have "to_float32 (d / w) = Fin q" using q w by simp
  moreover have "round24 (v - l) / w \<le> d / w" using s(3) w by (simp add: divide_right_mono)
  ultimately have t: "to_float32 (round24 (v - l) / w) = Fin (round24 (round24 (v - l) / w))"
    "0 \<le> round24 (round24 (v - l) / w)" "round24 (round24 (v - l) / w) \<le> q"
    using lim [of "round24 (v - l) / w"] s(2) w by simp_all
  have "\<lfloor>round24 (round24 (v - l) / w)\<rfloor> < 2 ^ 63" using t(3) small by (simp add: floor_less_iff)
  then show ?thesis using s(1) t w
    by (simp add: rat_trunc_def in_int64_def min_int64_def max_int64_def)
qed

definition in_scene :: "'e AOIManager \<Rightarrow> float32 \<times> float32 \<times> float32 \<Rightarrow> bool" where
  "in_scene m = (\<lambda>(x, _, z). \<not> out_of_scene m x z \<and> x \<noteq> NaN \<and> z \<noteq> NaN)"

definition cell_of :: "'e AOIManager \<Rightarrow> float32 \<times> float32 \<times> float32 \<Rightarrow> int \<times> int" where
  "cell_of m = (\<lambda>(x, _, z). (cell_index m (minX m) x, cell_index m (minZ m) z))"

lemma float_between:
  assumes "\<not> fless x (Fin l)" and "\<not> fle (Fin h) x" and "x \<noteq> NaN"
  shows "\<exists>v. x = Fin v \<and> l \<le> v \<and> v < h"
  using assms by (cases x) (auto simp: fle_def)

lemma cell_index_range:
  assumes w: "gridWidth m = Fin w" "0 < w" and d: "fsub (Fin h) (Fin l) = Fin d"
    and q: "fdiv (Fin d) (Fin w) = Fin q" "q < 2 ^ 63" and count: "0 < gridCount m"
    and x: "\<not> fless x (Fin l)" "\<not> fle (Fin h) x" "x \<noteq> NaN"
  shows "0 \<le> cell_index m (Fin l) x \<and> cell_index m (Fin l) x < gridCount m"
proof -
  obtain v where v: "x = Fin v" "l \<le> v" "v < h" using float_between [OF x] by blast
  have "0 \<le> int_of_float (fdiv (fsub x (Fin l)) (gridWidth m))"
    using quotient_index [OF w(2) v(2) _ d q, of ] v(1,3) w(1) by simp
  then show ?thesis using count by (simp add: cell_index_def Let_def)
qed

lemma cell_of_on_table:
  assumes "shape m" and sc: "scene_ok m" and pos: "in_scene m p"
  shows "case cell_of m p of (i, j) \<Rightarrow> on_table m i j"
proof -
  obtain x y z where p: "p = (x, y, z)" by (cases p)
  have count: "0 < gridCount m" using assms(1) by (simp add: shape_def)
  obtain w l h d q l' h' d' q' where w: "gridWidth m = Fin w" "0 < w"
    and X: "minX m = Fin l" "maxX m = Fin h" "fsub (Fin h) (Fin l) = Fin d" "fdiv (Fin d) (Fin w) = Fin q" "q < 2 ^ 63"
    and Z: "minZ m = Fin l'" "maxZ m = Fin h'" "fsub (Fin h') (Fin l') = Fin d'" "fdiv (Fin d') (Fin w) = Fin q'"
      "q' < 2 ^ 63"
    using sc unfolding scene_ok_def by blast
  have ins: "\<not> fless x (Fin l)" "\<not> fle (Fin h) x" "x \<noteq> NaN" "\<not> fless z (Fin l')" "\<not> fle (Fin h') z" "z \<noteq> NaN"
    using pos X(1,2) Z(1,2) by (auto simp: in_scene_def out_of_scene_def p)
  show ?thesis
    using cell_index_range [OF w X(3,4,5) count ins(1-3)] cell_index_range [OF w Z(3,4,5) count ins(4-6)]
    by (simp add: cell_of_def p on_table_def X(1) Z(1))
qed

lemma GetGrid_in_scene:
  assumes "shape m" and "scene_ok m" and "in_scene m (x, y, z)"
  shows "GetGrid m x z = Ret (case cell_of m (x, y, z) of (i, j) \<Rightarrow> grid m i j)"
  using cell_of_on_table [OF assms] assms(3) grid_at_on_table [OF assms(1)]
  by (simp add: GetGrid_def in_scene_def cell_of_def)

lemma cell_index_NaN: "gridCount m > 0 \<Longrightarrow> cell_index m low NaN = min_int64"
  by (simp add: cell_index_def fsub_def min_int64_def)

text \<open>A lookup panics on exactly the positions that are not numbers and not rejected by the other
  coordinate.\<close>

lemma GetGrid_Panic_iff:
  assumes "shape m" and "scene_ok m"
  shows "GetGrid m x z = Panic \<longleftrightarrow> \<not> out_of_scene m x z \<and> (x = NaN \<or> z = NaN)"
proof (cases "out_of_scene m x z \<or> x \<noteq> NaN \<and> z \<noteq> NaN")
  case True
  then show ?thesis using GetGrid_in_scene [OF assms, of x undefined z]
    by (auto simp: in_scene_def GetGrid_def)
next
  case False
  have "0 < gridCount m" using assms(1) by (simp add: shape_def)
  then have "\<not> on_table m (cell_index m (minX m) x) (cell_index m (minZ m) z)"
    using False cell_index_NaN [of m] by (auto simp: on_table_def min_int64_def)
  then show ?thesis using False grid_at_on_table [OF assms(1)] by (auto simp: GetGrid_def)
qed

section \<open>Where entities are\<close>

definition players_in :: "'e Entity \<Rightarrow> (string \<times> 'e) list \<Rightarrow> int" where
  "players_in ent es = int (length (filter (\<lambda>(_, e). GetTypeID ent e = 0) es))"

definition grid_rep :: "'e Entity \<Rightarrow> (string \<rightharpoonup> 'e) \<Rightarrow> 'e Grid \<Rightarrow> bool" where
  "grid_rep ent C g \<longleftrightarrow> distinct (map fst (entities g)) \<and> map_of (entities g) = C
     \<and> playerCount g = wrap64 (players_in ent (entities g))"

definition content :: "'e Entity \<Rightarrow> (string \<rightharpoonup> 'e) \<Rightarrow> 'e AOIManager \<Rightarrow> int \<times> int \<Rightarrow> string \<rightharpoonup> 'e" where
  "content ent reg m c k =
     (case reg k of None \<Rightarrow> None | Some e \<Rightarrow> if cell_of m (GetPosition ent e) = c then Some e else None)"

definition placed :: "'e Entity \<Rightarrow> (string \<rightharpoonup> 'e) \<Rightarrow> 'e AOIManager \<Rightarrow> bool" where
  "placed ent reg m \<longleftrightarrow> shape m \<and> scene_ok m
     \<and> (\<forall>i j. on_table m i j \<longrightarrow> grid_rep ent (content ent reg m (i, j)) (grid m i j))
     \<and> (\<forall>k e. reg k = Some e \<longrightarrow> GetID ent e = k \<and> in_scene m (GetPosition ent e))"

lemma update_absent: "k \<notin> fst ` set es \<Longrightarrow> AList.update k v es = es @ [(k, v)]"
  by (induction es) auto

lemma players_in_add:
  "k \<notin> fst ` set es \<Longrightarrow>
   players_in ent (AList.update k e es) = players_in ent es + (if GetTypeID ent e = 0 then 1 else 0)"
  by (simp add: players_in_def update_absent)

lemma players_in_delete:
  "distinct (map fst es) \<Longrightarrow> map_of es k = Some e \<Longrightarrow>
   players_in ent (AList.delete k es) = players_in ent es - (if GetTypeID ent e = 0 then 1 else 0)"
proof (induction es)
  case (Cons p es)
  obtain k' v where p: "p = (k', v)" by (cases p)
  show ?case
  proof (cases "k' = k")
    case True
    then have "AList.delete k es = es" using Cons.prems p by (simp add: delete_idem)
    then show ?thesis using True Cons.prems p by (simp add: players_in_def)
  next
    case False
    then show ?thesis using Cons p by (auto simp: players_in_def)
  qed
qed simp

lemma grid_add_rep:
  assumes "grid_rep ent C g" and "C (GetID ent e) = None"
  shows "grid_rep ent (C(GetID ent e \<mapsto> e)) (grid_add ent e g)"
proof -
  have "map_of (entities g) (GetID ent e) = None" using assms by (simp add: grid_rep_def)
  then have "GetID ent e \<notin> fst ` set (entities g)" by (simp only: map_of_eq_None_iff not_False_eq_True)
  note cnt = players_in_add [OF this, of ent e]
  have "entities (grid_add ent e g) = AList.update (GetID ent e) e (entities g)"
    by (simp add: grid_add_def Let_def)
  moreover have "playerCount (grid_add ent e g) = wrap64 (players_in ent (entities (grid_add ent e g)))"
    using assms(1) cnt by (simp add: grid_add_def Let_def grid_rep_def wrap64_add)
  ultimately show ?thesis using assms(1) by (simp add: grid_rep_def distinct_update update_conv')
qed

lemma grid_remove_rep:
  assumes "grid_rep ent C g" and "C (GetID ent e) = Some e"
  shows "grid_rep ent (C(GetID ent e := None)) (grid_remove ent e g)"
proof -
  have some: "map_of (entities g) (GetID ent e) = Some e" using assms by (simp add: grid_rep_def)
  have cnt: "players_in ent (AList.delete (GetID ent e) (entities g))
      = players_in ent (entities g) - (if GetTypeID ent e = 0 then 1 else 0)"
    using assms(1) some by (intro players_in_delete) (simp_all add: grid_rep_def)
  have "entities (grid_remove ent e g) = AList.delete (GetID ent e) (entities g)"
    using some by (simp add: grid_remove_def Let_def)
  moreover have "playerCount (grid_remove ent e g) = wrap64 (players_in ent (entities (grid_remove ent e g)))"
    using assms(1) cnt some wrap64_add [of "players_in ent (entities g)" "- 1"]
    by (simp add: grid_remove_def Let_def grid_rep_def)
  ultimately show ?thesis using assms(1) by (simp add: grid_rep_def distinct_delete delete_conv')
qed

lemma grid_pos_kept [simp]:
  "gridPos (grid_add ent e g) = gridPos g" "gridPos (grid_remove ent e g) = gridPos g"
  by (simp_all add: grid_add_def grid_remove_def Let_def)

lemma cell_index_put [simp]: "cell_index (put_grid g m) l v = cell_index m l v"
  by (simp add: cell_index_def Let_def)

lemma cell_of_put [simp]: "cell_of (put_grid g m) = cell_of m"
  by (simp add: cell_of_def fun_eq_iff)

lemma scene_put [simp]:
  "scene_ok (put_grid g m) = scene_ok m" "in_scene (put_grid g m) = in_scene m"
  "content ent reg (put_grid g m) = content ent reg m"
  by (simp_all add: scene_ok_def in_scene_def out_of_scene_def content_def fun_eq_iff split: option.split)

lemma placed_in_scene: "placed ent reg m \<Longrightarrow> reg k = Some e \<Longrightarrow> in_scene m (GetPosition ent e)"
  by (simp add: placed_def)

lemma placed_put:
  assumes pl: "placed ent reg m" and on: "on_table m i j" and g: "gridPos g = \<lparr>X = i, Y = j\<rparr>"
    and rep: "grid_rep ent' (content ent' reg' m (i, j)) g"
    and rest: "\<And>a b. on_table m a b \<Longrightarrow> (a, b) \<noteq> (i, j) \<Longrightarrow>
      grid_rep ent' (content ent' reg' m (a, b)) (grid m a b)"
    and reg: "\<And>k e. reg' k = Some e \<Longrightarrow> GetID ent' e = k \<and> in_scene m (GetPosition ent' e)"
  shows "placed ent' reg' (put_grid g m)"
proof -
  have sh: "shape m" and sc: "scene_ok m" using pl by (simp_all add: placed_def)
  show ?thesis using shape_put [OF sh on g] sc grid_put [OF sh on g] rep rest reg
    by (auto simp: placed_def)
qed

text \<open>Adding, removing and moving keep every entity in the grid of its position.\<close>

lemma AddEntity_placed:
  assumes pl: "placed ent reg m" and new: "reg (GetID ent e) = None" and pos: "in_scene m (GetPosition ent e)"
  shows "placed ent (reg(GetID ent e \<mapsto> e)) (fst (AddEntity ent e m)) \<and> snd (AddEntity ent e m) = Ret ()"
proof -
  obtain x y z where p: "GetPosition ent e = (x, y, z)" by (metis prod_cases3)
  obtain i j where c: "cell_of m (x, y, z) = (i, j)" by fastforce
  have sh: "shape m" and sc: "scene_ok m" using pl by (simp_all add: placed_def)
  have on: "on_table m i j" using cell_of_on_table [OF sh sc] pos p c by fastforce
  have get: "GetGrid m x z = Ret (grid m i j)" using GetGrid_in_scene [OF sh sc] pos p c by fastforce
  have gp: "gridPos (grid m i j) = \<lparr>X = i, Y = j\<rparr>" using sh on by (simp add: shape_def)
  have upd: "content ent (reg(GetID ent e \<mapsto> e)) m c' =
      (if c' = (i, j) then (content ent reg m c')(GetID ent e \<mapsto> e) else content ent reg m c')" for c'
    using new p c by (auto simp: content_def fun_eq_iff)
  have "placed ent (reg(GetID ent e \<mapsto> e)) (put_grid (grid_add ent e (grid m i j)) m)"
  proof (rule placed_put [OF pl on])
    show "gridPos (grid_add ent e (grid m i j)) = \<lparr>X = i, Y = j\<rparr>" using gp by simp
    show "grid_rep ent (content ent (reg(GetID ent e \<mapsto> e)) m (i, j)) (grid_add ent e (grid m i j))"
      using pl on new unfolding upd by (simp add: grid_add_rep placed_def content_def)
  next
    fix a b assume "on_table m a b" and "(a, b) \<noteq> (i, j)"
    then show "grid_rep ent (content ent (reg(GetID ent e \<mapsto> e)) m (a, b)) (grid m a b)"
      using pl unfolding upd by (auto simp: placed_def)
  next
    fix k f assume "(reg(GetID ent e \<mapsto> e)) k = Some f"
    then show "GetID ent f = k \<and> in_scene m (GetPosition ent f)"
      using pl pos by (auto simp: placed_def split: if_splits)
  qed
  then show ?thesis using get p by (simp add: AddEntity_def)
qed

lemma RemoveEntity_placed:
  assumes pl: "placed ent reg m" and old: "reg (GetID ent e) = Some e"
  shows "placed ent (reg(GetID ent e := None)) (fst (RemoveEntity ent e m)) \<and> snd (RemoveEntity ent e m) = Ret ()"
proof -
  obtain x y z where p: "GetPosition ent e = (x, y, z)" by (metis prod_cases3)
  obtain i j where c: "cell_of m (x, y, z) = (i, j)" by fastforce
  have sh: "shape m" and sc: "scene_ok m" using pl by (simp_all add: placed_def)
  have pos: "in_scene m (x, y, z)" using placed_in_scene [OF pl old] p by simp
  have on: "on_table m i j" using cell_of_on_table [OF sh sc pos] c by simp
  have get: "GetGrid m x z = Ret (grid m i j)" using GetGrid_in_scene [OF sh sc pos] c by simp
  have gp: "gridPos (grid m i j) = \<lparr>X = i, Y = j\<rparr>" using sh on by (simp add: shape_def)
  have upd: "content ent (reg(GetID ent e := None)) m c' = (content ent reg m c')(GetID ent e := None)" for c'
    by (auto simp: content_def fun_eq_iff)
  have here: "content ent reg m (i, j) (GetID ent e) = Some e" using old p c by (simp add: content_def)
  have "placed ent (reg(GetID ent e := None)) (put_grid (grid_remove ent e (grid m i j)) m)"
  proof (rule placed_put [OF pl on])
    show "gridPos (grid_remove ent e (grid m i j)) = \<lparr>X = i, Y = j\<rparr>" using gp by simp
    show "grid_rep ent (content ent (reg(GetID ent e := None)) m (i, j)) (grid_remove ent e (grid m i j))"
      using pl on here unfolding upd by (simp add: grid_remove_rep placed_def)
  next
    fix a b assume ab: "on_table m a b" "(a, b) \<noteq> (i, j)"
    then have "content ent reg m (a, b) (GetID ent e) = None" using old p c by (auto simp: content_def)
    then have "(content ent reg m (a, b))(GetID ent e := None) = content ent reg m (a, b)" by (rule fun_upd_idem)
    then show "grid_rep ent (content ent (reg(GetID ent e := None)) m (a, b)) (grid m a b)"
      using pl ab(1) unfolding upd by (simp add: placed_def)
  next
    fix k f assume "(reg(GetID ent e := None)) k = Some f"
    then show "GetID ent f = k \<and> in_scene m (GetPosition ent f)"
      using pl by (auto simp: placed_def split: if_splits)
  qed
  then show ?thesis using get p by (simp add: RemoveEntity_def)
qed

lemma content_moved:
  assumes reg: "reg (GetID ent e) = Some e" and ids: "\<And>k f. reg k = Some f \<Longrightarrow> GetID ent f = k"
    and same: "\<And>f. f \<noteq> e \<Longrightarrow> GetPosition ent' f = GetPosition ent f"
  shows "content ent' reg m c = (content ent reg m c)
    (GetID ent e := if cell_of m (GetPosition ent' e) = c then Some e else None)"
proof
  fix k
  show "content ent' reg m c k = ((content ent reg m c)
    (GetID ent e := if cell_of m (GetPosition ent' e) = c then Some e else None)) k"
  proof (cases "k = GetID ent e")
    case True
    then show ?thesis using reg by (simp add: content_def)
  next
    case False
    show ?thesis
    proof (cases "reg k")
      case None
      then show ?thesis using False by (simp add: content_def)
    next
      case (Some f)
      then have "f \<noteq> e" using False ids [OF Some] by auto
      then show ?thesis using False Some same [of f] by (simp add: content_def)
    qed
  qed
qed

lemma grid_rep_types: "GetTypeID ent' = GetTypeID ent \<Longrightarrow> grid_rep ent' C g = grid_rep ent C g"
  by (simp add: grid_rep_def players_in_def)

lemma UpdateEntity_placed:
  assumes pl: "placed ent reg m" and reg: "reg (GetID ent e) = Some e"
    and same: "\<And>f. f \<noteq> e \<Longrightarrow> GetPosition ent' f = GetPosition ent f"
    and ids: "GetID ent' = GetID ent" and types: "GetTypeID ent' = GetTypeID ent"
    and old: "GetPosition ent e = (ox, oy, oz)" and pos: "in_scene m (GetPosition ent' e)"
  shows "placed ent' reg (fst (UpdateEntity ent' e ox oz m)) \<and> snd (UpdateEntity ent' e ox oz m) = Ret ()"
proof -
  obtain x y z where p: "GetPosition ent' e = (x, y, z)" by (metis prod_cases3)
  obtain i j where c: "cell_of m (x, y, z) = (i, j)" by fastforce
  obtain a b where oc: "cell_of m (ox, oy, oz) = (a, b)" by fastforce
  have sh: "shape m" and sc: "scene_ok m" using pl by (simp_all add: placed_def)
  have opos: "in_scene m (ox, oy, oz)" using placed_in_scene [OF pl reg] old by simp
  have npos: "in_scene m (x, y, z)" using pos p by simp
  have on: "on_table m i j" "on_table m a b"
    using cell_of_on_table [OF sh sc npos] c cell_of_on_table [OF sh sc opos] oc by simp_all
  have get: "GetGrid m x z = Ret (grid m i j)" "GetGrid m ox oz = Ret (grid m a b)"
    using GetGrid_in_scene [OF sh sc npos] c GetGrid_in_scene [OF sh sc opos] oc by simp_all
  have gp: "gridPos (grid m i j) = \<lparr>X = i, Y = j\<rparr>" "gridPos (grid m a b) = \<lparr>X = a, Y = b\<rparr>"
    using sh on by (simp_all add: shape_def)
  have pid: "\<And>k f. reg k = Some f \<Longrightarrow> GetID ent f = k" using pl by (simp add: placed_def)
  have moved: "content ent' reg m q = (content ent reg m q)(GetID ent e := if (i, j) = q then Some e else None)" for q
    using content_moved [of reg ent e ent' m q, OF reg pid same] p c by simp
  have rep: "grid_rep ent (content ent reg m (u, v)) (grid m u v)" if "on_table m u v" for u v
    using pl that by (simp add: placed_def)
  have was: "content ent reg m (u, v) (GetID ent e) = (if (a, b) = (u, v) then Some e else None)" for u v
    using reg old oc by (simp add: content_def)
  have at_new: "\<And>k f. reg k = Some f \<Longrightarrow> GetID ent' f = k \<and> in_scene m (GetPosition ent' f)"
  proof -
    fix k f assume f: "reg k = Some f"
    have "in_scene m (GetPosition ent' f)"
      using placed_in_scene [OF pl f] pos same [of f] by (cases "f = e") simp_all
    then show "GetID ent' f = k \<and> in_scene m (GetPosition ent' f)" using pid [OF f] ids by simp
  qed
  show ?thesis
  proof (cases "(a, b) = (i, j)")
    case True
    have "content ent' reg m (u, v) = content ent reg m (u, v)" for u v
      unfolding moved using was [of u v] True by (intro fun_upd_idem) simp
    then have "placed ent' reg m" using sh sc rep at_new grid_rep_types [OF types] by (simp add: placed_def)
    then show ?thesis using True get gp p by (simp add: UpdateEntity_def)
  next
    case False
    define m1 where "m1 = put_grid (grid_remove ent' e (grid m a b)) m"
    have rem: "grid_rep ent' ((content ent reg m (a, b))(GetID ent e := None)) (grid_remove ent' e (grid m a b))"
      using grid_remove_rep [of ent' "content ent reg m (a, b)" "grid m a b" e] rep [OF on(2)] was [of a b]
        ids grid_rep_types [OF types] by simp
    have add: "grid_rep ent' ((content ent reg m (i, j))(GetID ent e \<mapsto> e)) (grid_add ent' e (grid m i j))"
      using grid_add_rep [of ent' "content ent reg m (i, j)" "grid m i j" e] rep [OF on(1)] was [of i j]
        False ids grid_rep_types [OF types] by simp
    have sh1: "shape m1" unfolding m1_def using shape_put [OF sh on(2)] gp(2) by simp
    have g1: "grid m1 u v = (if u = a \<and> v = b then grid_remove ent' e (grid m a b) else grid m u v)"
      if "on_table m u v" for u v
      unfolding m1_def using grid_put [OF sh on(2) _ that] gp(2) by simp
    have on1: "on_table m1 = on_table m" by (simp add: m1_def fun_eq_iff)
    have g2: "grid (put_grid (grid_add ent' e (grid m i j)) m1) u v =
        (if u = i \<and> v = j then grid_add ent' e (grid m i j) else grid m1 u v)" if "on_table m u v" for u v
      using grid_put [OF sh1, of i j _ u v] on1 that on(1) gp(1) by simp
    have "shape (put_grid (grid_add ent' e (grid m i j)) m1)"
      using shape_put [OF sh1, of i j] on1 on(1) gp(1) by simp
    moreover have "grid_rep ent' (content ent' reg m (u, v)) (grid (put_grid (grid_add ent' e (grid m i j)) m1) u v)"
      if uv: "on_table m u v" for u v
    proof -
      consider "(u, v) = (i, j)" | "(u, v) = (a, b)" "(u, v) \<noteq> (i, j)" | "(u, v) \<noteq> (i, j)" "(u, v) \<noteq> (a, b)"
        by blast
      then show ?thesis
      proof cases
        case 1
        then show ?thesis using g2 [OF uv] add by (simp add: moved)
      next
        case 2
        then show ?thesis using g2 [OF uv] g1 [OF uv] rem by (auto simp: moved)
      next
        case 3
        then have "content ent' reg m (u, v) = content ent reg m (u, v)"
          unfolding moved using was [of u v] by (intro fun_upd_idem) auto
        moreover have "grid (put_grid (grid_add ent' e (grid m i j)) m1) u v = grid m u v"
          using 3 g2 [OF uv] g1 [OF uv] by auto
        ultimately show ?thesis using rep [OF uv] grid_rep_types [OF types] by simp
      qed
    qed
    ultimately have "placed ent' reg (put_grid (grid_add ent' e (grid m i j)) m1)"
      using sc at_new by (simp add: placed_def m1_def)
    moreover have "gridPos (grid m a b) \<noteq> gridPos (grid m i j)" using False gp by simp
    ultimately show ?thesis using get p by (simp add: UpdateEntity_def m1_def)
  qed
qed

section \<open>Queries find what is near\<close>

definition near_cells :: "'e AOIManager \<Rightarrow> int \<Rightarrow> int \<Rightarrow> int \<Rightarrow> (int \<times> int) list" where
  "near_cells m i j r = [(x, y). x \<leftarrow> [i - r..i + r], y \<leftarrow> [j - r..j + r],
     0 \<le> x \<and> x < gridCount m \<and> 0 \<le> y \<and> y < gridCount m]"

lemma near_cells_set:
  "(x, y) \<in> set (near_cells m i j r) \<longleftrightarrow> on_table m x y \<and> \<bar>x - i\<bar> \<le> r \<and> \<bar>y - j\<bar> \<le> r"
  by (auto simp: near_cells_def on_table_def)

lemma distinct_near_cells: "distinct (near_cells m i j r)"
proof -
  have row: "[(x, y). y \<leftarrow> ys, P x y] = filter (case_prod P) (map (Pair x) ys)" for x P and ys :: "int list"
    by (induction ys) simp_all
  have "[(x, y). x \<leftarrow> xs, y \<leftarrow> ys, P x y] = filter (case_prod P) (List.product xs ys)"
    for P and xs ys :: "int list"
    by (induction xs) (simp_all add: row)
  then show ?thesis unfolding near_cells_def by (simp add: distinct_product)
qed

lemma collect_grids:
  assumes "shape m" and "\<And>x y. (x, y) \<in> set ps \<Longrightarrow> on_table m x y"
  shows "foldr (\<lambda>(x, y) acc. go_bind (grid_at m x y) (\<lambda>g. go_bind acc (\<lambda>gs. Ret (g # gs)))) ps (Ret [])
    = Ret (map (\<lambda>(x, y). grid m x y) ps)"
  using assms(2)
proof (induction ps)
  case (Cons p ps)
  obtain x y where p: "p = (x, y)" by (cases p)
  have "on_table m x y" using Cons.prems p by simp
  then show ?case using Cons p grid_at_on_table [OF assms(1)] by simp
qed simp

lemma surrounding_grids:
  assumes sh: "shape m" and on: "on_table m i j" and r: "0 \<le> r" "r < 2 ^ 62"
  shows "GetSurroundingGridsByRange m (grid m i j) r = Ret (map (\<lambda>(x, y). grid m x y) (near_cells m i j r))"
proof -
  have pos: "gridPos (grid m i j) = \<lparr>X = i, Y = j\<rparr>" using sh on by (simp add: shape_def)
  have small: "0 \<le> i" "i < 2 ^ 62" "0 \<le> j" "j < 2 ^ 62" using sh on by (auto simp: shape_def on_table_def)
  have wrap: "wrap64 (i - r) = i - r" "wrap64 (i + r) = i + r" "wrap64 (j - r) = j - r" "wrap64 (j + r) = j + r"
    using small r by (auto intro!: wrap64_id simp: min_int64_def max_int64_def)
  show ?thesis unfolding GetSurroundingGridsByRange_def Let_def pos
    using collect_grids [OF sh, of "near_cells m i j r"] near_cells_set [of _ _ m i j r]
    by (simp add: wrap near_cells_def)
qed

lemma grid_entries:
  assumes "placed ent reg m" and "on_table m i j"
  shows "(k, e) \<in> set (entities (grid m i j)) \<longleftrightarrow> reg k = Some e \<and> cell_of m (GetPosition ent e) = (i, j)"
proof -
  have "grid_rep ent (content ent reg m (i, j)) (grid m i j)" using assms by (simp add: placed_def)
  then have "distinct (map fst (entities (grid m i j)))"
    and "map_of (entities (grid m i j)) k = content ent reg m (i, j) k"
    by (simp_all add: grid_rep_def)
  then have "(k, e) \<in> set (entities (grid m i j)) \<longleftrightarrow> content ent reg m (i, j) k = Some e"
    by (metis map_of_eq_Some_iff)
  then show ?thesis by (auto simp: content_def split: option.splits if_splits)
qed

lemma entity_map:
  assumes "\<And>k e. (k, e) \<in> set es \<Longrightarrow> reg k = Some e" and "\<And>k e. reg k = Some e \<Longrightarrow> GetID ent e = k"
    and "distinct (map fst em)" and "\<And>k e. (k, e) \<in> set em \<Longrightarrow> reg k = Some e"
  shows "distinct (map fst (foldl (\<lambda>em (_, e). AList.update (GetID ent e) e em) em es))
    \<and> set (foldl (\<lambda>em (_, e). AList.update (GetID ent e) e em) em es) = set em \<union> set es"
  using assms(1,3,4)
proof (induction es arbitrary: em)
  case (Cons p es)
  obtain k e where p: "p = (k, e)" by (cases p)
  have k: "reg k = Some e" "GetID ent e = k" using Cons.prems(1) assms(2) p by auto
  let ?em = "AList.update k e em"
  have d: "distinct (map fst ?em)" using Cons.prems(2) by (rule distinct_update)
  have "(k', e') \<in> set ?em \<longleftrightarrow> (k', e') \<in> insert (k, e) (set em)" for k' e'
  proof -
    have "(k', e') \<in> set ?em \<longleftrightarrow> map_of ?em k' = Some e'" using d by simp
    also have "\<dots> \<longleftrightarrow> (if k' = k then e' = e else map_of em k' = Some e')" by (auto simp: update_conv')
    also have "\<dots> \<longleftrightarrow> (if k' = k then e' = e else (k', e') \<in> set em)" using Cons.prems(2) by simp
    also have "\<dots> \<longleftrightarrow> (k', e') \<in> insert (k, e) (set em)" using Cons.prems(3) k(1) by auto
    finally show ?thesis .
  qed
  then have s: "set ?em = insert (k, e) (set em)" by auto
  have r: "\<And>k' e'. (k', e') \<in> set ?em \<Longrightarrow> reg k' = Some e'" using s Cons.prems(3) k(1) by auto
  show ?case using Cons.IH [of ?em] Cons.prems(1) d r s p k(2) by auto
qed simp

lemma foldl_concat_map: "foldl (\<lambda>a g. foldl f a (h g)) a gs = foldl f a (concat (map h gs))"
  by (induction gs arbitrary: a) simp_all

text \<open>The entities found around a position are exactly those registered in the surrounding grids.\<close>

lemma GetSurroundingEntities_exact:
  assumes pl: "placed ent reg m" and pos: "in_scene m (x, y, z)" and r: "0 \<le> r" "r < 2 ^ 62"
  shows "\<exists>es. GetSurroundingEntities ent m x z r = Ret es \<and> distinct es
    \<and> (\<forall>e. e \<in> set es \<longleftrightarrow> reg (GetID ent e) = Some e
         \<and> \<bar>fst (cell_of m (GetPosition ent e)) - fst (cell_of m (x, y, z))\<bar> \<le> r
         \<and> \<bar>snd (cell_of m (GetPosition ent e)) - snd (cell_of m (x, y, z))\<bar> \<le> r)"
proof -
  obtain i j where c: "cell_of m (x, y, z) = (i, j)" by fastforce
  have sh: "shape m" and sc: "scene_ok m" using pl by (simp_all add: placed_def)
  have on: "on_table m i j" using cell_of_on_table [OF sh sc pos] c by simp
  have get: "GetGrid m x z = Ret (grid m i j)" using GetGrid_in_scene [OF sh sc pos] c by simp
  define L where "L = concat (map (\<lambda>(a, b). entities (grid m a b)) (near_cells m i j r))"
  define em where "em = foldl (\<lambda>em (_, e). AList.update (GetID ent e) e em) [] L"
  have pid: "\<And>k e. reg k = Some e \<Longrightarrow> GetID ent e = k" using pl by (simp add: placed_def)
  have mem: "(k, e) \<in> set L \<longleftrightarrow> reg k = Some e \<and>
      (\<exists>a b. (a, b) \<in> set (near_cells m i j r) \<and> cell_of m (GetPosition ent e) = (a, b))" for k e
  proof -
    have "(k, e) \<in> set L \<longleftrightarrow> (\<exists>a b. (a, b) \<in> set (near_cells m i j r) \<and> (k, e) \<in> set (entities (grid m a b)))"
      by (auto simp: L_def)
    also have "\<dots> \<longleftrightarrow> (\<exists>a b. (a, b) \<in> set (near_cells m i j r) \<and> reg k = Some e
        \<and> cell_of m (GetPosition ent e) = (a, b))"
      using grid_entries [OF pl] near_cells_set by blast
    finally show ?thesis by blast
  qed
  have em: "distinct (map fst em)" "set em = set L"
    using entity_map [of L reg ent "[]"] mem pid by (auto simp: em_def)
  have "GetSurroundingEntities ent m x z r = Ret (map snd em)"
    using get surrounding_grids [OF sh on r]
    by (simp add: GetSurroundingEntities_def GetSurroundingGrids_def foldl_concat_map em_def L_def comp_def
        case_prod_beta')
  moreover have "inj_on snd (set em)"
  proof (rule inj_onI)
    fix p q assume pq: "p \<in> set em" "q \<in> set em" "snd p = snd q"
    then have "reg (fst p) = Some (snd p)" "reg (fst q) = Some (snd p)"
      using em(2) mem by (metis prod.collapse)+
    then have "fst p = fst q" using pid by metis
    then show "p = q" using pq(3) by (rule prod_eqI)
  qed
  then have "distinct (map snd em)" using em(1) by (simp add: distinct_map)
  moreover have "e \<in> set (map snd em) \<longleftrightarrow> reg (GetID ent e) = Some e
      \<and> \<bar>fst (cell_of m (GetPosition ent e)) - i\<bar> \<le> r \<and> \<bar>snd (cell_of m (GetPosition ent e)) - j\<bar> \<le> r" for e
  proof -
    have "e \<in> set (map snd em) \<longleftrightarrow> (\<exists>k. (k, e) \<in> set L)" using em(2) by force
    also have "\<dots> \<longleftrightarrow> (GetID ent e, e) \<in> set L" using mem pid by auto
    also have "\<dots> \<longleftrightarrow> reg (GetID ent e) = Some e \<and> cell_of m (GetPosition ent e) \<in> set (near_cells m i j r)"
      unfolding mem by (metis surj_pair)
    finally have *: "e \<in> set (map snd em) \<longleftrightarrow> reg (GetID ent e) = Some e
      \<and> cell_of m (GetPosition ent e) \<in> set (near_cells m i j r)" .
    have "case cell_of m (GetPosition ent e) of (a, b) \<Rightarrow> on_table m a b" if "reg (GetID ent e) = Some e"
      by (rule cell_of_on_table [OF sh sc placed_in_scene [OF pl that]])
    then show ?thesis unfolding * using near_cells_set [of _ _ m i j r] by (auto split: prod.splits)
  qed
  ultimately show ?thesis using c by auto
qed

lemma distinct_concat_disjoint:
  assumes "distinct cs" and "\<And>c. c \<in> set cs \<Longrightarrow> distinct (f c)"
    and "\<And>c d. c \<in> set cs \<Longrightarrow> d \<in> set cs \<Longrightarrow> c \<noteq> d \<Longrightarrow> set (f c) \<inter> set (f d) = {}"
  shows "distinct (concat (map f cs))"
  using assms by (induction cs) (auto simp: disjoint_iff)

lemma wrap64_sum:
  "foldl (\<lambda>n g. wrap64 (n + wrap64 (f g))) (wrap64 a) gs = wrap64 (a + (\<Sum>g\<leftarrow>gs. f g))"
proof (induction gs arbitrary: a)
  case (Cons g gs)
  have "wrap64 (wrap64 a + wrap64 (f g)) = wrap64 (a + f g)"
    using wrap64_add [of a "wrap64 (f g)"] wrap64_add [of "f g" a] by (simp add: add.commute)
  then show ?case using Cons [of "a + f g"] by (simp add: add.assoc)
qed simp

lemma players_in_concat: "players_in ent (concat (map f cs)) = (\<Sum>c\<leftarrow>cs. players_in ent (f c))"
  by (induction cs) (simp_all add: players_in_def)

text \<open>The number of players around a position counts each registered player there once.\<close>

lemma AOI_GetNearbyPlayers_count:
  assumes pl: "placed ent reg m" and pos: "in_scene m (x, y, z)" and r: "0 \<le> r" "r < 2 ^ 62"
  shows "AOI_GetNearbyPlayers m x z r = Ret (wrap64 (int (card {k. \<exists>e. reg k = Some e \<and> GetTypeID ent e = 0
         \<and> \<bar>fst (cell_of m (GetPosition ent e)) - fst (cell_of m (x, y, z))\<bar> \<le> r
         \<and> \<bar>snd (cell_of m (GetPosition ent e)) - snd (cell_of m (x, y, z))\<bar> \<le> r})))"
proof -
  obtain i j where c: "cell_of m (x, y, z) = (i, j)" by fastforce
  have sh: "shape m" and sc: "scene_ok m" using pl by (simp_all add: placed_def)
  have on: "on_table m i j" using cell_of_on_table [OF sh sc pos] c by simp
  have get: "GetGrid m x z = Ret (grid m i j)" using GetGrid_in_scene [OF sh sc pos] c by simp
  let ?cs = "near_cells m i j r"
  let ?f = "\<lambda>(a, b). entities (grid m a b)"
  define L where "L = concat (map ?f ?cs)"
  have rep: "distinct (map fst (entities (grid m a b)))
      \<and> playerCount (grid m a b) = wrap64 (players_in ent (entities (grid m a b)))" if "(a, b) \<in> set ?cs" for a b
    using pl that near_cells_set by (fastforce simp: placed_def grid_rep_def)
  have "foldl (\<lambda>n g. wrap64 (n + playerCount g)) 0 (map (\<lambda>(a, b). grid m a b) ?cs)
      = foldl (\<lambda>n c. wrap64 (n + wrap64 (players_in ent (?f c)))) 0 ?cs"
    unfolding foldl_map by (rule foldl_cong) (use rep in auto)
  also have "\<dots> = wrap64 (players_in ent L)"
    using wrap64_sum [of "\<lambda>c. players_in ent (?f c)" 0 ?cs]
    by (simp add: players_in_concat L_def wrap64_def)
  finally have res: "AOI_GetNearbyPlayers m x z r = Ret (wrap64 (players_in ent L))"
    using get surrounding_grids [OF sh on r] by (simp add: AOI_GetNearbyPlayers_def GetSurroundingGrids_def)
  have mem: "(k, e) \<in> set L \<longleftrightarrow> reg k = Some e \<and> \<bar>fst (cell_of m (GetPosition ent e)) - i\<bar> \<le> r
      \<and> \<bar>snd (cell_of m (GetPosition ent e)) - j\<bar> \<le> r" for k e
  proof -
    have "(k, e) \<in> set L \<longleftrightarrow> (\<exists>a b. (a, b) \<in> set ?cs \<and> (k, e) \<in> set (entities (grid m a b)))"
      by (auto simp: L_def)
    also have "\<dots> \<longleftrightarrow> reg k = Some e \<and> cell_of m (GetPosition ent e) \<in> set ?cs"
      using grid_entries [OF pl] near_cells_set by (metis surj_pair)
    finally have *: "(k, e) \<in> set L \<longleftrightarrow> reg k = Some e \<and> cell_of m (GetPosition ent e) \<in> set ?cs" .
    have "case cell_of m (GetPosition ent e) of (a, b) \<Rightarrow> on_table m a b" if "reg k = Some e"
      by (rule cell_of_on_table [OF sh sc placed_in_scene [OF pl that]])
    then show ?thesis unfolding * using near_cells_set [of _ _ m i j r] by (auto split: prod.splits)
  qed
  have dis: "distinct L" unfolding L_def
  proof (rule distinct_concat_disjoint [OF distinct_near_cells])
    fix q assume q: "q \<in> set ?cs"
    obtain a b where "q = (a, b)" by (cases q)
    then show "distinct (?f q)" using rep [of a b] q by (simp add: distinct_map)
  next
    fix q q' assume qq: "q \<in> set ?cs" "q' \<in> set ?cs" "q \<noteq> q'"
    obtain a b a' b' where eq: "q = (a, b)" "q' = (a', b')" by (metis surj_pair)
    have "on_table m a b" "on_table m a' b'" using qq eq near_cells_set [of _ _ m i j r] by auto
    then have "cell_of m (GetPosition ent e) = q" if "(k, e) \<in> set (?f q)" for k e
      using grid_entries [OF pl] that eq by auto
    moreover have "cell_of m (GetPosition ent e) = q'" if "(k, e) \<in> set (?f q')" for k e
      using grid_entries [OF pl \<open>on_table m a' b'\<close>] that eq by auto
    ultimately show "set (?f q) \<inter> set (?f q') = {}" using qq(3) by fastforce
  qed
  let ?P = "\<lambda>(_, e). GetTypeID ent e = 0"
  have "players_in ent L = int (card (set (filter ?P L)))"
    using dis by (simp add: players_in_def distinct_card [symmetric])
  also have "card (set (filter ?P L)) = card (fst ` set (filter ?P L))"
    using mem by (intro card_image [symmetric]) (auto simp: inj_on_def)
  also have "fst ` set (filter ?P L) = {k. \<exists>e. reg k = Some e \<and> GetTypeID ent e = 0
       \<and> \<bar>fst (cell_of m (GetPosition ent e)) - i\<bar> \<le> r \<and> \<bar>snd (cell_of m (GetPosition ent e)) - j\<bar> \<le> r}"
    using mem by force
  finally show ?thesis using res c by simp
qed

section \<open>Scenes of integral cells\<close>

definition is_float :: "float32 \<Rightarrow> bool" where
  "is_float x \<longleftrightarrow> (\<forall>v. x = Fin v \<longrightarrow> round24 v = v)"

definition integral_scene :: "int \<Rightarrow> 'e AOIManager \<Rightarrow> bool" where
  "integral_scene w m \<longleftrightarrow> 0 < w \<and> 0 < gridCount m \<and> w * gridCount m < 2 ^ 24 \<and> gridWidth m = Fin (of_int w)
     \<and> minX m = Fin 0 \<and> minZ m = Fin 0
     \<and> maxX m = Fin (of_int (w * gridCount m)) \<and> maxZ m = Fin (of_int (w * gridCount m))"

lemma product_bounds: "0 < w \<Longrightarrow> 0 < c \<Longrightarrow> w \<le> w * c \<and> c \<le> w * (c::int)"
  by (simp add: mult_le_cancel_left1 mult_le_cancel_right1)

lemma integral_div:
  assumes "0 < w" and "0 < c" and "w * c < 2 ^ 24"
  shows "fsub (Fin (of_int (w * c))) (Fin 0) = Fin (of_int (w * c))"
    and "fdiv (Fin (of_int (w * c))) (Fin (of_int w)) = Fin (of_int c)"
    and "fdiv (Fin (of_int (w * c))) (float_of_int c) = Fin (of_int w)"
proof -
  have small: "w < 2 ^ 24" "c < 2 ^ 24" "0 \<le> w * c" using product_bounds [OF assms(1,2)] assms by linarith+
  show "fsub (Fin (of_int (w * c))) (Fin 0) = Fin (of_int (w * c))"
    using to_float32_int [OF small(3) assms(3)] by (simp add: fsub_def)
  have "rat_of_int (w * c) / of_int w = of_int c" "rat_of_int (w * c) / of_int c = of_int w"
    using assms by simp_all
  then show "fdiv (Fin (of_int (w * c))) (Fin (of_int w)) = Fin (of_int c)"
    and "fdiv (Fin (of_int (w * c))) (float_of_int c) = Fin (of_int w)"
    using to_float32_int [of c] to_float32_int [of w] small assms by (simp_all add: float_of_int_def)
qed

lemma integral_scene_ok: "integral_scene w m \<Longrightarrow> scene_ok m"
proof -
  assume i: "integral_scene w m"
  then have w: "0 < w" "0 < gridCount m" "w * gridCount m < 2 ^ 24" by (simp_all add: integral_scene_def)
  have "gridCount m < 2 ^ 63" using product_bounds [OF w(1,2)] w(3) by simp
  then have "rat_of_int (gridCount m) < of_int (2 ^ 63)" by (simp only: of_int_less_iff)
  then show ?thesis using i w integral_div [OF w] by (simp add: scene_ok_def integral_scene_def)
qed

lemma integral_cell:
  assumes i: "integral_scene w m" and v: "0 \<le> v" "v < of_int (w * gridCount m)" and rep: "round24 v = v"
  shows "cell_index m (Fin 0) (Fin v) = \<lfloor>v / of_int w\<rfloor>"
proof -
  have w: "0 < w" "0 < gridCount m" "w * gridCount m < 2 ^ 24" "gridWidth m = Fin (of_int w)"
    using i by (simp_all add: integral_scene_def)
  have "rat_of_int (w * gridCount m) < of_int (2 ^ 24)" using w(3) by (simp only: of_int_less_iff)
  then have small: "v < 2 ^ 24" using v(2) by simp
  have "rat_of_int (gridCount m) < of_int (2 ^ 63)"
    using product_bounds [OF w(1,2)] w(3) by (simp only: of_int_less_iff) simp
  then have q: "int_of_float (fdiv (fsub (Fin v) (Fin 0)) (Fin (of_int w))) = \<lfloor>round24 (v / of_int w)\<rfloor>"
    using quotient_index [OF _ v(1) _ integral_div(1) integral_div(2), of w "gridCount m"] w v rep by simp
  have "\<lfloor>v / of_int w\<rfloor> < gridCount m" using v(2) w(1) by (simp add: floor_less_iff pos_divide_less_eq mult.commute)
  then show ?thesis using q floor_round24_div [OF rep v(1) small w(1)] w(4) by (simp add: cell_index_def)
qed

lemma floor_near:
  assumes "0 < w" and "\<bar>u - v\<bar> \<le> of_int (w * n)"
  shows "\<bar>\<lfloor>u / rat_of_int w\<rfloor> - \<lfloor>v / of_int w\<rfloor>\<bar> \<le> n"
proof -
  have le: "\<lfloor>a / rat_of_int w\<rfloor> \<le> \<lfloor>b / of_int w\<rfloor> + n" if "a \<le> b + of_int (w * n)" for a b
  proof -
    have "a / of_int w \<le> (b + of_int (w * n)) / of_int w" using that assms(1) by (simp add: divide_right_mono)
    also have "\<dots> = b / of_int w + of_int n" using assms(1) by (simp add: add_divide_distrib)
    finally have "\<lfloor>a / rat_of_int w\<rfloor> \<le> \<lfloor>b / of_int w + of_int n\<rfloor>" by (rule floor_mono)
    then show ?thesis by simp
  qed
  have "u \<le> v + of_int (w * n)" "v \<le> u + of_int (w * n)" using assms(2) by linarith+
  from le [OF this(1)] le [OF this(2)] show ?thesis by linarith
qed

lemma NewAOIManager_integral:
  assumes w: "0 < w" "0 < c" "w * c < 2 ^ 24"
  shows "\<exists>m. NewAOIManager (Fin 0) (Fin (of_int (w * c))) (Fin 0) (Fin (of_int (w * c))) c = Ret m
    \<and> gridCount m = c \<and> integral_scene w m \<and> placed ent (\<lambda>_. None) m"
proof -
  define m :: "'a AOIManager" where "m = \<lparr>minX = Fin 0, maxX = Fin (of_int (w * c)), minZ = Fin 0,
    maxZ = Fin (of_int (w * c)), gridWidth = Fin (of_int w), gridCount = c,
    grids = map (\<lambda>i. map (\<lambda>j. new_grid i j) [0..c - 1]) [0..c - 1]\<rparr>"
  have new: "NewAOIManager (Fin 0) (Fin (of_int (w * c))) (Fin 0) (Fin (of_int (w * c))) c = Ret m"
    unfolding NewAOIManager_def m_def integral_div [OF w] using w(2) by simp
  have i: "integral_scene w m" using w by (simp add: integral_scene_def m_def)
  have g: "grid m a b = new_grid a b" if "on_table m a b" for a b
  proof -
    have "nat a < length [0..c - 1]" "nat b < length [0..c - 1]" using that by (auto simp: on_table_def m_def)
    then show ?thesis using that by (simp add: grid_def m_def on_table_def)
  qed
  have "c \<le> w * c" using w(1,2) by simp
  then have "c < 2 ^ 62" using w(3) by simp
  then have "shape m" using g w(2) by (auto simp: shape_def new_grid_def) (auto simp: m_def)
  moreover have "grid_rep ent (content ent (\<lambda>_. None) m (a, b)) (grid m a b)" if "on_table m a b" for a b
    using g [OF that] by (simp add: grid_rep_def new_grid_def players_in_def content_def fun_eq_iff wrap64_def)
  ultimately have "placed ent (\<lambda>_. None) m" using integral_scene_ok [OF i] by (simp add: placed_def)
  then show ?thesis using new i by (auto simp: m_def)
qed

definition offset_le :: "rat \<Rightarrow> float32 \<Rightarrow> float32 \<Rightarrow> bool" where
  "offset_le d a b \<longleftrightarrow> (\<exists>u v. a = Fin u \<and> b = Fin v \<and> \<bar>u - v\<bar> \<le> d)"

definition float_pos :: "float32 \<times> float32 \<times> float32 \<Rightarrow> bool" where
  "float_pos = (\<lambda>(x, y, z). is_float x \<and> is_float y \<and> is_float z)"

lemma integral_cell_near:
  assumes i: "integral_scene w m" and ins: "in_scene m (x, y, z)" "in_scene m (x', y', z')"
    and fl: "float_pos (x, y, z)" "float_pos (x', y', z')"
  shows "offset_le (of_int (w * n)) x' x \<Longrightarrow> \<bar>fst (cell_of m (x', y', z')) - fst (cell_of m (x, y, z))\<bar> \<le> n"
    and "offset_le (of_int (w * n)) z' z \<Longrightarrow> \<bar>snd (cell_of m (x', y', z')) - snd (cell_of m (x, y, z))\<bar> \<le> n"
proof -
  have w: "0 < w" "minX m = Fin 0" "minZ m = Fin 0" using i by (simp_all add: integral_scene_def)
  have b: "0 \<le> v \<and> v < of_int (w * gridCount m)"
    if "Fin v \<in> {x, x', z, z'}" for v
    using that ins i by (auto simp: in_scene_def out_of_scene_def integral_scene_def fle_def)
  have c: "cell_index m (Fin 0) (Fin v) = \<lfloor>v / of_int w\<rfloor>" if "Fin v \<in> {x, x', z, z'}" for v
  proof -
    have "round24 v = v" using that fl by (auto simp: float_pos_def is_float_def)
    then show ?thesis using integral_cell [OF i] b [OF that] by blast
  qed
  show "\<bar>fst (cell_of m (x', y', z')) - fst (cell_of m (x, y, z))\<bar> \<le> n" if "offset_le (of_int (w * n)) x' x"
    using that c floor_near [OF w(1)] w(2) by (auto simp: offset_le_def cell_of_def)
  show "\<bar>snd (cell_of m (x', y', z')) - snd (cell_of m (x, y, z))\<bar> \<le> n" if "offset_le (of_int (w * n)) z' z"
    using that c floor_near [OF w(1)] w(3) by (auto simp: offset_le_def cell_of_def)
qed

lemma integral_range:
  assumes "integral_scene w m" and "0 \<le> n" and "w * n < 2 ^ 24"
  shows "int_ceil_of_float (fdiv (Fin (of_int (w * n))) (gridWidth m)) = n"
proof (cases "n = 0")
  case True
  then show ?thesis using assms(1)
    by (simp add: integral_scene_def to_float32_def in_int64_def min_int64_def max_int64_def)
next
  case False
  then have n: "0 < n" "0 < w" using assms by (auto simp: integral_scene_def)
  have "n \<le> w * n" using n by simp
  then have "n < 2 ^ 24" using assms(3) by linarith
  then show ?thesis using assms integral_div(2) [OF n(2,1) assms(3)] n
    by (simp add: integral_scene_def in_int64_def min_int64_def max_int64_def)
qed

text \<open>
  A query by distance returns exactly the registered entities of the surrounding grids that pass the test of the
  code, and the surrounding grids hold every entity that is not further off along either axis.
\<close>

lemma GetEntitiesByDistance_exact:
  assumes pl: "placed ent reg m" and i: "integral_scene w m" and pos: "in_scene m (x, y, z)"
    and fl: "float_pos (x, y, z)" "\<forall>k e. reg k = Some e \<longrightarrow> float_pos (GetPosition ent e)"
    and n: "0 \<le> n" "w * n < 2 ^ 24"
  shows "\<exists>es. GetEntitiesByDistance ent m x y z (Fin (of_int (w * n))) = Ret es \<and> distinct es
    \<and> (\<forall>e \<in> set es. reg (GetID ent e) = Some e \<and> in_range ent x y z (Fin (of_int (w * n))) e)
    \<and> (\<forall>e. reg (GetID ent e) = Some e \<and> in_range ent x y z (Fin (of_int (w * n))) e
         \<and> offset_le (of_int (w * n)) (fst (GetPosition ent e)) x
         \<and> offset_le (of_int (w * n)) (snd (snd (GetPosition ent e))) z \<longrightarrow> e \<in> set es)"
proof -
  have "0 < w" using i by (simp add: integral_scene_def)
  then have "n \<le> w * n" using n(1) by (cases "n = 0") auto
  then have "n < 2 ^ 62" using n(2) by simp
  from GetSurroundingEntities_exact [OF pl pos n(1) this] obtain es where
    es: "GetSurroundingEntities ent m x z n = Ret es" "distinct es"
    and mem: "\<And>e. e \<in> set es \<longleftrightarrow> reg (GetID ent e) = Some e
         \<and> \<bar>fst (cell_of m (GetPosition ent e)) - fst (cell_of m (x, y, z))\<bar> \<le> n
         \<and> \<bar>snd (cell_of m (GetPosition ent e)) - snd (cell_of m (x, y, z))\<bar> \<le> n" by blast
  have near: "e \<in> set es" if r: "reg (GetID ent e) = Some e"
    and o: "offset_le (of_int (w * n)) (fst (GetPosition ent e)) x"
      "offset_le (of_int (w * n)) (snd (snd (GetPosition ent e))) z" for e
  proof -
    obtain x' y' z' where p: "GetPosition ent e = (x', y', z')" by (metis prod_cases3)
    have "in_scene m (x', y', z')" "float_pos (x', y', z')"
      using placed_in_scene [OF pl r] fl(2) [rule_format, OF r] p by simp_all
    from integral_cell_near [OF i pos this(1) fl(1) this(2)] show ?thesis using o r p by (simp add: mem)
  qed
  show ?thesis
    by (rule exI [of _ "filter (in_range ent x y z (Fin (of_int (w * n)))) es"])
      (use es mem near integral_range [OF i n] in \<open>auto simp: GetEntitiesByDistance_def simp del: of_int_mult\<close>)
qed

section \<open>What a user of the grid relies on\<close>

text \<open>
  A user keeps its entities elsewhere and hands the grid references. The contract: the grid is in step with
  a registry of the entities, and stays so when an entity enters, leaves or moves.
\<close>

locale position_index =
  fixes inv :: "'e Entity \<Rightarrow> (string \<rightharpoonup> 'e) \<Rightarrow> 'm \<Rightarrow> bool"
    and inside :: "'m \<Rightarrow> float32 \<times> float32 \<times> float32 \<Rightarrow> bool"
    and add :: "'e Entity \<Rightarrow> 'e \<Rightarrow> 'm \<Rightarrow> 'm \<times> (aoi_error, unit) go"
    and remove :: "'e Entity \<Rightarrow> 'e \<Rightarrow> 'm \<Rightarrow> 'm \<times> (aoi_error, unit) go"
    and move :: "'e Entity \<Rightarrow> 'e \<Rightarrow> float32 \<Rightarrow> float32 \<Rightarrow> 'm \<Rightarrow> 'm \<times> (aoi_error, unit) go"
  assumes inv_ID: "inv ent reg m \<Longrightarrow> reg k = Some e \<Longrightarrow> GetID ent e = k"
    and inv_inside: "inv ent reg m \<Longrightarrow> reg k = Some e \<Longrightarrow> inside m (GetPosition ent e)"
    and inv_cong: "inv ent reg m \<Longrightarrow>
      (\<And>k e. reg k = Some e \<Longrightarrow> GetID ent' e = GetID ent e \<and> GetPosition ent' e = GetPosition ent e
         \<and> GetTypeID ent' e = GetTypeID ent e) \<Longrightarrow> inv ent' reg m"
    and add_inv: "inv ent reg m \<Longrightarrow> reg (GetID ent e) = None \<Longrightarrow> inside m (GetPosition ent e) \<Longrightarrow>
      inv ent (reg(GetID ent e \<mapsto> e)) (fst (add ent e m)) \<and> snd (add ent e m) = Ret ()"
    and remove_inv: "inv ent reg m \<Longrightarrow> reg (GetID ent e) = Some e \<Longrightarrow>
      inv ent (reg(GetID ent e := None)) (fst (remove ent e m)) \<and> snd (remove ent e m) = Ret ()"
    and move_inv: "inv ent reg m \<Longrightarrow> reg (GetID ent e) = Some e \<Longrightarrow>
      (\<And>f. f \<noteq> e \<Longrightarrow> GetPosition ent' f = GetPosition ent f) \<Longrightarrow> GetID ent' = GetID ent \<Longrightarrow>
      GetTypeID ent' = GetTypeID ent \<Longrightarrow> GetPosition ent e = (ox, oy, oz) \<Longrightarrow>
      inside m (GetPosition ent' e) \<Longrightarrow>
      inv ent' reg (fst (move ent' e ox oz m)) \<and> snd (move ent' e ox oz m) = Ret ()"
    and inside_kept: "inside (fst (remove ent e m)) = inside m"
begin

text \<open>An entity enters: the other entities are those of before.\<close>

lemma enter:
  assumes "inv ent reg m" and "reg (GetID ent' e) = None" and "inside m (GetPosition ent' e)"
    and "\<And>k f. reg k = Some f \<Longrightarrow> GetID ent' f = GetID ent f \<and> GetPosition ent' f = GetPosition ent f
      \<and> GetTypeID ent' f = GetTypeID ent f"
  shows "inv ent' (reg(GetID ent' e \<mapsto> e)) (fst (add ent' e m)) \<and> snd (add ent' e m) = Ret ()"
  by (rule add_inv [OF inv_cong [OF assms(1,4)] assms(2,3)])

text \<open>An entity that leaves may enter again.\<close>

lemma leave_enter:
  assumes "inv ent reg m" and "reg (GetID ent e) = Some e"
  shows "inv ent reg (fst (add ent e (fst (remove ent e m))))"
proof -
  have gone: "inv ent (reg(GetID ent e := None)) (fst (remove ent e m))" using remove_inv [OF assms] by simp
  have "inside (fst (remove ent e m)) (GetPosition ent e)" using inv_inside [OF assms] inside_kept by simp
  from add_inv [OF gone _ this] show ?thesis using assms(2) by (simp add: fun_upd_idem)
qed

end

lemma placed_cong:
  assumes pl: "placed ent reg m"
    and same: "\<And>k e. reg k = Some e \<Longrightarrow> GetID ent' e = GetID ent e \<and> GetPosition ent' e = GetPosition ent e
      \<and> GetTypeID ent' e = GetTypeID ent e"
  shows "placed ent' reg m"
proof -
  have c: "content ent' reg m = content ent reg m"
    using same by (auto simp: content_def fun_eq_iff split: option.splits)
  have "players_in ent' (entities (grid m i j)) = players_in ent (entities (grid m i j))" if "on_table m i j" for i j
  proof -
    have "filter (\<lambda>(_, e). GetTypeID ent' e = 0) (entities (grid m i j))
        = filter (\<lambda>(_, e). GetTypeID ent e = 0) (entities (grid m i j))"
      using grid_entries [OF pl that] same by (intro filter_cong) auto
    then show ?thesis by (simp add: players_in_def)
  qed
  then have "grid_rep ent' (content ent' reg m (i, j)) (grid m i j)" if "on_table m i j" for i j
    using pl that unfolding c by (simp add: placed_def grid_rep_def)
  then show ?thesis using pl same by (auto simp: placed_def)
qed

lemma RemoveEntity_in_scene: "in_scene (fst (RemoveEntity ent e m)) = in_scene m"
proof -
  obtain x y z where p: "GetPosition ent e = (x, y, z)" by (metis prod_cases3)
  then show ?thesis by (cases "GetGrid m x z") (simp_all add: RemoveEntity_def)
qed

interpretation aoi: position_index placed in_scene AddEntity RemoveEntity UpdateEntity
proof unfold_locales
  fix ent :: "'e Entity" and reg m k e
  assume "placed ent reg m" "reg k = Some e"
  then show "GetID ent e = k" "in_scene m (GetPosition ent e)" by (simp_all add: placed_def)
next
  fix ent ent' :: "'e Entity" and reg m
  assume "placed ent reg m" "\<And>k e. reg k = Some e \<Longrightarrow> GetID ent' e = GetID ent e
    \<and> GetPosition ent' e = GetPosition ent e \<and> GetTypeID ent' e = GetTypeID ent e"
  then show "placed ent' reg m" by (rule placed_cong)
qed (rule AddEntity_placed RemoveEntity_placed UpdateEntity_placed RemoveEntity_in_scene; assumption)+

section \<open>Re-adding an entity\<close>

text \<open>Adding an entity a second time counts it twice.\<close>

lemma grid_add_twice:
  "GetTypeID ent e = 0 \<Longrightarrow> playerCount (grid_add ent e (grid_add ent e (new_grid i j))) = 2
    \<and> length (entities (grid_add ent e (grid_add ent e (new_grid i j)))) = 1"
  by (simp add: grid_add_def new_grid_def wrap64_def)

end
