(* ===== verification/Player_Sync.thy ===== *)
theory Player_Sync
  imports Aoi_Grid Text_Codec "HOL-Library.Finite_Map"
begin

unbundle bit_operations_syntax

text \<open>
  The player state synchronisation of \<^verbatim>\<open>src/pkg/sync/player_state.go\<close>: the manager of player states
  over the area-of-interest grid, and its position and broadcast services. Player states are shared by
  reference between the manager and the grid, so they live in a store and are named by their address. What
  the code prints or passes to callbacks is the trace \<open>events\<close>; callbacks do not change the manager. Protocol
  buffer messages are records with the fields the code uses, a nil pointer is \<^term>\<open>None\<close>. Once a panic has
  happened nothing reads the state again.
\<close>

section \<open>Data\<close>

type_synonym vec = "float32 \<times> float32 \<times> float32"
type_synonym addr = nat

record 'a PlayerState =
  ID :: string
  Position :: vec
  Velocity :: "vec option"
  Rotation :: float32
  LastSyncTime :: int
  LastUpdateTime :: int
  Attributes :: "(string, 'a) fmap"
  UpdateMask :: "32 word"

datatype event = Notify string string | Callback string string

record 'a PlayerStateManager =
  store :: "'a PlayerState list"
  players :: "(string, addr) fmap"
  subscribers :: "(string, string list) fmap"
  callbacks :: "string list"
  aoiManager :: "addr AOIManager"
  events :: "event list"

datatype player_error = PlayerNotFound string | TargetNotFound string | AoiError aoi_error

text \<open>A player state as an entity of the grid.\<close>

definition entity_of :: "'a PlayerState list \<Rightarrow> addr Entity" where
  "entity_of st = \<lparr>GetID = (\<lambda>a. ID (st ! a)), GetPosition = (\<lambda>a. Position (st ! a)), GetTypeID = (\<lambda>_. 0)\<rparr>"

section \<open>The manager\<close>

definition NewPlayerStateManager :: "(aoi_error, 'a PlayerStateManager) go" where
  "NewPlayerStateManager =
     go_bind (NewAOIManager (Fin 0) (Fin 1000) (Fin 0) (Fin 1000) 20) (\<lambda>aoi.
       Ret \<lparr>store = [], players = fmempty, subscribers = fmempty, callbacks = [], aoiManager = aoi, events = []\<rparr>)"

definition new_player :: "string \<Rightarrow> int \<Rightarrow> 'a PlayerState" where
  "new_player playerID now =
     \<lparr>ID = playerID, Position = (Fin 0, Fin 0, Fin 0), Velocity = Some (Fin 0, Fin 0, Fin 0), Rotation = Fin 0,
      LastSyncTime = now, LastUpdateTime = now, Attributes = fmempty, UpdateMask = 0\<rparr>"

text \<open>An error of the grid is logged and otherwise ignored; a panic is not.\<close>

definition ignore_error ::
    "'s \<Rightarrow> (aoi_error, unit) go \<Rightarrow> ('s \<Rightarrow> 's \<times> (player_error, 'b) go) \<Rightarrow> 's \<times> (player_error, 'b) go" where
  "ignore_error m res k = (case res of Panic \<Rightarrow> (m, Panic) | _ \<Rightarrow> k m)"

definition RegisterPlayer ::
    "int \<Rightarrow> string \<Rightarrow> 'a PlayerStateManager \<Rightarrow> 'a PlayerStateManager \<times> (player_error, addr) go" where
  "RegisterPlayer now playerID m =
     (case fmlookup (players m) playerID of
        Some a \<Rightarrow> (m, Ret a)
      | None \<Rightarrow>
          let a = length (store m);
              m = m\<lparr>store := store m @ [new_player playerID now], players := fmupd playerID a (players m),
                    subscribers := fmupd playerID [] (subscribers m)\<rparr>;
              (aoi, res) = AddEntity (entity_of (store m)) a (aoiManager m)
          in ignore_error (m\<lparr>aoiManager := aoi\<rparr>) res (\<lambda>m. (m, Ret a)))"

definition UnregisterPlayer ::
    "string \<Rightarrow> 'a PlayerStateManager \<Rightarrow> 'a PlayerStateManager \<times> (player_error, unit) go" where
  "UnregisterPlayer playerID m =
     (case fmlookup (players m) playerID of
        None \<Rightarrow> (m, Ret ())
      | Some a \<Rightarrow>
          let (aoi, res) = RemoveEntity (entity_of (store m)) a (aoiManager m)
          in ignore_error (m\<lparr>aoiManager := aoi\<rparr>) res (\<lambda>m.
               (m\<lparr>players := fmdrop playerID (players m),
                  subscribers := fmmap (filter (\<lambda>s. s \<noteq> playerID)) (fmdrop playerID (subscribers m))\<rparr>, Ret ())))"

definition GetPlayer :: "'a PlayerStateManager \<Rightarrow> string \<Rightarrow> (player_error, addr) go" where
  "GetPlayer m playerID =
     (case fmlookup (players m) playerID of None \<Rightarrow> Fail (PlayerNotFound playerID) | Some a \<Rightarrow> Ret a)"

definition MaskPosition :: "32 word" where "MaskPosition = 1"
definition MaskVelocity :: "32 word" where "MaskVelocity = 2"
definition MaskRotation :: "32 word" where "MaskRotation = 4"
definition MaskAttributes :: "32 word" where "MaskAttributes = 8"

definition touch :: "int \<Rightarrow> 32 word \<Rightarrow> 'a PlayerState \<Rightarrow> 'a PlayerState" where
  "touch now bits p = p\<lparr>LastUpdateTime := now, UpdateMask := UpdateMask p OR bits\<rparr>"

definition put_player :: "addr \<Rightarrow> 'a PlayerState \<Rightarrow> 'a PlayerStateManager \<Rightarrow> 'a PlayerStateManager" where
  "put_player a p m = m\<lparr>store := (store m)[a := p]\<rparr>"

definition notifySubscribers ::
    "string \<Rightarrow> 'a PlayerStateManager \<Rightarrow> 'a PlayerStateManager \<times> (player_error, unit) go" where
  "notifySubscribers playerID m =
     (let subs = (case fmlookup (subscribers m) playerID of None \<Rightarrow> [] | Some ss \<Rightarrow> ss)
      in (m\<lparr>events := events m @ map (\<lambda>s. Notify s playerID) subs @ map (\<lambda>n. Callback n playerID) (callbacks m)\<rparr>,
          Ret ()))"

definition UpdatePlayerPosition ::
    "int \<Rightarrow> string \<Rightarrow> vec option \<Rightarrow> 'a PlayerStateManager \<Rightarrow> 'a PlayerStateManager \<times> (player_error, unit) go" where
  "UpdatePlayerPosition now playerID position m =
     with_recv m (GetPlayer m playerID) (\<lambda>a.
       let (oldX, _, oldZ) = Position (store m ! a)
       in case position of
            None \<Rightarrow> (m, Panic)
          | Some p \<Rightarrow>
              let m = put_player a (touch now MaskPosition ((store m ! a)\<lparr>Position := p\<rparr>)) m;
                  (aoi, res) = UpdateEntity (entity_of (store m)) a oldX oldZ (aoiManager m)
              in ignore_error (m\<lparr>aoiManager := aoi\<rparr>) res (notifySubscribers playerID))"

definition UpdatePlayerVelocity ::
    "int \<Rightarrow> string \<Rightarrow> vec option \<Rightarrow> 'a PlayerStateManager \<Rightarrow> 'a PlayerStateManager \<times> (player_error, unit) go" where
  "UpdatePlayerVelocity now playerID velocity m =
     with_recv m (GetPlayer m playerID) (\<lambda>a.
       notifySubscribers playerID
         (put_player a (touch now MaskVelocity ((store m ! a)\<lparr>Velocity := velocity\<rparr>)) m))"

definition UpdatePlayerRotation ::
    "int \<Rightarrow> string \<Rightarrow> float32 \<Rightarrow> 'a PlayerStateManager \<Rightarrow> 'a PlayerStateManager \<times> (player_error, unit) go" where
  "UpdatePlayerRotation now playerID rotation m =
     with_recv m (GetPlayer m playerID) (\<lambda>a.
       notifySubscribers playerID
         (put_player a (touch now MaskRotation ((store m ! a)\<lparr>Rotation := rotation\<rparr>)) m))"

definition UpdatePlayerAttribute ::
    "int \<Rightarrow> string \<Rightarrow> string \<Rightarrow> 'a \<Rightarrow> 'a PlayerStateManager \<Rightarrow> 'a PlayerStateManager \<times> (player_error, unit) go" where
  "UpdatePlayerAttribute now playerID key v m =
     with_recv m (GetPlayer m playerID) (\<lambda>a.
       notifySubscribers playerID
         (put_player a (touch now MaskAttributes
            ((store m ! a)\<lparr>Attributes := fmupd key v (Attributes (store m ! a))\<rparr>)) m))"

definition SubscribeToPlayer ::
    "string \<Rightarrow> string \<Rightarrow> 'a PlayerStateManager \<Rightarrow> 'a PlayerStateManager \<times> (player_error, unit) go" where
  "SubscribeToPlayer subscriberID targetID m =
     (if fmlookup (players m) targetID = None then (m, Fail (TargetNotFound targetID))
      else
        let subs = (case fmlookup (subscribers m) targetID of None \<Rightarrow> [] | Some ss \<Rightarrow> ss)
        in if subscriberID \<in> set subs then (m, Ret ())
           else (m\<lparr>subscribers := fmupd targetID (subs @ [subscriberID]) (subscribers m)\<rparr>, Ret ()))"

definition UnsubscribeFromPlayer ::
    "string \<Rightarrow> string \<Rightarrow> 'a PlayerStateManager \<Rightarrow> 'a PlayerStateManager \<times> (player_error, unit) go" where
  "UnsubscribeFromPlayer subscriberID targetID m =
     (case fmlookup (subscribers m) targetID of
        None \<Rightarrow> (m, Fail (TargetNotFound targetID))
      | Some subs \<Rightarrow>
          (m\<lparr>subscribers := fmupd targetID (filter (\<lambda>s. s \<noteq> subscriberID) subs) (subscribers m)\<rparr>, Ret ()))"

definition RegisterCallback :: "string \<Rightarrow> 'a PlayerStateManager \<Rightarrow> 'a PlayerStateManager" where
  "RegisterCallback name m = m\<lparr>callbacks := List.insert name (callbacks m)\<rparr>"

definition UnregisterCallback :: "string \<Rightarrow> 'a PlayerStateManager \<Rightarrow> 'a PlayerStateManager" where
  "UnregisterCallback name m = m\<lparr>callbacks := removeAll name (callbacks m)\<rparr>"

definition PSM_GetNearbyPlayers :: "string \<Rightarrow> int \<Rightarrow> 'a PlayerStateManager \<Rightarrow> (player_error, int) go" where
  "PSM_GetNearbyPlayers playerID r m =
     go_bind (GetPlayer m playerID) (\<lambda>a.
       let (x, _, z) = Position (store m ! a)
       in go_map_err AoiError (AOI_GetNearbyPlayers (aoiManager m) x z r))"

section \<open>Position synchronisation\<close>

record EntityPosition =
  EntityId :: string
  EntityType :: string
  ep_Position :: vec
  ep_Rotation :: float32
  ep_Velocity :: "vec option"

record MessageHeader =
  MsgId :: int
  h_Timestamp :: int
  SessionId :: string
  h_Version :: int
  ResultCode :: int
  ResultMsg :: string

record PositionSyncRequest =
  req_Header :: "MessageHeader option"
  req_EntityId :: string
  req_Position :: "vec option"
  req_Velocity :: "vec option"
  req_Rotation :: float32
  req_Timestamp :: int

record PositionSyncResponse =
  Success :: bool
  NearbyEntities :: "EntityPosition list"
  resp_Header :: "MessageHeader option"

text \<open>The text of an error; that of the grid, which formats numbers, is the argument \<open>aoi_text\<close>.\<close>

definition error_text :: "(aoi_error \<Rightarrow> string) \<Rightarrow> player_error \<Rightarrow> string" where
  "error_text aoi_text e =
     (case e of
        PlayerNotFound p \<Rightarrow> ''player not found: '' @ p
      | TargetNotFound p \<Rightarrow> ''target player not found: '' @ p
      | AoiError a \<Rightarrow> aoi_text a)"

definition getNearbyEntities :: "string \<Rightarrow> 'a PlayerStateManager \<Rightarrow> (player_error, EntityPosition list) go" where
  "getNearbyEntities playerID m =
     go_bind (GetPlayer m playerID) (\<lambda>a.
       let (x, y, z) = Position (store m ! a)
       in go_bind (go_map_err AoiError (GetEntitiesByDistance (entity_of (store m)) (aoiManager m) x y z (Fin 100)))
            (\<lambda>es. Ret (map (\<lambda>b. let p = store m ! b in
               \<lparr>EntityId = ID p, EntityType = ''player'', ep_Position = Position p, ep_Rotation = Rotation p,
                ep_Velocity = Velocity p\<rparr>) (filter (\<lambda>b. ID (store m ! b) \<noteq> playerID) es))))"

definition reply_header :: "int \<Rightarrow> int \<Rightarrow> MessageHeader \<Rightarrow> int \<Rightarrow> string \<Rightarrow> MessageHeader" where
  "reply_header msgId ts h code msg =
     \<lparr>MsgId = msgId, h_Timestamp = ts, SessionId = SessionId h, h_Version = h_Version h, ResultCode = code,
      ResultMsg = msg\<rparr>"

text \<open>The arguments \<open>t1\<close> to \<open>t4\<close> are the readings of the clock, in the order of the calls.\<close>

definition SyncPosition ::
    "(aoi_error \<Rightarrow> string) \<Rightarrow> int \<Rightarrow> int \<Rightarrow> int \<Rightarrow> int \<Rightarrow> PositionSyncRequest \<Rightarrow> PositionSyncResponse \<Rightarrow> 'a PlayerStateManager \<Rightarrow>
      ('a PlayerStateManager \<times> PositionSyncResponse) \<times> (player_error, unit) go" where
  "SyncPosition aoi_text t1 t2 t3 t4 req resp m =
     (case req_Position req of
        None \<Rightarrow> ((m, resp), Panic)
      | Some _ \<Rightarrow>
          let (m, res) = UpdatePlayerPosition t1 (req_EntityId req) (req_Position req) m
          in case res of
               Panic \<Rightarrow> ((m, resp), Panic)
             | Fail e \<Rightarrow>
                 let resp = resp\<lparr>Success := False\<rparr>
                 in (case req_Header req of
                       None \<Rightarrow> ((m, resp), Panic)
                     | Some h \<Rightarrow>
                         ((m, resp\<lparr>resp_Header := Some (reply_header 3002 t2 h 1 (error_text aoi_text e))\<rparr>), Fail e))
             | Ret _ \<Rightarrow>
                 let m = (if req_Velocity req \<noteq> None
                          then fst (UpdatePlayerVelocity t3 (req_EntityId req) (req_Velocity req) m) else m);
                     m = fst (UpdatePlayerRotation t4 (req_EntityId req) (req_Rotation req) m)
                 in (case getNearbyEntities (req_EntityId req) m of
                       Panic \<Rightarrow> ((m, resp), Panic)
                     | near \<Rightarrow>
                         let nearby = (case near of Ret es \<Rightarrow> es | _ \<Rightarrow> []);
                             resp = resp\<lparr>Success := True, NearbyEntities := nearby\<rparr>
                         in (case req_Header req of
                               None \<Rightarrow> ((m, resp), Panic)
                             | Some h \<Rightarrow>
                                 ((m, resp\<lparr>resp_Header :=
                                     Some (reply_header 3002 (wrap64 (req_Timestamp req + 50)) h 0 ''Success'')\<rparr>),
                                  Ret ()))))"

section \<open>Broadcasts\<close>

record ChatRequest =
  cr_Header :: "MessageHeader option"
  SenderId :: string
  ChatType :: int
  TargetId :: string

record ChatResponse =
  Delivered :: bool
  MessageId :: int
  cs_Timestamp :: int
  cs_Header :: "MessageHeader option"

text \<open>The end of every broadcast: \<open>now\<close> is the clock in nanoseconds.\<close>

definition deliver :: "int \<Rightarrow> ChatRequest \<Rightarrow> ChatResponse \<Rightarrow> string \<Rightarrow> ChatResponse \<times> (player_error, unit) go" where
  "deliver now req resp msg =
     (let resp = resp\<lparr>Delivered := True, MessageId := now, cs_Timestamp := go_quot now 1000000\<rparr>
      in case cr_Header req of
           None \<Rightarrow> (resp, Panic)
         | Some h \<Rightarrow> (resp\<lparr>cs_Header := Some (reply_header 4002 (go_quot now 1000000) h 0 msg)\<rparr>, Ret ()))"

definition refuse ::
    "int \<Rightarrow> ChatRequest \<Rightarrow> ChatResponse \<Rightarrow> player_error \<Rightarrow> string \<Rightarrow> ChatResponse \<times> (player_error, unit) go" where
  "refuse now req resp e msg =
     (let resp = resp\<lparr>Delivered := False\<rparr>
      in case cr_Header req of
           None \<Rightarrow> (resp, Panic)
         | Some h \<Rightarrow> (resp\<lparr>cs_Header := Some (reply_header 4002 (go_quot now 1000000) h 1 msg)\<rparr>, Fail e))"

definition BroadcastMessage ::
    "int \<Rightarrow> ChatRequest \<Rightarrow> ChatResponse \<Rightarrow> 'a PlayerStateManager \<Rightarrow> ChatResponse \<times> (player_error, unit) go" where
  "BroadcastMessage now req resp m =
     deliver now req resp (''Message broadcast to '' @ show_nat (fcard (fmdom (players m))) @ '' players'')"

text \<open>Two message texts, as the bytes of their UTF-8 encoding.\<close>

definition no_such_player :: string where
  "no_such_player = map char_of [231, 142, 169, 229, 174, 182, 228, 184, 141, 229, 173, 152, 229, 156, 168, 58, 32 :: nat]"

definition nearby_failed :: string where
  "nearby_failed = map char_of [232, 142, 183, 229, 143, 150, 233, 153, 132, 232, 191, 145, 229, 174, 158, 228, 189, 147, 229, 164, 177, 232, 180, 165, 58, 32 :: nat]"

definition BroadcastToNearby ::
    "(aoi_error \<Rightarrow> string) \<Rightarrow> int \<Rightarrow> ChatRequest \<Rightarrow> ChatResponse \<Rightarrow> 'a PlayerStateManager \<Rightarrow> ChatResponse \<times> (player_error, unit) go" where
  "BroadcastToNearby aoi_text now req resp m =
     (case GetPlayer m (SenderId req) of
        Panic \<Rightarrow> (resp, Panic)
      | Fail e \<Rightarrow> refuse now req resp e (no_such_player @ SenderId req)
      | Ret a \<Rightarrow>
          let (x, y, z) = Position (store m ! a); ent = entity_of (store m)
          in case GetEntitiesByDistance ent (aoiManager m) x y z (Fin 100) of
               Panic \<Rightarrow> (resp, Panic)
             | Fail e \<Rightarrow> refuse now req resp (AoiError e) (nearby_failed @ aoi_text e)
             | Ret es \<Rightarrow>
                 let n = length (filter (\<lambda>b. GetID ent b \<noteq> SenderId req \<and> GetTypeID ent b = 0) es)
                 in deliver now req resp (''Message broadcast to '' @ show_nat n @ '' nearby players''))"

text \<open>The names of the chat types are those of the generated protocol code, here the argument \<open>name\<close>.\<close>

definition target_count :: "int \<Rightarrow> string \<Rightarrow> nat" where
  "target_count ty target =
     (if ty = 1 then (if target \<noteq> [] then 1 else 0)
      else if ty = 2 then 5 else if ty = 3 then 50 else if ty = 5 then 100 else 0)"

definition GroupcastMessage ::
    "(int \<Rightarrow> string) \<Rightarrow> int \<Rightarrow> ChatRequest \<Rightarrow> ChatResponse \<Rightarrow> ChatResponse \<times> (player_error, unit) go" where
  "GroupcastMessage name now req resp =
     deliver now req resp (''Message delivered to '' @ show_nat (target_count (ChatType req) (TargetId req))
       @ '' players in '' @ name (ChatType req))"

section \<open>Runs\<close>

text \<open>A position of the game world, which is a square of side 1000.\<close>

definition in_world :: "vec \<Rightarrow> bool" where
  "in_world p \<longleftrightarrow> float_pos p
     \<and> (\<exists>u y v. p = (Fin u, y, Fin v) \<and> 0 \<le> u \<and> u < 1000 \<and> 0 \<le> v \<and> v < 1000)"

text \<open>The calls of the manager, with players that stay in the world.\<close>

inductive psm_step :: "'a PlayerStateManager \<Rightarrow> 'a PlayerStateManager \<Rightarrow> bool" where
  register: "psm_step m (fst (RegisterPlayer now p m))"
| unregister: "psm_step m (fst (UnregisterPlayer p m))"
| position: "in_world v \<Longrightarrow> psm_step m (fst (UpdatePlayerPosition now p (Some v) m))"
| velocity: "psm_step m (fst (UpdatePlayerVelocity now p vel m))"
| rotation: "psm_step m (fst (UpdatePlayerRotation now p rot m))"
| attribute: "psm_step m (fst (UpdatePlayerAttribute now p k v m))"
| subscribe: "psm_step m (fst (SubscribeToPlayer p q m))"
| unsubscribe: "psm_step m (fst (UnsubscribeFromPlayer p q m))"
| callback: "psm_step m (RegisterCallback n m)"
| no_callback: "psm_step m (UnregisterCallback n m)"

inductive psm_reach :: "'a PlayerStateManager \<Rightarrow> bool" where
  start: "NewPlayerStateManager = Ret m \<Longrightarrow> psm_reach m"
| step: "psm_reach m \<Longrightarrow> psm_step m m' \<Longrightarrow> psm_reach m'"

section \<open>Players and the grid are in step\<close>

lemma fmlookup_fun:
  "fmlookup (fmupd k v m) = (fmlookup m)(k \<mapsto> v)" "fmlookup (fmdrop k m) = (fmlookup m)(k := None)"
  "fmlookup fmempty = (\<lambda>_. None)"
  by (auto simp: fun_eq_iff)

definition ps_inv :: "'a PlayerStateManager \<Rightarrow> bool" where
  "ps_inv m \<longleftrightarrow> placed (entity_of (store m)) (fmlookup (players m)) (aoiManager m)
     \<and> integral_scene 50 (aoiManager m) \<and> gridCount (aoiManager m) = 20
     \<and> (\<forall>k a. fmlookup (players m) k = Some a \<longrightarrow> a < length (store m) \<and> float_pos (Position (store m ! a)))
     \<and> fmdom (subscribers m) = fmdom (players m)
     \<and> (\<forall>k ss. fmlookup (subscribers m) k = Some ss \<longrightarrow> distinct ss)"

lemma ps_invD:
  assumes "ps_inv m"
  shows "placed (entity_of (store m)) (fmlookup (players m)) (aoiManager m)"
    and "integral_scene 50 (aoiManager m)" and "gridCount (aoiManager m) = 20"
    and "fmlookup (players m) k = Some a \<Longrightarrow> a < length (store m)"
    and "fmlookup (players m) k = Some a \<Longrightarrow> float_pos (Position (store m ! a))"
    and "fmlookup (players m) k = Some a \<Longrightarrow> ID (store m ! a) = k"
    and "fmdom (subscribers m) = fmdom (players m)"
    and "fmlookup (subscribers m) k = Some ss \<Longrightarrow> distinct ss"
  using assms aoi.inv_ID [of "entity_of (store m)" "fmlookup (players m)" "aoiManager m" k a]
  by (simp_all add: ps_inv_def entity_of_def)

lemma entity_of_simps [simp]:
  "GetID (entity_of st) a = ID (st ! a)" "GetPosition (entity_of st) a = Position (st ! a)"
  "GetTypeID (entity_of st) = (\<lambda>_. 0)"
  by (simp_all add: entity_of_def)

lemma in_world_scene:
  assumes "integral_scene 50 aoi" and "gridCount aoi = 20" and "in_world p"
  shows "in_scene aoi p" and "float_pos p"
  using assms by (auto simp: in_world_def in_scene_def out_of_scene_def integral_scene_def fle_def)

lemma origin_in_world: "in_world (Fin 0, Fin 0, Fin 0)"
  by (simp add: in_world_def float_pos_def is_float_def)

lemma NewPlayerStateManager_ok: "\<exists>m :: 'a PlayerStateManager. NewPlayerStateManager = Ret m \<and> ps_inv m \<and> players m = fmempty"
proof -
  obtain aoi where "NewAOIManager (Fin 0) (Fin 1000) (Fin 0) (Fin 1000) 20 = Ret aoi" "gridCount aoi = 20"
    "integral_scene 50 aoi" "placed (entity_of ([] :: 'a PlayerState list)) (\<lambda>_. None) aoi"
    using NewAOIManager_integral [of 50 20 "entity_of ([] :: 'a PlayerState list)"] by auto
  then show ?thesis by (auto simp: NewPlayerStateManager_def ps_inv_def fmlookup_fun(3))
qed

lemma NewPlayerStateManager_inv: "NewPlayerStateManager = Ret m \<Longrightarrow> ps_inv m"
  using NewPlayerStateManager_ok by (metis go.inject(1))

text \<open>The grid keeps its dimensions.\<close>

lemma integral_scene_put [simp]: "integral_scene w (put_grid g m) = integral_scene w m"
  by (simp add: integral_scene_def)

lemma dimensions_kept:
  "integral_scene w (fst (AddEntity ent e m)) = integral_scene w m \<and> gridCount (fst (AddEntity ent e m)) = gridCount m"
  "integral_scene w (fst (RemoveEntity ent e m)) = integral_scene w m
     \<and> gridCount (fst (RemoveEntity ent e m)) = gridCount m"
  "integral_scene w (fst (UpdateEntity ent e ox oz m)) = integral_scene w m
     \<and> gridCount (fst (UpdateEntity ent e ox oz m)) = gridCount m"
  by (auto simp: AddEntity_def RemoveEntity_def UpdateEntity_def with_recv_def split: prod.splits go.splits)

lemma RegisterPlayer_new:
  assumes inv: "ps_inv m" and new: "fmlookup (players m) p = None"
  shows "ps_inv (fst (RegisterPlayer now p m)) \<and> snd (RegisterPlayer now p m) = Ret (length (store m))
    \<and> fmlookup (players (fst (RegisterPlayer now p m))) = (fmlookup (players m))(p \<mapsto> length (store m))"
proof -
  let ?st = "store m @ [new_player p now]"
  let ?a = "length (store m)"
  have old: "a < length (store m)" if "fmlookup (players m) k = Some a" for k a
    using ps_invD(4) [OF inv that] .
  have "in_scene (aoiManager m) (GetPosition (entity_of ?st) ?a)"
    using in_world_scene(1) [OF ps_invD(2,3) [OF inv] origin_in_world] by (simp add: new_player_def)
  then have add: "placed (entity_of ?st) ((fmlookup (players m))(p \<mapsto> ?a)) (fst (AddEntity (entity_of ?st) ?a (aoiManager m)))"
    "snd (AddEntity (entity_of ?st) ?a (aoiManager m)) = Ret ()"
    using aoi.enter [OF ps_invD(1) [OF inv], of "entity_of ?st" ?a] new old
    by (auto simp: new_player_def nth_append)
  define m' where "m' = m\<lparr>store := ?st, players := fmupd p ?a (players m), subscribers := fmupd p [] (subscribers m),
    aoiManager := fst (AddEntity (entity_of ?st) ?a (aoiManager m))\<rparr>"
  have reg: "RegisterPlayer now p m = (m', Ret ?a)"
    using new add(2) by (simp add: RegisterPlayer_def ignore_error_def m'_def case_prod_beta Let_def)
  have pos: "a < length ?st \<and> float_pos (Position (?st ! a))" if "fmlookup (fmupd p ?a (players m)) k = Some a" for k a
    using that old [of k a] ps_invD(5) [OF inv, of k a]
    by (auto simp: nth_append new_player_def float_pos_def is_float_def less_Suc_eq split: if_splits)
  have "ps_inv m'" unfolding ps_inv_def
  proof (intro conjI allI impI)
    show "placed (entity_of (store m')) (fmlookup (players m')) (aoiManager m')"
      using add(1) by (simp add: m'_def fmlookup_fun)
    show "integral_scene 50 (aoiManager m')" "gridCount (aoiManager m') = 20"
      using ps_invD(2,3) [OF inv] by (simp_all add: m'_def dimensions_kept)
    show "fmdom (subscribers m') = fmdom (players m')" using ps_invD(7) [OF inv] by (simp add: m'_def)
  next
    fix k a assume "fmlookup (players m') k = Some a"
    then show "a < length (store m')" "float_pos (Position (store m' ! a))"
      using pos [of k a] by (simp_all add: m'_def)
  next
    fix k ss assume "fmlookup (subscribers m') k = Some ss"
    then show "distinct ss" using ps_invD(8) [OF inv] by (auto simp: m'_def split: if_splits)
  qed
  then show ?thesis using reg by (simp add: m'_def fmlookup_fun)
qed

lemma UnregisterPlayer_known:
  assumes inv: "ps_inv m" and known: "fmlookup (players m) p = Some a"
  shows "ps_inv (fst (UnregisterPlayer p m)) \<and> snd (UnregisterPlayer p m) = Ret ()
    \<and> fmlookup (players (fst (UnregisterPlayer p m))) = (fmlookup (players m))(p := None)"
proof -
  let ?ent = "entity_of (store m)"
  have id: "GetID ?ent a = p" using ps_invD(6) [OF inv known] by simp
  have rem: "placed ?ent ((fmlookup (players m))(p := None)) (fst (RemoveEntity ?ent a (aoiManager m)))"
    "snd (RemoveEntity ?ent a (aoiManager m)) = Ret ()"
    using aoi.remove_inv [OF ps_invD(1) [OF inv], of a] id known by simp_all
  define m' where "m' = m\<lparr>players := fmdrop p (players m), aoiManager := fst (RemoveEntity ?ent a (aoiManager m)),
    subscribers := fmmap (filter (\<lambda>s. s \<noteq> p)) (fmdrop p (subscribers m))\<rparr>"
  have unreg: "UnregisterPlayer p m = (m', Ret ())"
    using known rem(2) by (simp add: UnregisterPlayer_def ignore_error_def m'_def case_prod_beta)
  have "ps_inv m'" unfolding ps_inv_def
  proof (intro conjI allI impI)
    show "placed (entity_of (store m')) (fmlookup (players m')) (aoiManager m')"
      using rem(1) by (simp add: m'_def fmlookup_fun)
    show "integral_scene 50 (aoiManager m')" "gridCount (aoiManager m') = 20"
      using ps_invD(2,3) [OF inv] by (simp_all add: m'_def dimensions_kept)
    show "fmdom (subscribers m') = fmdom (players m')" using ps_invD(7) [OF inv] by (simp add: m'_def)
  next
    fix k b assume "fmlookup (players m') k = Some b"
    then show "b < length (store m')" "float_pos (Position (store m' ! b))"
      using ps_invD(4,5) [OF inv, of k b] by (auto simp: m'_def split: if_splits)
  next
    fix k ss assume "fmlookup (subscribers m') k = Some ss"
    then show "distinct ss" using ps_invD(8) [OF inv] by (auto simp: m'_def split: if_splits)
  qed
  then show ?thesis using unreg by (simp add: m'_def fmlookup_fun)
qed

lemma notifySubscribers_fields:
  "notifySubscribers p m = (fst (notifySubscribers p m), Ret ())"
  "ps_inv (fst (notifySubscribers p m)) = ps_inv m"
  "players (fst (notifySubscribers p m)) = players m" "store (fst (notifySubscribers p m)) = store m"
  "aoiManager (fst (notifySubscribers p m)) = aoiManager m"
  by (simp_all add: notifySubscribers_def Let_def ps_inv_def)

text \<open>A change of a player that is neither its ID nor its position is no concern of the grid.\<close>

lemma put_player_inv:
  assumes "ps_inv m" and "ID q = ID (store m ! a)" and "Position q = Position (store m ! a)"
  shows "ps_inv (put_player a q m)"
proof -
  have n: "(store m)[a := q] ! b = (if b = a \<and> a < length (store m) then q else store m ! b)" for b
    by (cases "a < length (store m)"; cases "b = a") (simp_all add: list_update_beyond)
  have ids: "ID ((store m)[a := q] ! b) = ID (store m ! b)" for b by (simp add: n assms(2))
  have pos: "Position ((store m)[a := q] ! b) = Position (store m ! b)" for b by (simp add: n assms(3))
  have ent: "entity_of ((store m)[a := q]) = entity_of (store m)" unfolding entity_of_def ids pos ..
  show ?thesis using assms(1) unfolding ps_inv_def put_player_def by (simp add: ent pos)
qed

lemma put_notify_inv:
  "ps_inv m \<Longrightarrow> ID q = ID (store m ! a) \<Longrightarrow> Position q = Position (store m ! a) \<Longrightarrow>
   ps_inv (fst (notifySubscribers p (put_player a q m)))"
  by (simp only: notifySubscribers_fields(2) put_player_inv)

lemma UpdatePlayerPosition_known:
  assumes inv: "ps_inv m" and known: "fmlookup (players m) p = Some a" and v: "in_world v"
  shows "ps_inv (fst (UpdatePlayerPosition now p (Some v) m)) \<and> snd (UpdatePlayerPosition now p (Some v) m) = Ret ()
    \<and> players (fst (UpdatePlayerPosition now p (Some v) m)) = players m
    \<and> store (fst (UpdatePlayerPosition now p (Some v) m))
        = (store m)[a := touch now MaskPosition ((store m ! a)\<lparr>Position := v\<rparr>)]"
proof -
  let ?q = "touch now MaskPosition ((store m ! a)\<lparr>Position := v\<rparr>)"
  let ?st = "(store m)[a := ?q]"
  obtain ox oy oz where o: "Position (store m ! a) = (ox, oy, oz)" by (metis prod_cases3)
  have a: "a < length (store m)" by (rule ps_invD(4) [OF inv known])
  have ids: "ID (?st ! b) = ID (store m ! b)" for b
    using a by (cases "b = a") (simp_all add: touch_def)
  have pos: "Position (?st ! a) = v" "b \<noteq> a \<Longrightarrow> Position (?st ! b) = Position (store m ! b)" for b
    using a by (simp_all add: touch_def)
  have up: "placed (entity_of ?st) (fmlookup (players m)) (fst (UpdateEntity (entity_of ?st) a ox oz (aoiManager m)))"
    "snd (UpdateEntity (entity_of ?st) a ox oz (aoiManager m)) = Ret ()"
    using aoi.move_inv [OF ps_invD(1) [OF inv], of a "entity_of ?st" ox oy oz] known ids pos o
      in_world_scene(1) [OF ps_invD(2,3) [OF inv] v] ps_invD(6) [OF inv known]
    by (simp_all add: fun_eq_iff)
  define m' where "m' = m\<lparr>store := ?st, aoiManager := fst (UpdateEntity (entity_of ?st) a ox oz (aoiManager m))\<rparr>"
  have upd: "UpdatePlayerPosition now p (Some v) m = notifySubscribers p m'"
    using known up(2) o
    by (simp add: UpdatePlayerPosition_def GetPlayer_def ignore_error_def m'_def put_player_def case_prod_beta)
  have "ps_inv m'" unfolding ps_inv_def
  proof (intro conjI allI impI)
    show "placed (entity_of (store m')) (fmlookup (players m')) (aoiManager m')"
      using up(1) by (simp add: m'_def)
    show "integral_scene 50 (aoiManager m')" "gridCount (aoiManager m') = 20"
      using ps_invD(2,3) [OF inv] by (simp_all add: m'_def dimensions_kept)
    show "fmdom (subscribers m') = fmdom (players m')" using ps_invD(7) [OF inv] by (simp add: m'_def)
  next
    fix k b assume "fmlookup (players m') k = Some b"
    then show "b < length (store m')" "float_pos (Position (store m' ! b))"
      using ps_invD(4,5) [OF inv, of k b] pos(1) pos(2) [of b] in_world_scene(2) [OF ps_invD(2,3) [OF inv] v]
      by (simp_all add: m'_def) (cases "b = a"; simp)
  next
    fix k ss assume "fmlookup (subscribers m') k = Some ss"
    then show "distinct ss" using ps_invD(8) [OF inv] by (simp add: m'_def)
  qed
  then show ?thesis unfolding upd using notifySubscribers_fields by (simp add: notifySubscribers_def Let_def m'_def ps_inv_def)
qed

lemma psm_step_inv: "psm_step m m' \<Longrightarrow> ps_inv m \<Longrightarrow> ps_inv m'"
proof (induction rule: psm_step.induct)
  case (register m now p)
  show ?case
  proof (cases "fmlookup (players m) p")
    case None
    then show ?thesis using RegisterPlayer_new [OF register] by blast
  qed (simp add: RegisterPlayer_def register)
next
  case (unregister m p)
  show ?case
  proof (cases "fmlookup (players m) p")
    case (Some a)
    then show ?thesis using UnregisterPlayer_known [OF unregister] by blast
  qed (simp add: UnregisterPlayer_def unregister)
next
  case (position v m now p)
  show ?case
  proof (cases "fmlookup (players m) p")
    case (Some a)
    then show ?thesis using UpdatePlayerPosition_known position by blast
  qed (simp add: UpdatePlayerPosition_def GetPlayer_def position)
next
  case (velocity m now p vel)
  show ?case
    by (cases "fmlookup (players m) p")
      (simp_all add: UpdatePlayerVelocity_def GetPlayer_def velocity put_notify_inv touch_def)
next
  case (rotation m now p rot)
  show ?case
    by (cases "fmlookup (players m) p")
      (simp_all add: UpdatePlayerRotation_def GetPlayer_def rotation put_notify_inv touch_def)
next
  case (attribute m now p k v)
  show ?case
    by (cases "fmlookup (players m) p")
      (simp_all add: UpdatePlayerAttribute_def GetPlayer_def attribute put_notify_inv touch_def)
next
  case (subscribe m p q)
  have "fmlookup (subscribers m) q \<noteq> None" if "fmlookup (players m) q \<noteq> None"
    using that ps_invD(7) [OF subscribe] by (metis fmdom_notD fmdom_notI)
  then show ?case using subscribe
    by (auto simp: SubscribeToPlayer_def ps_inv_def Let_def fmdom_notD finsert_absorb split: option.splits if_splits)
next
  case (unsubscribe m p q)
  then show ?case
    by (auto simp: UnsubscribeFromPlayer_def ps_inv_def finsert_absorb fmdomI split: option.splits if_splits)
next
  case (callback m n)
  then show ?case by (simp add: RegisterCallback_def ps_inv_def)
next
  case (no_callback m n)
  then show ?case by (simp add: UnregisterCallback_def ps_inv_def)
qed

lemma psm_reach_inv: "psm_reach m \<Longrightarrow> ps_inv (m :: 'a PlayerStateManager)"
proof (induction rule: psm_reach.induct)
  case (start m)
  then show ?case by (rule NewPlayerStateManager_inv)
next
  case (step m m')
  then show ?case using psm_step_inv by blast
qed

section \<open>What players see\<close>

text \<open>The cell of a position: the world is cut into squares of side 50.\<close>

definition world_cell :: "vec \<Rightarrow> int \<times> int" where
  "world_cell p = (case p of (Fin u, _, Fin v) \<Rightarrow> (\<lfloor>u / 50\<rfloor>, \<lfloor>v / 50\<rfloor>) | _ \<Rightarrow> (0, 0))"

lemma cell_of_world:
  assumes i: "integral_scene 50 aoi" and c: "gridCount aoi = 20" and p: "in_scene aoi p" "float_pos p"
  shows "cell_of aoi p = world_cell p"
proof -
  obtain x y z where xyz: "p = (x, y, z)" by (cases p)
  have b: "minX aoi = Fin 0" "minZ aoi = Fin 0" "maxX aoi = Fin 1000" "maxZ aoi = Fin 1000"
    using i c by (simp_all add: integral_scene_def)
  obtain u where u: "x = Fin u" "0 \<le> u" "u < 1000"
    using float_between [of x 0 1000] p(1) b xyz by (auto simp: in_scene_def out_of_scene_def)
  obtain v where v: "z = Fin v" "0 \<le> v" "v < 1000"
    using float_between [of z 0 1000] p(1) b xyz by (auto simp: in_scene_def out_of_scene_def)
  have "round24 u = u" "round24 v = v" using p(2) u v xyz by (simp_all add: float_pos_def is_float_def)
  then show ?thesis using integral_cell [OF i] u v b c xyz by (simp add: cell_of_def world_cell_def)
qed

lemma player_cell:
  assumes inv: "ps_inv m" and p: "fmlookup (players m) p = Some a"
  shows "cell_of (aoiManager m) (Position (store m ! a)) = world_cell (Position (store m ! a))"
  using cell_of_world [OF ps_invD(2,3) [OF inv]] aoi.inv_inside [OF ps_invD(1) [OF inv] p] ps_invD(5) [OF inv p]
  by simp

text \<open>C15: The number of players near a player is exact: in every run in which players stay in the world the
  manager counts each registered player in the surrounding cells once, however they have registered, moved and left.\<close>

theorem nearby_count:
  assumes "psm_reach m" and "fmlookup (players m) p = Some a" and "0 \<le> r" and "r < 2 ^ 62"
  shows "PSM_GetNearbyPlayers p r m = Ret (wrap64 (int (card {k. \<exists>b. fmlookup (players m) k = Some b
    \<and> \<bar>fst (world_cell (Position (store m ! b))) - fst (world_cell (Position (store m ! a)))\<bar> \<le> r
    \<and> \<bar>snd (world_cell (Position (store m ! b))) - snd (world_cell (Position (store m ! a)))\<bar> \<le> r})))"
proof -
  have inv: "ps_inv m" by (rule psm_reach_inv [OF assms(1)])
  obtain x y z where pos: "Position (store m ! a) = (x, y, z)" by (metis prod_cases3)
  have ins: "in_scene (aoiManager m) (x, y, z)"
    using aoi.inv_inside [OF ps_invD(1) [OF inv] assms(2)] pos by simp
  have eq: "{k. \<exists>e. fmlookup (players m) k = Some e \<and> GetTypeID (entity_of (store m)) e = 0
      \<and> \<bar>fst (cell_of (aoiManager m) (GetPosition (entity_of (store m)) e)) - fst (cell_of (aoiManager m) (x, y, z))\<bar> \<le> r
      \<and> \<bar>snd (cell_of (aoiManager m) (GetPosition (entity_of (store m)) e)) - snd (cell_of (aoiManager m) (x, y, z))\<bar> \<le> r}
    = {k. \<exists>b. fmlookup (players m) k = Some b
      \<and> \<bar>fst (world_cell (Position (store m ! b))) - fst (world_cell (Position (store m ! a)))\<bar> \<le> r
      \<and> \<bar>snd (world_cell (Position (store m ! b))) - snd (world_cell (Position (store m ! a)))\<bar> \<le> r}"
    using player_cell [OF inv] player_cell [OF inv assms(2)] pos by auto
  show ?thesis
    using AOI_GetNearbyPlayers_count [OF ps_invD(1) [OF inv] ins assms(3,4), unfolded eq] assms(2) pos
    by (simp add: PSM_GetNearbyPlayers_def GetPlayer_def)
qed

lemma nearby_core:
  assumes inv: "ps_inv m" and known: "fmlookup (players m) p = Some a" and "Position (store m ! a) = (x, y, z)"
  shows "\<exists>es. getNearbyEntities p m = Ret es \<and> distinct (map EntityId es)
    \<and> (\<forall>ep \<in> set es. EntityId ep \<noteq> p \<and> (\<exists>b. fmlookup (players m) (EntityId ep) = Some b
         \<and> ep_Position ep = Position (store m ! b) \<and> ep_Rotation ep = Rotation (store m ! b)
         \<and> ep_Velocity ep = Velocity (store m ! b) \<and> in_range (entity_of (store m)) x y z (Fin 100) b))
    \<and> (\<forall>k b. k \<noteq> p \<and> fmlookup (players m) k = Some b \<and> in_range (entity_of (store m)) x y z (Fin 100) b
         \<and> offset_le 100 (fst (Position (store m ! b))) x \<and> offset_le 100 (snd (snd (Position (store m ! b)))) z
         \<longrightarrow> k \<in> EntityId ` set es)"
proof -
  let ?ent = "entity_of (store m)"
  let ?show = "\<lambda>b. let q = store m ! b in \<lparr>EntityId = ID q, EntityType = ''player'', ep_Position = Position q,
    ep_Rotation = Rotation q, ep_Velocity = Velocity q\<rparr>"
  have ins: "in_scene (aoiManager m) (x, y, z)"
    using aoi.inv_inside [OF ps_invD(1) [OF inv] assms(2)] assms(3) by simp
  have fl: "float_pos (x, y, z)" using ps_invD(5) [OF inv assms(2)] assms(3) by simp
  have flb: "\<forall>k e. fmlookup (players m) k = Some e \<longrightarrow> float_pos (GetPosition ?ent e)"
    using ps_invD(5) [OF inv] by simp
  obtain bs where bs: "GetEntitiesByDistance ?ent (aoiManager m) x y z (Fin 100) = Ret bs" "distinct bs"
    and sound: "\<And>b. b \<in> set bs \<Longrightarrow> fmlookup (players m) (ID (store m ! b)) = Some b \<and> in_range ?ent x y z (Fin 100) b"
    and complete: "\<And>b. fmlookup (players m) (ID (store m ! b)) = Some b \<Longrightarrow> in_range ?ent x y z (Fin 100) b \<Longrightarrow>
      offset_le 100 (fst (Position (store m ! b))) x \<Longrightarrow> offset_le 100 (snd (snd (Position (store m ! b)))) z \<Longrightarrow> b \<in> set bs"
    using GetEntitiesByDistance_exact [OF ps_invD(1,2) [OF inv] ins fl flb, where n = 2] by auto
  let ?es = "map ?show (filter (\<lambda>b. ID (store m ! b) \<noteq> p) bs)"
  have get: "getNearbyEntities p m = Ret ?es"
    using assms(2,3) bs(1) by (simp add: getNearbyEntities_def GetPlayer_def)
  have "inj_on (\<lambda>b. ID (store m ! b)) (set bs)" using sound by (intro inj_onI) (metis option.inject)
  then have "distinct (map (\<lambda>b. ID (store m ! b)) (filter (\<lambda>b. ID (store m ! b) \<noteq> p) bs))"
    using bs(2) by (auto simp: distinct_map inj_on_def)
  then have "distinct (map EntityId ?es)" by (simp add: comp_def Let_def)
  moreover have "k \<in> EntityId ` set ?es" if "k \<noteq> p" "fmlookup (players m) k = Some b" "in_range ?ent x y z (Fin 100) b"
    "offset_le 100 (fst (Position (store m ! b))) x" "offset_le 100 (snd (snd (Position (store m ! b)))) z" for k b
  proof -
    have id: "ID (store m ! b) = k" by (rule ps_invD(6) [OF inv that(2)])
    then have "b \<in> set (filter (\<lambda>b. ID (store m ! b) \<noteq> p) bs)" using complete that by simp
    then have "?show b \<in> set ?es" by simp
    then show ?thesis using id by (metis (no_types, lifting) EntityPosition.select_convs(1) imageI)
  qed
  moreover have "EntityId ep \<noteq> p \<and> (\<exists>b. fmlookup (players m) (EntityId ep) = Some b
         \<and> ep_Position ep = Position (store m ! b) \<and> ep_Rotation ep = Rotation (store m ! b)
         \<and> ep_Velocity ep = Velocity (store m ! b) \<and> in_range ?ent x y z (Fin 100) b)" if "ep \<in> set ?es" for ep
    using that sound by (auto simp: Let_def)
  ultimately show ?thesis using get by blast
qed


section \<open>Position requests\<close>

lemma GetPlayer_known: "fmlookup (players m) p = Some a \<Longrightarrow> GetPlayer m p = Ret a"
  by (simp add: GetPlayer_def)

lemma UpdatePlayerVelocity_known:
  assumes "fmlookup (players m) p = Some a"
  shows "UpdatePlayerVelocity now p vel m
    = notifySubscribers p (put_player a (touch now MaskVelocity ((store m ! a)\<lparr>Velocity := vel\<rparr>)) m)"
  by (simp add: UpdatePlayerVelocity_def GetPlayer_known [OF assms])

lemma UpdatePlayerRotation_known:
  assumes "fmlookup (players m) p = Some a"
  shows "UpdatePlayerRotation now p rot m
    = notifySubscribers p (put_player a (touch now MaskRotation ((store m ! a)\<lparr>Rotation := rot\<rparr>)) m)"
  by (simp add: UpdatePlayerRotation_def GetPlayer_known [OF assms])

lemma put_player_fields [simp]:
  "players (put_player a q m) = players m" "store (put_player a q m) = (store m)[a := q]"
  "aoiManager (put_player a q m) = aoiManager m"
  by (simp_all add: put_player_def)

text \<open>A position that is not a number ends in a panic of the grid.\<close>

lemma UpdatePlayerPosition_NaN:
  assumes inv: "ps_inv m" and known: "fmlookup (players m) p = Some a" and v: "0 \<le> v" "v < 1000"
  shows "snd (UpdatePlayerPosition now p (Some (NaN, y, Fin v)) m) = Panic"
proof -
  let ?st = "(store m)[a := touch now MaskPosition ((store m ! a)\<lparr>Position := (NaN, y, Fin v)\<rparr>)]"
  obtain ox oy oz where o: "Position (store m ! a) = (ox, oy, oz)" by (metis prod_cases3)
  have a: "a < length (store m)" by (rule ps_invD(4) [OF inv known])
  have sh: "shape (aoiManager m)" "scene_ok (aoiManager m)"
    using ps_invD(1) [OF inv] by (simp_all add: placed_def)
  have "in_scene (aoiManager m) (ox, oy, oz)"
    using aoi.inv_inside [OF ps_invD(1) [OF inv] known] o by simp
  then obtain g where g: "GetGrid (aoiManager m) ox oz = Ret g" using GetGrid_in_scene [OF sh] by blast
  have "\<not> out_of_scene (aoiManager m) NaN (Fin v)"
    using ps_invD(2,3) [OF inv] v by (simp add: out_of_scene_def integral_scene_def fle_def)
  then have "GetGrid (aoiManager m) NaN (Fin v) = Panic" using GetGrid_Panic_iff [OF sh] by simp
  then have "snd (UpdateEntity (entity_of ?st) a ox oz (aoiManager m)) = Panic"
    using g a by (simp add: UpdateEntity_def touch_def)
  then show ?thesis using known o
    by (simp add: UpdatePlayerPosition_def GetPlayer_def ignore_error_def put_player_def case_prod_beta)
qed


section \<open>Leaving the world\<close>

text \<open>
  A position outside of the world is stored, and the grid refuses it: the player stays listed in the cell it has left.
\<close>

lemma left_world_stale:
  assumes inv: "ps_inv m" and known: "fmlookup (players m) p = Some a"
    and out: "out_of_scene (aoiManager m) x z"
  shows "aoiManager (fst (UpdatePlayerPosition now p (Some (x, y, z)) m)) = aoiManager m
    \<and> Position (store (fst (UpdatePlayerPosition now p (Some (x, y, z)) m)) ! a) = (x, y, z)
    \<and> snd (UpdatePlayerPosition now p (Some (x, y, z)) m) = Ret ()"
proof -
  let ?st = "(store m)[a := touch now MaskPosition ((store m ! a)\<lparr>Position := (x, y, z)\<rparr>)]"
  obtain ox oy oz where o: "Position (store m ! a) = (ox, oy, oz)" by (metis prod_cases3)
  have a: "a < length (store m)" by (rule ps_invD(4) [OF inv known])
  have sh: "shape (aoiManager m)" "scene_ok (aoiManager m)"
    using ps_invD(1) [OF inv] by (simp_all add: placed_def)
  have "in_scene (aoiManager m) (ox, oy, oz)"
    using aoi.inv_inside [OF ps_invD(1) [OF inv] known] o by simp
  then obtain g where "GetGrid (aoiManager m) ox oz = Ret g" using GetGrid_in_scene [OF sh] by blast
  then have "UpdateEntity (entity_of ?st) a ox oz (aoiManager m) = (aoiManager m, Fail OutOfScene)"
    using a out by (simp add: UpdateEntity_def touch_def GetGrid_def)
  then show ?thesis using known o a
    by (simp add: UpdatePlayerPosition_def GetPlayer_def ignore_error_def put_player_def touch_def
        notifySubscribers_def)
qed

section \<open>Examples\<close>

lemma two_players:
  "\<exists>m :: unit PlayerStateManager. psm_reach m \<and> fmlookup (players m) = [''a'' \<mapsto> 0, ''b'' \<mapsto> 1]
    \<and> Position (store m ! 0) = (Fin 0, Fin 0, Fin 0) \<and> Position (store m ! 1) = (Fin 0, Fin 0, Fin 0)"
proof -
  obtain m0 :: "unit PlayerStateManager" where m0: "NewPlayerStateManager = Ret m0" "ps_inv m0" "players m0 = fmempty"
    using NewPlayerStateManager_ok by blast
  have st0: "store m0 = []" using m0(1) by (cases "NewAOIManager (Fin 0) (Fin 1000) (Fin 0) (Fin 1000) 20 :: (_, addr AOIManager) go")
    (auto simp: NewPlayerStateManager_def)
  define m1 where "m1 = fst (RegisterPlayer 7 ''a'' m0)"
  define m2 where "m2 = fst (RegisterPlayer 8 ''b'' m1)"
  have stores: "store (fst (RegisterPlayer t p m)) = store m @ [new_player p t]"
    if "fmlookup (players m) p = None" for t p and m :: "unit PlayerStateManager"
    using that by (simp add: RegisterPlayer_def ignore_error_def Let_def case_prod_beta split: go.split)
  have n0: "fmlookup (players m0) ''a'' = None" using m0(3) by simp
  note r1 = RegisterPlayer_new [OF m0(2) n0, of 7, folded m1_def]
  have n1: "fmlookup (players m1) ''b'' = None" using r1 m0(3) by (simp add: fmlookup_fun)
  have "ps_inv m1" using r1 by simp
  note r2 = RegisterPlayer_new [OF this n1, of 8, folded m2_def]
  have "psm_reach m2" unfolding m2_def m1_def
    by (intro psm_reach.step [OF _ psm_step.register] psm_reach.start [OF m0(1)])
  moreover have "store m2 = [new_player ''a'' 7, new_player ''b'' 8]"
    using stores [OF n0, of 7] stores [OF n1, of 8] st0 by (simp add: m1_def m2_def)
  moreover have "store m1 = [new_player ''a'' 7]" using stores [OF n0, of 7] st0 by (simp add: m1_def)
  ultimately show ?thesis using r1 r2 st0 by (intro exI [of _ m2]) (auto simp: new_player_def fmlookup_fun m0(3))
qed

lemma nearby_count_witness:
  "\<exists>m :: unit PlayerStateManager. psm_reach m \<and> PSM_GetNearbyPlayers ''a'' 1 m = Ret 2"
proof -
  obtain m :: "unit PlayerStateManager" where m: "psm_reach m" "fmlookup (players m) = [''a'' \<mapsto> 0, ''b'' \<mapsto> 1]"
    and pos: "Position (store m ! 0) = (Fin 0, Fin 0, Fin 0)" "Position (store m ! 1) = (Fin 0, Fin 0, Fin 0)"
    using two_players by blast
  have a: "fmlookup (players m) ''a'' = Some 0" using m(2) by simp
  have "{k. \<exists>b. fmlookup (players m) k = Some b
    \<and> \<bar>fst (world_cell (Position (store m ! b))) - fst (world_cell (Position (store m ! 0)))\<bar> \<le> 1
    \<and> \<bar>snd (world_cell (Position (store m ! b))) - snd (world_cell (Position (store m ! 0)))\<bar> \<le> 1} = {''a'', ''b''}"
    using pos m(2) by (auto split: if_splits)
  then show ?thesis using nearby_count [OF m(1) a, of 1] m(1) by (intro exI [of _ m]) (simp add: wrap64_def)
qed



end
