(* ===== verification/Game_Server.thy ===== *)
theory Game_Server
  imports Player_Sync "HOL-Library.AList"
begin

unbundle bit_operations_syntax

text \<open>
  The WebSocket game server of \<^verbatim>\<open>src/pkg/network/server.go\<close> and its message processor,
  \<^verbatim>\<open>src/pkg/network/message_handler.go\<close>. Clients are shared between the table and their goroutines, so
  they live in a store and are named by their address. A function returns, returns an error, panics, or is stuck:
  a goroutine that asks for \<^verbatim>\<open>clientsLock\<close> while it holds it waits for ever. What the write pumps send is
  recorded in \<open>sv_written\<close>, which is not in the code. The clock, protocol buffers and the WebSocket connections are
  parameters; \<open>now i\<close> is the \<open>i\<close>-th reading of the clock, in nanoseconds.
\<close>

section \<open>Protocol messages\<close>

record LoginRequest =
  lr_Header :: "MessageHeader option"
  lr_Username :: string
  lr_Password :: string
  lr_DeviceId :: string
  lr_ClientVersion :: string

record UserInfo =
  ui_UserId :: string
  ui_Username :: string
  ui_Nickname :: string
  ui_Level :: int
  ui_Exp :: int
  ui_VipLevel :: int
  ui_LastLoginTime :: int
  ui_CreatedTime :: int

record ServerInfo =
  si_ServerId :: string
  si_ServerName :: string
  si_ServerStatus :: int
  si_ServerAddress :: string
  si_ServerPort :: int
  si_OnlineCount :: int
  si_MaxOnlineCount :: int

record LoginResponse =
  lp_Header :: MessageHeader
  lp_UserId :: string
  lp_Token :: string
  lp_UserInfo :: UserInfo
  lp_ServerInfo :: ServerInfo

record HeartbeatResponse =
  hp_Header :: MessageHeader
  hp_ServerTime :: int

record FullChatRequest = ChatRequest +
  cr_SenderName :: string
  cr_Content :: string
  cr_ChannelId :: string

record CombatCommandRequest =
  cc_Header :: "MessageHeader option"
  cc_AttackerId :: string
  cc_TargetId :: string
  cc_SkillId :: int
  cc_Position :: "vec option"
  cc_Direction :: "vec option"
  cc_AffectedTargets :: "string list"
  cc_Timestamp :: int

record BuffEffect =
  be_BuffId :: int
  be_BuffName :: string
  be_Duration :: int
  be_Stacks :: int

record CombatResult =
  ct_TargetId :: string
  ct_Hit :: bool
  ct_Critical :: bool
  ct_Damage :: int
  ct_RemainingHp :: int
  ct_BuffEffects :: "BuffEffect list"

record CombatCommandResponse =
  cp_Header :: MessageHeader
  cp_Success :: bool
  cp_Results :: "CombatResult list"

text \<open>Marshalling and unmarshalling; a heartbeat request is used for its header only.\<close>

record game_pb =
  get_login :: "byte list \<Rightarrow> LoginRequest option"
  put_login :: "LoginResponse \<Rightarrow> byte list option"
  get_heartbeat :: "byte list \<Rightarrow> MessageHeader option option"
  put_heartbeat :: "HeartbeatResponse \<Rightarrow> byte list option"
  get_position :: "byte list \<Rightarrow> PositionSyncRequest option"
  put_position :: "PositionSyncResponse \<Rightarrow> byte list option"
  get_chat :: "byte list \<Rightarrow> FullChatRequest option"
  put_chat_request :: "FullChatRequest \<Rightarrow> byte list option"
  put_chat :: "ChatResponse \<Rightarrow> byte list option"
  get_combat :: "byte list \<Rightarrow> CombatCommandRequest option"
  put_combat :: "CombatCommandResponse \<Rightarrow> byte list option"

section \<open>The server\<close>

datatype message_handler = HLogin | HHeartbeat | HPosition | HChat | HCombat

record Client =
  cl_ID :: string
  cl_Send :: "byte list list"
  cl_closed :: bool
  cl_cancelled :: bool
  cl_open :: bool
  cl_lastPing :: int

record Server =
  sv_clients :: "(string \<times> nat) list"
  sv_heap :: "Client list"
  sv_handlers :: "(32 word, message_handler) fmap"
  sv_interval :: int
  sv_stopped :: bool
  sv_written :: "(nat \<times> byte list) list"

datatype game_error = UnmarshalFailed | MarshalFailed | SendBufferFull

datatype outcome = Done | Err game_error | Crash | Stuck

definition and_then :: "Server \<times> outcome \<Rightarrow> (Server \<Rightarrow> Server \<times> outcome) \<Rightarrow> Server \<times> outcome" where
  "and_then r f = (case r of (s, Done) \<Rightarrow> f s | _ \<Rightarrow> r)"

definition NewServer :: "int \<Rightarrow> Server" where
  "NewServer interval = \<lparr>sv_clients = [], sv_heap = [], sv_handlers = fmempty, sv_interval = interval,
     sv_stopped = False, sv_written = []\<rparr>"

definition RegisterServerHandler :: "32 word \<Rightarrow> message_handler \<Rightarrow> Server \<Rightarrow> Server" where
  "RegisterServerHandler msgID h s = s\<lparr>sv_handlers := fmupd msgID h (sv_handlers s)\<rparr>"

definition put_client :: "nat \<Rightarrow> Client \<Rightarrow> Server \<Rightarrow> Server" where
  "put_client a c s = s\<lparr>sv_heap := (sv_heap s)[a := c]\<rparr>"

text \<open>The connection, the clock and the generated ID; the result is the address of the client.\<close>

definition newClientFromWS :: "string \<Rightarrow> int \<Rightarrow> Server \<Rightarrow> Server \<times> nat" where
  "newClientFromWS clientID now s =
     (let client = \<lparr>cl_ID = clientID, cl_Send = [], cl_closed = False, cl_cancelled = sv_stopped s, cl_open = True,
                    cl_lastPing = now\<rparr>;
          a = length (sv_heap s)
      in (s\<lparr>sv_heap := sv_heap s @ [client], sv_clients := AList.update clientID a (sv_clients s)\<rparr>, a))"

text \<open>\<open>held\<close>: the calling goroutine holds \<^verbatim>\<open>clientsLock\<close>.\<close>

definition Client_Close :: "bool \<Rightarrow> nat \<Rightarrow> Server \<Rightarrow> Server \<times> outcome" where
  "Client_Close held a s =
     (let c = sv_heap s ! a
      in if cl_closed c then (s, Done)
         else
           let s = put_client a (c\<lparr>cl_closed := True, cl_cancelled := True, cl_open := False\<rparr>) s
           in if held then (s, Stuck)
              else (s\<lparr>sv_clients := AList.delete (cl_ID c) (sv_clients s)\<rparr>, Done))"

fun close_clients :: "nat list \<Rightarrow> Server \<Rightarrow> Server \<times> outcome" where
  "close_clients [] s = (s, Done)"
| "close_clients (a # as) s = and_then (Client_Close True a s) (close_clients as)"

text \<open>The contexts of the clients derive from the context of the server.\<close>

definition Stop :: "Server \<Rightarrow> Server \<times> outcome" where
  "Stop s =
     (let s = s\<lparr>sv_stopped := True, sv_heap := map (\<lambda>c. c\<lparr>cl_cancelled := True\<rparr>) (sv_heap s)\<rparr>
      in close_clients (map snd (sv_clients s)) s)"

definition send_capacity :: nat where
  "send_capacity = 256"

definition enqueue :: "nat \<Rightarrow> byte list \<Rightarrow> Server \<Rightarrow> Server" where
  "enqueue a message s = put_client a ((sv_heap s ! a)\<lparr>cl_Send := cl_Send (sv_heap s ! a) @ [message]\<rparr>) s"

fun broadcast_to :: "byte list \<Rightarrow> nat list \<Rightarrow> Server \<Rightarrow> Server \<times> outcome" where
  "broadcast_to message [] s = (s, Done)"
| "broadcast_to message (a # as) s =
     and_then (if length (cl_Send (sv_heap s ! a)) < send_capacity then (enqueue a message s, Done)
               else Client_Close True a s) (broadcast_to message as)"

definition Server_Broadcast :: "byte list \<Rightarrow> Server \<Rightarrow> Server \<times> outcome" where
  "Server_Broadcast message s = broadcast_to message (map snd (sv_clients s)) s"

fun check_clients :: "int \<Rightarrow> int \<Rightarrow> (string \<times> nat) list \<Rightarrow> Server \<Rightarrow> Server \<times> outcome" where
  "check_clients timeout now [] s = (s, Done)"
| "check_clients timeout now ((clientID, a) # rest) s =
     and_then
       (if timeout < now - cl_lastPing (sv_heap s ! a)
        then and_then (Client_Close True a s) (\<lambda>s. (s\<lparr>sv_clients := AList.delete clientID (sv_clients s)\<rparr>, Done))
        else (s, Done))
       (check_clients timeout now rest)"

definition heartbeat_timeout :: "Server \<Rightarrow> int" where
  "heartbeat_timeout s = wrap64 (wrap64 (sv_interval s * 2) * 1000000000)"

definition checkHeartbeats :: "int \<Rightarrow> Server \<Rightarrow> Server \<times> outcome" where
  "checkHeartbeats now s = check_clients (heartbeat_timeout s) now (sv_clients s) s"

text \<open>A ticker with an interval that is not positive panics.\<close>

definition writePump_start :: "Server \<Rightarrow> outcome" where
  "writePump_start s = (if wrap64 (go_quot (sv_interval s) 2 * 1000000000) \<le> 0 then Crash else Done)"

definition SendMessage :: "nat \<Rightarrow> byte list \<Rightarrow> Server \<Rightarrow> Server \<times> outcome" where
  "SendMessage a message s =
     (if length (cl_Send (sv_heap s ! a)) < send_capacity then (enqueue a message s, Done)
      else (s, Err SendBufferFull))"

text \<open>
  What the write pump does next: its context is done, it sends what is queued in one frame, or it sends a ping;
  \<open>ok\<close> tells whether the connection took it. The pump closes the client when it ends.
\<close>

datatype pump_event = PumpCtxDone | PumpMessage bool | PumpPing bool

definition writePump_step :: "nat \<Rightarrow> pump_event \<Rightarrow> Server \<Rightarrow> Server \<times> outcome" where
  "writePump_step a ev s =
     (case ev of
        PumpCtxDone \<Rightarrow> if cl_cancelled (sv_heap s ! a) then Client_Close False a s else (s, Done)
      | PumpMessage ok \<Rightarrow>
          (case cl_Send (sv_heap s ! a) of
             [] \<Rightarrow> (s, Done)
           | message # queue \<Rightarrow>
               let s = put_client a ((sv_heap s ! a)\<lparr>cl_Send := []\<rparr>) s
               in if ok then (s\<lparr>sv_written := sv_written s @ [(a, concat (message # queue))]\<rparr>, Done)
                  else Client_Close False a s)
      | PumpPing ok \<Rightarrow> if ok then (s, Done) else Client_Close False a s)"

section \<open>Message handlers\<close>

definition createResponseHeader :: "int \<Rightarrow> MessageHeader option \<Rightarrow> int \<Rightarrow> MessageHeader option" where
  "createResponseHeader now reqHeader msgID =
     (case reqHeader of
        None \<Rightarrow> None
      | Some h \<Rightarrow> Some \<lparr>MsgId = msgID, h_Timestamp = go_quot now 1000000, SessionId = SessionId h,
                        h_Version = h_Version h, ResultCode = 0, ResultMsg = ''success''\<rparr>)"

definition intToBytes :: "32 word \<Rightarrow> byte list" where
  "intToBytes val = be32 val"

text \<open>The end of every handler: marshal, prefix the message ID, send.\<close>

definition send_response :: "nat \<Rightarrow> 32 word \<Rightarrow> byte list option \<Rightarrow> Server \<Rightarrow> Server \<times> outcome" where
  "send_response a msgID marshalled s =
     (case marshalled of
        None \<Rightarrow> (s, Err MarshalFailed)
      | Some responseData \<Rightarrow> SendMessage a (intToBytes msgID @ responseData) s)"

definition HandleLoginRequest :: "game_pb \<Rightarrow> (nat \<Rightarrow> int) \<Rightarrow> nat \<Rightarrow> byte list \<Rightarrow> Server \<Rightarrow> Server \<times> outcome" where
  "HandleLoginRequest pb now a message s =
     (case get_login pb (drop 4 message) of
        None \<Rightarrow> (s, Err UnmarshalFailed)
      | Some request \<Rightarrow>
          (case createResponseHeader (now 0) (lr_Header request) 1002 of
             None \<Rightarrow> (s, Crash)
           | Some header \<Rightarrow>
               send_response a 1002
                 (put_login pb
                   \<lparr>lp_Header = header, lp_UserId = ''user_'' @ lr_Username request,
                    lp_Token = ''mock_token_'' @ lr_Username request,
                    lp_UserInfo = \<lparr>ui_UserId = ''user_'' @ lr_Username request, ui_Username = lr_Username request,
                       ui_Nickname = ''Player_'' @ lr_Username request, ui_Level = 1, ui_Exp = 0, ui_VipLevel = 0,
                       ui_LastLoginTime = now 1 div 1000000000, ui_CreatedTime = now 2 div 1000000000\<rparr>,
                    lp_ServerInfo = \<lparr>si_ServerId = ''server_1'', si_ServerName = ''Game Server 1'', si_ServerStatus = 1,
                       si_ServerAddress = ''127.0.0.1'', si_ServerPort = 8080, si_OnlineCount = 100,
                       si_MaxOnlineCount = 1000\<rparr>\<rparr>) s))"

definition HandleHeartbeatRequest :: "game_pb \<Rightarrow> (nat \<Rightarrow> int) \<Rightarrow> nat \<Rightarrow> byte list \<Rightarrow> Server \<Rightarrow> Server \<times> outcome" where
  "HandleHeartbeatRequest pb now a message s =
     (case get_heartbeat pb (drop 4 message) of
        None \<Rightarrow> (s, Err UnmarshalFailed)
      | Some reqHeader \<Rightarrow>
          (case createResponseHeader (now 0) reqHeader 2002 of
             None \<Rightarrow> (s, Crash)
           | Some header \<Rightarrow>
               let response = \<lparr>hp_Header = header, hp_ServerTime = go_quot (now 1) 1000000\<rparr>;
                   s = put_client a ((sv_heap s ! a)\<lparr>cl_lastPing := now 2\<rparr>) s
               in send_response a 2002 (put_heartbeat pb response) s))"

text \<open>The position is read before the header is.\<close>

definition HandlePositionSyncRequest :: "game_pb \<Rightarrow> (nat \<Rightarrow> int) \<Rightarrow> nat \<Rightarrow> byte list \<Rightarrow> Server \<Rightarrow> Server \<times> outcome" where
  "HandlePositionSyncRequest pb now a message s =
     (case get_position pb (drop 4 message) of
        None \<Rightarrow> (s, Err UnmarshalFailed)
      | Some request \<Rightarrow>
          (case req_Position request of
             None \<Rightarrow> (s, Crash)
           | Some (x, y, z) \<Rightarrow>
               (case createResponseHeader (now 0) (req_Header request) 3002 of
                  None \<Rightarrow> (s, Crash)
                | Some header \<Rightarrow>
                    send_response a 3002
                      (put_position pb
                        \<lparr>Success = True,
                         NearbyEntities = [\<lparr>EntityId = ''npc_1'', EntityType = ''npc'',
                           ep_Position = (fadd x (Fin 10), y, fadd z (Fin 10)), ep_Rotation = Fin 0,
                           ep_Velocity = Some (Fin 0, Fin 0, Fin 0)\<rparr>],
                         resp_Header = Some header\<rparr>) s)))"

definition HandleChatRequest :: "game_pb \<Rightarrow> (nat \<Rightarrow> int) \<Rightarrow> nat \<Rightarrow> byte list \<Rightarrow> Server \<Rightarrow> Server \<times> outcome" where
  "HandleChatRequest pb now a message s =
     (case get_chat pb (drop 4 message) of
        None \<Rightarrow> (s, Err UnmarshalFailed)
      | Some request \<Rightarrow>
          (case createResponseHeader (now 0) (cr_Header request) 4002 of
             None \<Rightarrow> (s, Crash)
           | Some header \<Rightarrow>
               let response = \<lparr>Delivered = True, MessageId = now 1, cs_Timestamp = now 2 div 1000000000,
                               cs_Header = Some header\<rparr>;
                   res = (if ChatType request = 0 then
                            (case put_chat_request pb request of
                               None \<Rightarrow> (s, Err MarshalFailed)
                             | Some broadcastData \<Rightarrow> Server_Broadcast (intToBytes 4001 @ broadcastData) s)
                          else (s, Done))
               in and_then res (send_response a 4002 (put_chat pb response))))"

definition HandleCombatCommandRequest :: "game_pb \<Rightarrow> (nat \<Rightarrow> int) \<Rightarrow> nat \<Rightarrow> byte list \<Rightarrow> Server \<Rightarrow> Server \<times> outcome" where
  "HandleCombatCommandRequest pb now a message s =
     (case get_combat pb (drop 4 message) of
        None \<Rightarrow> (s, Err UnmarshalFailed)
      | Some request \<Rightarrow>
          (case createResponseHeader (now 0) (cc_Header request) 5002 of
             None \<Rightarrow> (s, Crash)
           | Some header \<Rightarrow>
               send_response a 5002
                 (put_combat pb
                   \<lparr>cp_Header = header, cp_Success = True,
                    cp_Results = [\<lparr>ct_TargetId = cc_TargetId request, ct_Hit = True, ct_Critical = False,
                      ct_Damage = 100, ct_RemainingHp = 900,
                      ct_BuffEffects = [\<lparr>be_BuffId = 1, be_BuffName = ''Bleed'', be_Duration = 5, be_Stacks = 1\<rparr>]\<rparr>]\<rparr>) s))"

definition NewMessageProcessor :: "Server \<Rightarrow> Server" where
  "NewMessageProcessor s =
     RegisterServerHandler 5001 HCombat (RegisterServerHandler 4001 HChat (RegisterServerHandler 3001 HPosition
       (RegisterServerHandler 2001 HHeartbeat (RegisterServerHandler 1001 HLogin s))))"

fun call_handler ::
    "game_pb \<Rightarrow> (nat \<Rightarrow> int) \<Rightarrow> message_handler \<Rightarrow> nat \<Rightarrow> byte list \<Rightarrow> Server \<Rightarrow> Server \<times> outcome" where
  "call_handler pb now HLogin = HandleLoginRequest pb now"
| "call_handler pb now HHeartbeat = HandleHeartbeatRequest pb now"
| "call_handler pb now HPosition = HandlePositionSyncRequest pb now"
| "call_handler pb now HChat = HandleChatRequest pb now"
| "call_handler pb now HCombat = HandleCombatCommandRequest pb now"

definition message_id :: "byte list \<Rightarrow> 32 word" where
  "message_id message =
     push_bit 24 (ucast (message ! 0)) OR push_bit 16 (ucast (message ! 1))
       OR push_bit 8 (ucast (message ! 2)) OR ucast (message ! 3)"

text \<open>An error of a handler is logged.\<close>

definition Client_handleMessage ::
    "game_pb \<Rightarrow> (nat \<Rightarrow> int) \<Rightarrow> nat \<Rightarrow> byte list \<Rightarrow> Server \<Rightarrow> Server \<times> outcome" where
  "Client_handleMessage pb now a message s =
     (if length message < 4 then (s, Done)
      else
        case fmlookup (sv_handlers s) (message_id message) of
          None \<Rightarrow> (s, Done)
        | Some h \<Rightarrow>
            (case call_handler pb now h a message s of
               (s, Err e) \<Rightarrow> (s, Done)
             | r \<Rightarrow> r))"

text \<open>The read pump: a pong, a message, or an error, which ends it.\<close>

datatype read_event = GotPong int | GotMessage "byte list" "nat \<Rightarrow> int" | ReadError

fun readPump :: "game_pb \<Rightarrow> nat \<Rightarrow> read_event list \<Rightarrow> Server \<Rightarrow> Server \<times> outcome" where
  "readPump pb a [] s = (s, Done)"
| "readPump pb a (GotPong now # evs) s =
     readPump pb a evs (put_client a ((sv_heap s ! a)\<lparr>cl_lastPing := now\<rparr>) s)"
| "readPump pb a (GotMessage message now # evs) s =
     and_then (Client_handleMessage pb now a message s) (readPump pb a evs)"
| "readPump pb a (ReadError # evs) s = Client_Close False a s"

section \<open>Runs\<close>

datatype server_op =
    Connect string int | CloseClient nat | StopServer | BroadcastAll "byte list" | CheckHeartbeats int
  | Pump nat pump_event | Incoming nat "byte list" "nat \<Rightarrow> int" | Pong nat int

fun server_exec :: "game_pb \<Rightarrow> server_op \<Rightarrow> Server \<Rightarrow> Server \<times> outcome" where
  "server_exec pb (Connect clientID now) s = (fst (newClientFromWS clientID now s), Done)"
| "server_exec pb (CloseClient a) s = Client_Close False a s"
| "server_exec pb StopServer s = Stop s"
| "server_exec pb (BroadcastAll m) s = Server_Broadcast m s"
| "server_exec pb (CheckHeartbeats now) s = checkHeartbeats now s"
| "server_exec pb (Pump a ev) s = writePump_step a ev s"
| "server_exec pb (Incoming a m now) s = Client_handleMessage pb now a m s"
| "server_exec pb (Pong a now) s = (put_client a ((sv_heap s ! a)\<lparr>cl_lastPing := now\<rparr>) s, Done)"

text \<open>Generated IDs are new, and goroutines belong to clients.\<close>

fun op_fits :: "server_op \<Rightarrow> Server \<Rightarrow> bool" where
  "op_fits (Connect clientID now) s = (clientID \<notin> cl_ID ` set (sv_heap s))"
| "op_fits (CloseClient a) s = (a < length (sv_heap s))"
| "op_fits (Pump a ev) s = (a < length (sv_heap s))"
| "op_fits (Incoming a m now) s = (a < length (sv_heap s))"
| "op_fits (Pong a now) s = (a < length (sv_heap s))"
| "op_fits _ s = True"

inductive server_reach :: "game_pb \<Rightarrow> Server \<Rightarrow> bool" for pb where
  start: "server_reach pb (NewMessageProcessor (NewServer interval))"
| step: "server_reach pb s \<Longrightarrow> op_fits op s \<Longrightarrow> server_exec pb op s = (s', Done) \<Longrightarrow> server_reach pb s'"

section \<open>The well-formed server\<close>

text \<open>
  The table holds exactly the clients that are not closed, under their IDs; queues keep to their capacity; a closed
  client is cancelled and its connection is closed.
\<close>

definition client_ok :: "Client \<Rightarrow> bool" where
  "client_ok c \<longleftrightarrow> length (cl_Send c) \<le> send_capacity \<and> cl_open c = (\<not> cl_closed c) \<and> (cl_closed c \<longrightarrow> cl_cancelled c)"

definition server_ok :: "Server \<Rightarrow> bool" where
  "server_ok s \<longleftrightarrow> distinct (map cl_ID (sv_heap s)) \<and> distinct (map fst (sv_clients s))
     \<and> (\<forall>c \<in> set (sv_heap s). client_ok c)
     \<and> (\<forall>i a. map_of (sv_clients s) i = Some a \<longleftrightarrow>
          a < length (sv_heap s) \<and> cl_ID (sv_heap s ! a) = i \<and> \<not> cl_closed (sv_heap s ! a))"

lemma server_ok_map:
  "server_ok s \<Longrightarrow> map_of (sv_clients s) i = Some a \<longleftrightarrow>
     a < length (sv_heap s) \<and> cl_ID (sv_heap s ! a) = i \<and> \<not> cl_closed (sv_heap s ! a)"
  unfolding server_ok_def by blast

lemma server_ok_table:
  assumes "server_ok s" and "a \<in> set (map snd (sv_clients s))"
  shows "a < length (sv_heap s) \<and> \<not> cl_closed (sv_heap s ! a)"
proof -
  obtain i where "(i, a) \<in> set (sv_clients s)" using assms(2) by auto
  moreover have "distinct (map fst (sv_clients s))" using assms(1) unfolding server_ok_def by blast
  ultimately have "map_of (sv_clients s) i = Some a" by simp
  then show ?thesis unfolding server_ok_map [OF assms(1)] by blast
qed

lemma server_ok_distinct:
  assumes "server_ok s"
  shows "distinct (map snd (sv_clients s))"
proof -
  have d: "distinct (map fst (sv_clients s))" using assms unfolding server_ok_def by blast
  have "i = cl_ID (sv_heap s ! a)" if "(i, a) \<in> set (sv_clients s)" for i a
  proof -
    have "map_of (sv_clients s) i = Some a" using d that by simp
    then show ?thesis unfolding server_ok_map [OF assms] by blast
  qed
  then have "inj_on snd (set (sv_clients s))" by (intro inj_onI) (metis prod.collapse)
  moreover have "distinct (sv_clients s)" using d by (simp add: distinct_map)
  ultimately show ?thesis by (simp add: distinct_map)
qed

text \<open>A change of one client that keeps its ID and whether it is closed.\<close>

lemma put_client_ok:
  assumes "server_ok s" and "a < length (sv_heap s)" and "client_ok c"
    and "cl_ID c = cl_ID (sv_heap s ! a)" and "cl_closed c = cl_closed (sv_heap s ! a)"
  shows "server_ok (put_client a c s)"
proof -
  have "map cl_ID ((sv_heap s)[a := c]) = map cl_ID (sv_heap s)"
    using assms(2,4) by (metis list_update_id map_update nth_map)
  moreover have "\<forall>d \<in> set ((sv_heap s)[a := c]). client_ok d"
    using assms(1,3) set_update_subset_insert [of "sv_heap s" a c] unfolding server_ok_def by blast
  moreover have "b < length (sv_heap s) \<Longrightarrow> cl_ID ((sv_heap s)[a := c] ! b) = cl_ID (sv_heap s ! b)
      \<and> cl_closed ((sv_heap s)[a := c] ! b) = cl_closed (sv_heap s ! b)" for b
    using assms(4,5) by (cases "a = b") simp_all
  moreover have "map_of (sv_clients s) i = Some b \<longleftrightarrow> b < length ((sv_heap s)[a := c])
      \<and> cl_ID ((sv_heap s)[a := c] ! b) = i \<and> \<not> cl_closed ((sv_heap s)[a := c] ! b)" for i b
    unfolding server_ok_map [OF assms(1)] using calculation(3) [of b] by auto
  moreover have "distinct (map cl_ID (sv_heap s))" "distinct (map fst (sv_clients s))"
    using assms(1) unfolding server_ok_def by blast+
  ultimately show ?thesis unfolding server_ok_def put_client_def by simp
qed

lemma client_ok_nth: "server_ok s \<Longrightarrow> a < length (sv_heap s) \<Longrightarrow> client_ok (sv_heap s ! a)"
  unfolding server_ok_def by simp

lemma enqueue_ok:
  assumes "server_ok s" and "a < length (sv_heap s)" and "length (cl_Send (sv_heap s ! a)) < send_capacity"
  shows "server_ok (enqueue a m s)"
  unfolding enqueue_def
  by (rule put_client_ok [OF assms(1,2)]) (use assms client_ok_nth [OF assms(1,2)] in \<open>simp_all add: client_ok_def\<close>)

lemma Client_Close_ok:
  assumes "server_ok s" and "a < length (sv_heap s)"
  shows "server_ok (fst (Client_Close False a s)) \<and> snd (Client_Close False a s) = Done"
proof (cases "cl_closed (sv_heap s ! a)")
  case True
  then show ?thesis using assms by (simp add: Client_Close_def)
next
  case False
  let ?c = "(sv_heap s ! a)\<lparr>cl_closed := True, cl_cancelled := True, cl_open := False\<rparr>"
  let ?s = "(put_client a ?c s)\<lparr>sv_clients := AList.delete (cl_ID (sv_heap s ! a)) (sv_clients s)\<rparr>"
  have e: "Client_Close False a s = (?s, Done)" using False by (simp add: Client_Close_def put_client_def Let_def)
  have ids: "distinct (map cl_ID (sv_heap s))" and keys: "distinct (map fst (sv_clients s))"
    and all: "\<forall>c \<in> set (sv_heap s). client_ok c"
    using assms(1) unfolding server_ok_def by blast+
  have "server_ok ?s" unfolding server_ok_def
  proof (intro conjI allI ballI)
    have "map cl_ID ((sv_heap s)[a := ?c]) = map cl_ID (sv_heap s)"
      using assms(2) by (intro nth_equalityI) (auto simp: nth_list_update)
    then show "distinct (map cl_ID (sv_heap ?s))" using ids by (simp add: put_client_def)
    show "distinct (map fst (sv_clients ?s))" using keys by (simp add: distinct_delete)
    have "client_ok ?c" using client_ok_nth [OF assms] by (simp add: client_ok_def)
    then show "client_ok c" if "c \<in> set (sv_heap ?s)" for c
      using that all set_update_subset_insert [of "sv_heap s" a ?c] by (auto simp: put_client_def)
  next
    fix i b
    show "map_of (sv_clients ?s) i = Some b \<longleftrightarrow> b < length (sv_heap ?s) \<and> cl_ID (sv_heap ?s ! b) = i
        \<and> \<not> cl_closed (sv_heap ?s ! b)"
    proof (cases "b = a")
      case True
      then show ?thesis using assms(2) server_ok_map [OF assms(1), of i a]
        by (auto simp: put_client_def delete_conv')
    next
      case neq: False
      have "cl_ID (sv_heap s ! b) \<noteq> cl_ID (sv_heap s ! a)" if "b < length (sv_heap s)"
        using ids that assms(2) neq by (simp add: distinct_conv_nth)
      then show ?thesis using neq server_ok_map [OF assms(1), of i b]
        by (auto simp: put_client_def delete_conv')
    qed
  qed
  then show ?thesis by (simp add: e)
qed

lemma newClient_ok:
  assumes "server_ok s" and "clientID \<notin> cl_ID ` set (sv_heap s)"
  shows "server_ok (fst (newClientFromWS clientID now s))"
proof -
  let ?s = "fst (newClientFromWS clientID now s)" and ?n = "length (sv_heap s)"
  let ?c = "\<lparr>cl_ID = clientID, cl_Send = [], cl_closed = False, cl_cancelled = sv_stopped s, cl_open = True,
    cl_lastPing = now\<rparr>"
  have new: "sv_heap ?s = sv_heap s @ [?c]" "sv_clients ?s = AList.update clientID ?n (sv_clients s)"
    by (simp_all add: newClientFromWS_def Let_def)
  have "map_of (sv_clients ?s) i = Some b \<longleftrightarrow> b < length (sv_heap ?s) \<and> cl_ID (sv_heap ?s ! b) = i
      \<and> \<not> cl_closed (sv_heap ?s ! b)" for i b
  proof (cases "b = ?n")
    case True
    then show ?thesis using server_ok_map [OF assms(1), of i ?n] by (auto simp: new update_conv')
  next
    case False
    have "b < ?n \<Longrightarrow> cl_ID (sv_heap s ! b) \<noteq> clientID" using assms(2) nth_mem by blast
    then show ?thesis using False server_ok_map [OF assms(1), of i b]
      by (auto simp: new update_conv' nth_append less_Suc_eq)
  qed
  moreover have "distinct (map cl_ID (sv_heap s))" "distinct (map fst (sv_clients s))"
    "\<forall>c \<in> set (sv_heap s). client_ok c"
    using assms(1) unfolding server_ok_def by blast+
  ultimately show ?thesis using assms(2) unfolding server_ok_def
    by (simp add: new distinct_update client_ok_def)
qed

section \<open>Loops under the lock\<close>

lemma and_then_simps [simp]:
  "and_then (s, Done) f = f s" "and_then (s, Err e) f = (s, Err e)"
  "and_then (s, Crash) f = (s, Crash)" "and_then (s, Stuck) f = (s, Stuck)"
  by (simp_all add: and_then_def)

text \<open>Closing a client that is not closed, with the lock held, is the end of the goroutine.\<close>

lemma close_held: "\<not> cl_closed (sv_heap s ! a) \<Longrightarrow> snd (Client_Close True a s) = Stuck"
  by (simp add: Client_Close_def Let_def)

lemma and_then_stuck: "snd r = Stuck \<Longrightarrow> snd (and_then r f) = Stuck"
  by (cases r) (auto simp: and_then_def)

lemma close_clients_stuck:
  "\<forall>a \<in> set as. \<not> cl_closed (sv_heap s ! a) \<Longrightarrow> snd (close_clients as s) = (if as = [] then Done else Stuck)"
  by (cases as) (simp_all add: and_then_stuck close_held)

lemma enqueue_heap:
  "a < length (sv_heap s) \<Longrightarrow> sv_heap (enqueue a m s) ! b =
     (if b = a then (sv_heap s ! a)\<lparr>cl_Send := cl_Send (sv_heap s ! a) @ [m]\<rparr> else sv_heap s ! b)"
  "length (sv_heap (enqueue a m s)) = length (sv_heap s)" "sv_clients (enqueue a m s) = sv_clients s"
  by (simp_all add: enqueue_def put_client_def)

lemma broadcast_to_outcome:
  "distinct as \<Longrightarrow> \<forall>a \<in> set as. a < length (sv_heap s) \<and> \<not> cl_closed (sv_heap s ! a) \<Longrightarrow>
   snd (broadcast_to m as s) =
     (if \<forall>a \<in> set as. length (cl_Send (sv_heap s ! a)) < send_capacity then Done else Stuck)"
proof (induction as arbitrary: s)
  case (Cons a as)
  show ?case
  proof (cases "length (cl_Send (sv_heap s ! a)) < send_capacity")
    case True
    have h: "sv_heap (enqueue a m s) ! b = sv_heap s ! b" if "b \<in> set as" for b
      using that Cons.prems by (auto simp: enqueue_heap)
    show ?thesis using True Cons.prems Cons.IH [of "enqueue a m s"] by (simp add: h enqueue_heap(2,3))
  next
    case False
    then show ?thesis using Cons.prems by (auto simp: and_then_stuck close_held)
  qed
qed simp

lemma broadcast_to_heap:
  "distinct as \<Longrightarrow> \<forall>a \<in> set as. a < length (sv_heap s) \<and> length (cl_Send (sv_heap s ! a)) < send_capacity \<Longrightarrow>
   (\<forall>b. sv_heap (fst (broadcast_to m as s)) ! b =
      (if b \<in> set as then (sv_heap s ! b)\<lparr>cl_Send := cl_Send (sv_heap s ! b) @ [m]\<rparr> else sv_heap s ! b))
   \<and> length (sv_heap (fst (broadcast_to m as s))) = length (sv_heap s)"
proof (induction as arbitrary: s)
  case (Cons a as)
  have h: "sv_heap (enqueue a m s) ! b = sv_heap s ! b" if "b \<in> set as" for b
    using that Cons.prems by (auto simp: enqueue_heap)
  have "\<forall>a' \<in> set as. a' < length (sv_heap (enqueue a m s))
      \<and> length (cl_Send (sv_heap (enqueue a m s) ! a')) < send_capacity"
    using Cons.prems by (simp add: h enqueue_heap)
  then show ?case using Cons.IH [of "enqueue a m s"] Cons.prems by (auto simp: enqueue_heap)
qed simp

lemma broadcast_to_ok:
  "server_ok s \<Longrightarrow> \<forall>a \<in> set as. a < length (sv_heap s) \<Longrightarrow> snd (broadcast_to m as s) = Done \<Longrightarrow>
   \<forall>a \<in> set as. \<not> cl_closed (sv_heap s ! a) \<Longrightarrow> distinct as \<Longrightarrow>
   server_ok (fst (broadcast_to m as s)) \<and> length (sv_heap (fst (broadcast_to m as s))) = length (sv_heap s)"
proof (induction as arbitrary: s)
  case (Cons a as)
  have "length (cl_Send (sv_heap s ! a)) < send_capacity"
    using broadcast_to_outcome [of "a # as" s m] Cons.prems by (auto split: if_splits)
  moreover have "sv_heap (enqueue a m s) ! b = sv_heap s ! b" if "b \<in> set as" for b
    using that Cons.prems by (auto simp: enqueue_heap)
  ultimately show ?case using Cons.IH [of "enqueue a m s"] Cons.prems enqueue_ok [of s a m]
    by (simp add: enqueue_heap)
qed simp

lemma check_clients_outcome:
  "\<forall>(i, a) \<in> set l. \<not> cl_closed (sv_heap s ! a) \<Longrightarrow>
   (if \<exists>(i, a) \<in> set l. t < now - cl_lastPing (sv_heap s ! a) then snd (check_clients t now l s) = Stuck
    else check_clients t now l s = (s, Done))"
proof (induction l)
  case (Cons x l)
  obtain i a where x: "x = (i, a)" by (cases x)
  show ?case
  proof (cases "t < now - cl_lastPing (sv_heap s ! a)")
    case True
    then show ?thesis using Cons.prems by (simp add: x and_then_stuck close_held)
  next
    case False
    then show ?thesis using Cons by (auto simp: x)
  qed
qed simp

lemma server_ok_open:
  assumes "server_ok s"
  shows "\<forall>a \<in> set (map snd (sv_clients s)). a < length (sv_heap s) \<and> \<not> cl_closed (sv_heap s ! a)"
    and "\<forall>(i, a) \<in> set (sv_clients s). \<not> cl_closed (sv_heap s ! a)"
  using server_ok_table [OF assms] by force+

lemma Broadcast_outcome:
  assumes "server_ok s"
  shows "snd (Server_Broadcast m s) =
    (if \<forall>a \<in> set (map snd (sv_clients s)). length (cl_Send (sv_heap s ! a)) < send_capacity then Done else Stuck)"
  unfolding Server_Broadcast_def
  by (rule broadcast_to_outcome [OF server_ok_distinct [OF assms] server_ok_open(1) [OF assms]])

lemma Broadcast_ok:
  assumes "server_ok s" and "snd (Server_Broadcast m s) = Done"
  shows "server_ok (fst (Server_Broadcast m s)) \<and> length (sv_heap (fst (Server_Broadcast m s))) = length (sv_heap s)"
  using broadcast_to_ok [OF assms(1) _ _ _ server_ok_distinct [OF assms(1)], of m] server_ok_open(1) [OF assms(1)]
    assms(2) unfolding Server_Broadcast_def by blast

lemma Stop_outcome:
  assumes "server_ok s"
  shows "snd (Stop s) = (if sv_clients s = [] then Done else Stuck)"
proof -
  define s' where "s' = s\<lparr>sv_stopped := True, sv_heap := map (\<lambda>c. c\<lparr>cl_cancelled := True\<rparr>) (sv_heap s)\<rparr>"
  have "\<forall>a \<in> set (map snd (sv_clients s)). \<not> cl_closed (sv_heap s' ! a)"
    using server_ok_open(1) [OF assms] by (auto simp: s'_def)
  from close_clients_stuck [OF this] show ?thesis by (simp add: Stop_def s'_def)
qed

lemma checkHeartbeats_outcome:
  assumes "server_ok s"
  shows "if \<exists>(i, a) \<in> set (sv_clients s). heartbeat_timeout s < now - cl_lastPing (sv_heap s ! a)
    then snd (checkHeartbeats now s) = Stuck else checkHeartbeats now s = (s, Done)"
  unfolding checkHeartbeats_def by (rule check_clients_outcome [OF server_ok_open(2) [OF assms]])

section \<open>Handlers keep the server well-formed\<close>

definition returned :: "outcome \<Rightarrow> bool" where
  "returned r \<longleftrightarrow> r \<noteq> Crash \<and> r \<noteq> Stuck"

lemma SendMessage_ok:
  assumes "server_ok s" and "a < length (sv_heap s)"
  shows "server_ok (fst (SendMessage a m s)) \<and> returned (snd (SendMessage a m s))"
  using assms enqueue_ok by (auto simp: SendMessage_def returned_def)

lemma send_response_ok:
  assumes "server_ok s" and "a < length (sv_heap s)"
  shows "server_ok (fst (send_response a i m s)) \<and> returned (snd (send_response a i m s))"
  using SendMessage_ok [OF assms] assms by (auto simp: send_response_def returned_def split: option.splits)

lemma lastPing_ok:
  assumes "server_ok s" and "a < length (sv_heap s)"
  shows "server_ok (put_client a ((sv_heap s ! a)\<lparr>cl_lastPing := t\<rparr>) s)"
  by (rule put_client_ok [OF assms]) (use client_ok_nth [OF assms] in \<open>simp_all add: client_ok_def\<close>)

lemma handler_ok:
  assumes "server_ok s" and "a < length (sv_heap s)" and "returned (snd (call_handler pb now h a message s))"
  shows "server_ok (fst (call_handler pb now h a message s))"
proof (cases h)
  case HLogin
  then show ?thesis using assms send_response_ok [OF assms(1,2)]
    by (auto simp: HandleLoginRequest_def returned_def split: option.splits)
next
  case HHeartbeat
  have "a < length (sv_heap (put_client a c s))" for c using assms(2) by (simp add: put_client_def)
  then show ?thesis using HHeartbeat assms send_response_ok [OF lastPing_ok [OF assms(1,2)]]
    by (auto simp: HandleHeartbeatRequest_def returned_def Let_def split: option.splits)
next
  case HPosition
  then show ?thesis using assms send_response_ok [OF assms(1,2)]
    by (auto simp: HandlePositionSyncRequest_def returned_def split: option.splits)
next
  case HCombat
  then show ?thesis using assms send_response_ok [OF assms(1,2)]
    by (auto simp: HandleCombatCommandRequest_def returned_def split: option.splits)
next
  case HChat
  have b: "server_ok (fst (and_then (Server_Broadcast m s) (send_response a i r)))"
    if r: "returned (snd (and_then (Server_Broadcast m s) (send_response a i r)))" for m i r
  proof -
    have "snd (Server_Broadcast m s) = Done"
      using r Broadcast_outcome [OF assms(1), of m] by (cases "Server_Broadcast m s") (auto simp: returned_def split: if_splits)
    moreover from Broadcast_ok [OF assms(1) this] assms(2)
    have "server_ok (fst (send_response a i r (fst (Server_Broadcast m s))))" using send_response_ok by simp
    ultimately show ?thesis by (cases "Server_Broadcast m s") simp
  qed
  show ?thesis
    using HChat assms send_response_ok [OF assms(1,2)] b
    by (auto simp: HandleChatRequest_def returned_def Let_def split: option.splits if_splits)
qed

lemma Client_handleMessage_ok:
  assumes "server_ok s" and "a < length (sv_heap s)" and "Client_handleMessage pb now a m s = (s', Done)"
  shows "server_ok s'"
proof (cases "fmlookup (sv_handlers s) (message_id m)")
  case (Some h)
  then show ?thesis using assms handler_ok [OF assms(1,2), of pb now h m]
    by (auto simp: Client_handleMessage_def returned_def split: if_splits outcome.splits prod.splits)
qed (use assms in \<open>auto simp: Client_handleMessage_def split: if_splits\<close>)

lemma writePump_ok:
  assumes "server_ok s" and "a < length (sv_heap s)"
  shows "server_ok (fst (writePump_step a ev s)) \<and> snd (writePump_step a ev s) = Done"
proof -
  define s1 where "s1 = put_client a ((sv_heap s ! a)\<lparr>cl_Send := []\<rparr>) s"
  have "server_ok s1" unfolding s1_def
    by (rule put_client_ok [OF assms]) (use client_ok_nth [OF assms] in \<open>simp_all add: client_ok_def\<close>)
  moreover have "a < length (sv_heap s1)" using assms(2) by (simp add: s1_def put_client_def)
  moreover have "server_ok (s1\<lparr>sv_written := w\<rparr>)" for w using calculation(1) by (simp add: server_ok_def)
  ultimately show ?thesis using assms Client_Close_ok
    by (auto simp: writePump_step_def Let_def s1_def [symmetric] split: pump_event.splits list.splits)
qed

lemma server_exec_ok:
  assumes "server_ok s" and "op_fits op s" and "server_exec pb op s = (s', Done)"
  shows "server_ok s'"
proof (cases op)
  case (Connect i now)
  then show ?thesis using assms newClient_ok [OF assms(1)] by auto
next
  case (CloseClient a)
  then show ?thesis using assms Client_Close_ok [OF assms(1), of a] by auto
next
  case StopServer
  then have e: "sv_clients s = []" using assms Stop_outcome [OF assms(1)] by (auto split: if_splits)
  then have "s' = s\<lparr>sv_stopped := True, sv_heap := map (\<lambda>c. c\<lparr>cl_cancelled := True\<rparr>) (sv_heap s)\<rparr>"
    using assms(3) StopServer by (simp add: Stop_def)
  then show ?thesis using assms(1) e unfolding server_ok_def by (auto simp: client_ok_def comp_def)
next
  case (BroadcastAll m)
  then show ?thesis using assms Broadcast_ok [OF assms(1), of m] by auto
next
  case (CheckHeartbeats now)
  then show ?thesis using assms checkHeartbeats_outcome [OF assms(1), of now] by (auto split: if_splits)
next
  case (Pump a ev)
  then show ?thesis using assms writePump_ok [OF assms(1), of a ev] by auto
next
  case (Incoming a m now)
  then show ?thesis using assms Client_handleMessage_ok [OF assms(1)] by auto
next
  case (Pong a now)
  then show ?thesis using assms lastPing_ok [OF assms(1), of a now] by auto
qed

lemma server_reach_ok: "server_reach pb s \<Longrightarrow> server_ok s"
proof (induction rule: server_reach.induct)
  case (start interval)
  show ?case by (simp add: server_ok_def NewMessageProcessor_def RegisterServerHandler_def NewServer_def)
qed (rule server_exec_ok)

section \<open>Message IDs\<close>

lemma byte_of_div: "(word_of_nat (unat v div 2 ^ n) :: byte) = ucast (drop_bit n (v :: 32 word))"
proof -
  have "unat (drop_bit n v) = drop_bit n (unat v)" by (rule unat_drop_bit_eq)
  then have "unat v div 2 ^ n = unat (drop_bit n v)" by (simp only: drop_bit_eq_div)
  then show ?thesis by (simp only: of_nat_unat)
qed

lemma intToBytes_bytes:
  "intToBytes v = [ucast (drop_bit 24 v), ucast (drop_bit 16 v), ucast (drop_bit 8 v), ucast (drop_bit 0 v)]"
proof -
  have four: "(4 :: nat) = Suc (Suc (Suc (Suc 0)))" by simp
  have "be_bytes 4 n = [word_of_nat (n div 2 ^ 24), word_of_nat (n div 2 ^ 16), word_of_nat (n div 2 ^ 8),
      word_of_nat (n div 2 ^ 0)]" for n
    unfolding four be_bytes.simps by simp
  then show ?thesis by (simp only: intToBytes_def be32_def put_be_def byte_of_div)
qed

lemma message_id_intToBytes: "message_id (intToBytes v @ body) = v"
proof (rule bit_word_eqI)
  fix n assume n: "n < LENGTH(32)"
  then consider "n < 8" | "8 \<le> n" "n < 16" | "16 \<le> n" "n < 24" | "24 \<le> n" "n < 32" by fastforce
  then show "bit (message_id (intToBytes v @ body)) n = bit v n"
    by cases (auto simp: message_id_def intToBytes_bytes bit_simps)
qed

section \<open>Properties\<close>



text \<open>Empty bytes are the encoding of a message without fields.\<close>

definition game_pb_ok :: "game_pb \<Rightarrow> bool" where
  "game_pb_ok pb \<longleftrightarrow> (\<exists>r. get_login pb [] = Some r \<and> lr_Header r = None) \<and> get_heartbeat pb [] = Some None
     \<and> (\<exists>r. get_position pb [] = Some r \<and> req_Header r = None \<and> req_Position r = None)
     \<and> (\<exists>r. get_chat pb [] = Some r \<and> cr_Header r = None) \<and> (\<exists>r. get_combat pb [] = Some r \<and> cc_Header r = None)"

definition handler_of :: "32 word \<Rightarrow> message_handler option" where
  "handler_of i = (if i = 1001 then Some HLogin else if i = 2001 then Some HHeartbeat else if i = 3001 then Some HPosition
     else if i = 4001 then Some HChat else if i = 5001 then Some HCombat else None)"

lemma handlers_kept:
  "sv_handlers (fst (Client_Close held a s)) = sv_handlers s" "sv_handlers (put_client a c s) = sv_handlers s"
  "sv_handlers (enqueue a m s) = sv_handlers s"
  by (simp_all add: Client_Close_def put_client_def enqueue_def Let_def)

lemma and_then_handlers:
  "sv_handlers (fst r) = h \<Longrightarrow> (\<And>s. sv_handlers s = h \<Longrightarrow> sv_handlers (fst (f s)) = h) \<Longrightarrow>
     sv_handlers (fst (and_then r f)) = h"
  by (cases r; cases "snd r") (auto simp: and_then_def)

lemma loops_handlers:
  "sv_handlers s = h \<Longrightarrow> sv_handlers (fst (close_clients as s)) = h"
  "sv_handlers s = h \<Longrightarrow> sv_handlers (fst (broadcast_to m as s)) = h"
  "sv_handlers s = h \<Longrightarrow> sv_handlers (fst (check_clients t now l s)) = h"
proof -
  show "sv_handlers s = h \<Longrightarrow> sv_handlers (fst (close_clients as s)) = h"
    by (induction as arbitrary: s) (auto intro!: and_then_handlers simp: handlers_kept)
  show "sv_handlers s = h \<Longrightarrow> sv_handlers (fst (broadcast_to m as s)) = h"
    by (induction as arbitrary: s) (auto intro!: and_then_handlers simp: handlers_kept)
  show "sv_handlers s = h \<Longrightarrow> sv_handlers (fst (check_clients t now l s)) = h"
    by (induction l arbitrary: s) (auto intro!: and_then_handlers simp: handlers_kept)
qed

lemma send_response_handlers: "sv_handlers (fst (send_response a i m s)) = sv_handlers s"
  by (simp add: send_response_def SendMessage_def handlers_kept split: option.splits)

lemma call_handler_handlers: "sv_handlers (fst (call_handler pb now h a m s)) = sv_handlers s"
proof (cases h)
  case HChat
  have "sv_handlers (fst (Server_Broadcast x s)) = sv_handlers s" for x by (simp add: Server_Broadcast_def loops_handlers)
  then show ?thesis using HChat
    by (auto simp: HandleChatRequest_def Let_def send_response_handlers intro!: and_then_handlers split: option.splits)
qed (auto simp: HandleLoginRequest_def HandleHeartbeatRequest_def HandlePositionSyncRequest_def
    HandleCombatCommandRequest_def send_response_handlers handlers_kept Let_def split: option.splits)

lemma handleMessage_handlers: "sv_handlers (fst (Client_handleMessage pb now a m s)) = sv_handlers s"
  using call_handler_handlers [of pb now _ a m s]
  by (auto simp: Client_handleMessage_def split: option.splits prod.splits outcome.splits) (metis fst_conv)+

lemma writePump_handlers: "sv_handlers (fst (writePump_step a ev s)) = sv_handlers s"
  by (auto simp: writePump_step_def handlers_kept Let_def split: pump_event.splits list.splits)

lemma server_exec_handlers: "sv_handlers (fst (server_exec pb op s)) = sv_handlers s"
  by (cases op) (simp_all add: newClientFromWS_def Let_def handlers_kept Stop_def loops_handlers Server_Broadcast_def
      checkHeartbeats_def writePump_handlers handleMessage_handlers)

lemma server_reach_handlers: "server_reach pb s \<Longrightarrow> fmlookup (sv_handlers s) i = handler_of i"
proof (induction rule: server_reach.induct)
  case (start interval)
  show ?case by (simp add: NewMessageProcessor_def RegisterServerHandler_def NewServer_def handler_of_def)
next
  case (step s op s')
  then show ?case using server_exec_handlers [of pb op s] by simp
qed

text \<open>C26: Every message of at least four bytes is given to the handler registered for its first four bytes. One that
  holds the ID of a registered type and nothing else ends the server: its header is missing, and the handler reads
  it.\<close>

theorem empty_message_crashes:
  assumes "server_reach pb s" and "game_pb_ok pb"
  shows "Client_handleMessage pb now a (intToBytes msgID) s = (s, if handler_of msgID = None then Done else Crash)"
proof -
  have len: "\<not> length (intToBytes msgID) < 4" "drop 4 (intToBytes msgID) = []"
    by (simp_all add: intToBytes_bytes)
  have id: "message_id (intToBytes msgID) = msgID" using message_id_intToBytes [of msgID "[]"] by simp
  show ?thesis
  proof (cases "handler_of msgID")
    case None
    then show ?thesis using len by (simp add: Client_handleMessage_def id server_reach_handlers [OF assms(1)])
  next
    case (Some h)
    have "call_handler pb now h a (intToBytes msgID) s = (s, Crash)"
      using assms(2) by (cases h) (auto simp: game_pb_ok_def len HandleLoginRequest_def HandleHeartbeatRequest_def
          HandlePositionSyncRequest_def HandleChatRequest_def HandleCombatCommandRequest_def createResponseHeader_def)
    then show ?thesis using Some len by (simp add: Client_handleMessage_def id server_reach_handlers [OF assms(1)])
  qed
qed

text \<open>A heartbeat with a header, handled at some time, lets its client pass every check up to the timeout after it.\<close>

lemma heartbeat_keeps_client:
  assumes "a < length (sv_heap s)" and "get_heartbeat pb (drop 4 m) = Some (Some h)"
    and "HandleHeartbeatRequest pb now a m s = (s', r)" and "t \<le> now 2 + heartbeat_timeout s"
  shows "\<not> heartbeat_timeout s' < t - cl_lastPing (sv_heap s' ! a)"
proof -
  let ?s = "put_client a ((sv_heap s ! a)\<lparr>cl_lastPing := now 2\<rparr>) s"
  have "sv_interval s' = sv_interval s" "cl_lastPing (sv_heap s' ! a) = now 2"
    using assms(1-3)
    by (auto simp: HandleHeartbeatRequest_def createResponseHeader_def send_response_def SendMessage_def enqueue_def
        put_client_def Let_def split: option.splits if_splits)
  then show ?thesis using assms(4) by (simp add: heartbeat_timeout_def)
qed

text \<open>The messages of a queue are sent as one frame, with nothing between them.\<close>

lemma frames_are_glued:
  assumes "cl_Send (sv_heap s ! a) = [x, y]"
  shows "sv_written (fst (writePump_step a (PumpMessage True) s)) = sv_written s @ [(a, x @ y)]"
  using assms by (simp add: writePump_step_def put_client_def Let_def)

text \<open>With an interval of one second the ticker of the write pump has the period 0.\<close>

lemma short_interval_crashes: "writePump_start (NewServer 1) = Crash"
  by (simp add: writePump_start_def NewServer_def go_quot_def wrap64_def)

section \<open>A run\<close>

definition bare_pb :: game_pb where
  "bare_pb = \<lparr>get_login = (\<lambda>_. Some \<lparr>lr_Header = None, lr_Username = [], lr_Password = [], lr_DeviceId = [],
       lr_ClientVersion = []\<rparr>), put_login = (\<lambda>_. Some []),
     get_heartbeat = (\<lambda>_. Some None), put_heartbeat = (\<lambda>_. Some []),
     get_position = (\<lambda>_. Some \<lparr>req_Header = None, req_EntityId = [], req_Position = None, req_Velocity = None,
       req_Rotation = Fin 0, req_Timestamp = 0\<rparr>), put_position = (\<lambda>_. Some []),
     get_chat = (\<lambda>_. Some \<lparr>cr_Header = None, SenderId = [], ChatType = 0, TargetId = [], cr_SenderName = [],
       cr_Content = [], cr_ChannelId = []\<rparr>), put_chat_request = (\<lambda>_. Some []), put_chat = (\<lambda>_. Some []),
     get_combat = (\<lambda>_. Some \<lparr>cc_Header = None, cc_AttackerId = [], cc_TargetId = [], cc_SkillId = 0,
       cc_Position = None, cc_Direction = None, cc_AffectedTargets = [], cc_Timestamp = 0\<rparr>),
     put_combat = (\<lambda>_. Some [])\<rparr>"

definition one_client :: Server where
  "one_client = fst (newClientFromWS ''7'' 0 (NewMessageProcessor (NewServer 30)))"

lemma one_client_reach: "server_reach bare_pb one_client"
proof -
  have "server_exec bare_pb (Connect ''7'' 0) (NewMessageProcessor (NewServer 30)) = (one_client, Done)"
    by (simp add: one_client_def)
  then show ?thesis
    using server_reach.step [OF server_reach.start [of bare_pb 30], of "Connect ''7'' 0" one_client]
    by (simp add: NewMessageProcessor_def RegisterServerHandler_def NewServer_def)
qed

lemma one_client_table: "sv_clients one_client = [(''7'', 0)]" "length (sv_heap one_client) = 1"
  "cl_Send (sv_heap one_client ! 0) = []"
  by (simp_all add: one_client_def newClientFromWS_def NewMessageProcessor_def RegisterServerHandler_def NewServer_def)



lemma bare_pb_ok: "game_pb_ok bare_pb"
  by (simp add: game_pb_ok_def bare_pb_def)

theorem empty_message_crashes_witness:
  "server_reach bare_pb one_client \<and> game_pb_ok bare_pb \<and>
   Client_handleMessage bare_pb (\<lambda>_. 0) 0 [0, 0, 3, 233] one_client = (one_client, Crash)"
proof -
  have "intToBytes 1001 = [0, 0, 3, 233]"
    by (simp add: intToBytes_bytes drop_bit_eq_div)
  with empty_message_crashes [OF one_client_reach bare_pb_ok, of "\<lambda>_. 0" 0 1001] show ?thesis
    using one_client_reach bare_pb_ok by (simp add: handler_of_def)
qed

end
