(* ===== verification/Rpc_Grpc.thy ===== *)
theory Rpc_Grpc
  imports Rpc_Codec "HOL-Library.Finite_Map" "HOL-Library.Sublist"
begin

text \<open>
  The gRPC transport of \<^verbatim>\<open>src/pkg/rpc/grpc_server.go\<close> and \<^verbatim>\<open>src/pkg/rpc/grpc_client.go\<close>, with the
  service registration of \<^verbatim>\<open>src/pkg/rpc/rpc.go\<close> and the calls of \<^verbatim>\<open>src/pkg/rpc/call.go\<close>. What the code
  reads by reflection, the types and methods of a service, is data; a method is a function on the state \<open>'s\<close> of the
  services that returns the reply, an error text, or panics. Messages \<open>'m\<close>, their packing into \<^verbatim>\<open>Any\<close> values
  \<open>'a\<close> and the network are parameters.
\<close>

section \<open>Types and services\<close>

datatype go_type = PtrTo go_type | TypeOf string string

fun base_name :: "string \<Rightarrow> string" where
  "base_name [] = []"
| "base_name (c # cs) = (if CHR ''/'' \<in> set (c # cs) then base_name cs else c # cs)"

fun type_String :: "go_type \<Rightarrow> string" where
  "type_String (PtrTo t) = CHR ''*'' # type_String t"
| "type_String (TypeOf pkg n) = (if pkg = [] then n else base_name pkg @ ''.'' @ n)"

fun isExportedOrBuiltinType :: "go_type \<Rightarrow> bool" where
  "isExportedOrBuiltinType (PtrTo t) = isExportedOrBuiltinType t"
| "isExportedOrBuiltinType (TypeOf pkg n) \<longleftrightarrow> pkg = [] \<or> pkg = ''proto_define''"

text \<open>A method as reflection shows it; its parameter types include the receiver.\<close>

record ('m, 's) go_method =
  gm_Name :: string
  gm_PkgPath :: string
  gm_In :: "go_type list"
  gm_Out :: "go_type list"
  gm_Func :: "'m \<Rightarrow> 'm \<Rightarrow> 's \<Rightarrow> 's \<times> (string, 'm) go"

record ('m, 's) MethodType =
  mt_Method :: "('m, 's) go_method"
  mt_ArgType :: go_type
  mt_ReplyType :: go_type

record ('m, 's) Service =
  svc_Name :: string
  svc_Methods :: "(string, ('m, 's) MethodType) fmap"

definition right_signature :: "('m, 's) go_method \<Rightarrow> bool" where
  "right_signature m \<longleftrightarrow>
     \<not> (gm_PkgPath m \<noteq> [] \<or> length (gm_In m) \<noteq> 4 \<or> type_String (gm_In m ! 1) \<noteq> ''context.Context''
        \<or> \<not> isExportedOrBuiltinType (gm_In m ! 2) \<or> \<not> isExportedOrBuiltinType (gm_In m ! 3)
        \<or> length (gm_Out m) \<noteq> 1 \<or> gm_Out m ! 0 \<noteq> TypeOf [] ''error'')"

fun register_methods ::
    "('m, 's) go_method list \<Rightarrow> (string, ('m, 's) MethodType) fmap \<Rightarrow> (string, ('m, 's) MethodType) fmap" where
  "register_methods [] ms = ms"
| "register_methods (m # rest) ms =
     (if \<not> right_signature m then register_methods rest ms
      else register_methods rest
        (fmupd (gm_Name m) \<lparr>mt_Method = m, mt_ArgType = gm_In m ! 2, mt_ReplyType = gm_In m ! 3\<rparr> ms))"

datatype grpc_error =
    NoServiceName | AlreadyRegistered string | ShuttingDown | ListenFailed | ServerConnectionClosed | PackArgs
  | ContextCancelled | RemoteError string | AllRetriesFailed string | UnpackReply | ServiceError string

text \<open>The receiver is given by the name of its type and its methods.\<close>

definition NewService :: "string \<Rightarrow> ('m, 's) go_method list \<Rightarrow> (grpc_error, ('m, 's) Service) go" where
  "NewService name methods =
     (if name = [] then Fail NoServiceName
      else Ret \<lparr>svc_Name = name, svc_Methods = register_methods methods fmempty\<rparr>)"

text \<open>Messages: which types are message types, a new message of a type, packing and unpacking into a message.\<close>

record ('m, 'a) any_codec =
  is_proto :: "go_type \<Rightarrow> bool"
  new_msg :: "go_type \<Rightarrow> 'm"
  any_new :: "'m \<Rightarrow> 'a option"
  any_to :: "'a \<Rightarrow> 'm \<Rightarrow> 'm option"
  has_type :: "go_type \<Rightarrow> 'm \<Rightarrow> bool"

fun elem_type :: "go_type \<Rightarrow> go_type option" where
  "elem_type (PtrTo t) = Some t"
| "elem_type (TypeOf pkg n) = None"

text \<open>A nil argument or reply is replaced by a new message; the element of a type that is no pointer panics.\<close>

definition message_or_new :: "('m, 'a) any_codec \<Rightarrow> go_type \<Rightarrow> 'm option \<Rightarrow> 'm option" where
  "message_or_new c t m = (case m of Some x \<Rightarrow> Some x | None \<Rightarrow> map_option (new_msg c) (elem_type t))"

definition Service_Call ::
    "('m, 'a) any_codec \<Rightarrow> ('m, 's) Service \<Rightarrow> string \<Rightarrow> 'm option \<Rightarrow> 'm option \<Rightarrow> 's \<Rightarrow> 's \<times> (string, 'm) go" where
  "Service_Call c s methodName args reply w =
     (case fmlookup (svc_Methods s) methodName of
        None \<Rightarrow> (w, Fail (''method not found: '' @ svc_Name s @ ''.'' @ methodName))
      | Some mtype \<Rightarrow>
          (case (message_or_new c (mt_ArgType mtype) args, message_or_new c (mt_ReplyType mtype) reply) of
             (Some inArgs, Some inReply) \<Rightarrow> gm_Func (mt_Method mtype) inArgs inReply w
           | _ \<Rightarrow> (w, Panic)))"

section \<open>The server\<close>

record ('m, 's) GRPCServer =
  gs_services :: "(string, ('m, 's) Service) fmap"
  gs_started :: bool
  gs_closing :: bool
  gs_closed :: bool

definition NewGRPCServer :: "('m, 's) GRPCServer" where
  "NewGRPCServer = \<lparr>gs_services = fmempty, gs_started = False, gs_closing = False, gs_closed = False\<rparr>"

definition GRPC_Register ::
    "string \<Rightarrow> ('m, 's) go_method list \<Rightarrow> ('m, 's) GRPCServer \<Rightarrow> ('m, 's) GRPCServer \<times> (grpc_error, unit) go" where
  "GRPC_Register name methods s =
     with_recv s (NewService name methods) (\<lambda>service.
       if fmlookup (gs_services s) (svc_Name service) \<noteq> None then (s, Fail (AlreadyRegistered (svc_Name service)))
       else (s\<lparr>gs_services := fmupd (svc_Name service) service (gs_services s)\<rparr>, Ret ()))"

text \<open>\<open>listening\<close>: the endpoint can be listened on.\<close>

definition GRPC_Start :: "bool \<Rightarrow> ('m, 's) GRPCServer \<Rightarrow> ('m, 's) GRPCServer \<times> (grpc_error, unit) go" where
  "GRPC_Start listening s =
     (if gs_closing s \<or> gs_closed s then (s, Fail ShuttingDown)
      else if \<not> listening then (s, Fail ListenFailed)
      else (s\<lparr>gs_started := True\<rparr>, Ret ()))"

definition GRPC_Stop :: "('m, 's) GRPCServer \<Rightarrow> ('m, 's) GRPCServer \<times> (grpc_error, unit) go" where
  "GRPC_Stop s = (if gs_closed s then (s, Ret ()) else (s\<lparr>gs_started := False, gs_closed := True, gs_closing := False\<rparr>, Ret ()))"

record 'a pb_RPCRequest =
  pq_ServiceMethod :: string
  pq_Sequence :: "64 word"
  pq_Args :: "'a option"

record 'a pb_RPCResponse =
  pr_ServiceMethod :: string
  pr_Sequence :: "64 word"
  pr_Error :: string
  pr_Reply :: "'a option"

definition error_response :: "'a pb_RPCRequest \<Rightarrow> string \<Rightarrow> 'a pb_RPCResponse" where
  "error_response req e =
     \<lparr>pr_ServiceMethod = pq_ServiceMethod req, pr_Sequence = pq_Sequence req, pr_Error = e, pr_Reply = None\<rparr>"

text \<open>
  The method \<^verbatim>\<open>Call\<close> of the RPC service never returns an error of its own. The texts of errors of packing and
  unpacking are \<open>unpack_text\<close> and \<open>pack_text\<close>.
\<close>

definition RPCService_Call ::
    "('m, 'a) any_codec \<Rightarrow> string \<Rightarrow> string \<Rightarrow> ('m, 's) GRPCServer \<Rightarrow> 'a pb_RPCRequest \<Rightarrow> 's \<Rightarrow>
       's \<times> (grpc_error, 'a pb_RPCResponse) go" where
  "RPCService_Call c unpack_text pack_text s req w =
     (case parseServiceMethod (pq_ServiceMethod req) of
        Fail e \<Rightarrow> (w, Ret (error_response req (''service/method request ill-formed: '' @ pq_ServiceMethod req)))
      | Panic \<Rightarrow> (w, Panic)
      | Ret (serviceName, methodName) \<Rightarrow>
          (case fmlookup (gs_services s) serviceName of
             None \<Rightarrow> (w, Ret (error_response req (''service not found: '' @ serviceName)))
           | Some service \<Rightarrow>
               (case fmlookup (svc_Methods service) methodName of
                  None \<Rightarrow> (w, Ret (error_response req (''method not found: '' @ serviceName @ ''.'' @ methodName)))
                | Some mtype \<Rightarrow>
                    (case elem_type (mt_ArgType mtype) of
                       None \<Rightarrow> (w, Panic)
                     | Some argType \<Rightarrow>
                         if \<not> is_proto c argType
                         then (w, Ret (error_response req ''argument does not implement proto.Message''))
                         else
                           (case (case pq_Args req of None \<Rightarrow> Some (new_msg c argType)
                                  | Some args \<Rightarrow> any_to c args (new_msg c argType)) of
                              None \<Rightarrow> (w, Ret (error_response req (''failed to unpack args: '' @ unpack_text)))
                            | Some argMessage \<Rightarrow>
                                (case elem_type (mt_ReplyType mtype) of
                                   None \<Rightarrow> (w, Panic)
                                 | Some replyType \<Rightarrow>
                                     if \<not> is_proto c replyType
                                     then (w, Ret (error_response req ''reply does not implement proto.Message''))
                                     else
                                       (case Service_Call c service methodName (Some argMessage)
                                               (Some (new_msg c replyType)) w of
                                          (w, Panic) \<Rightarrow> (w, Panic)
                                        | (w, Fail e) \<Rightarrow> (w, Ret (error_response req e))
                                        | (w, Ret replyMessage) \<Rightarrow>
                                            (case any_new c replyMessage of
                                               None \<Rightarrow> (w, Ret (error_response req (''failed to pack reply: '' @ pack_text)))
                                             | Some replyAny \<Rightarrow>
                                                 (w, Ret \<lparr>pr_ServiceMethod = pq_ServiceMethod req,
                                                          pr_Sequence = pq_Sequence req, pr_Error = [],
                                                          pr_Reply = Some replyAny\<rparr>)))))))))"

text \<open>The second interceptor: a panic of the handler becomes a nil response without an error.\<close>

definition recovered :: "(grpc_error, 'r) go \<Rightarrow> (grpc_error, 'r option) go" where
  "recovered res = (case res of Ret r \<Rightarrow> Ret (Some r) | Fail e \<Rightarrow> Fail e | Panic \<Rightarrow> Ret None)"

text \<open>The stream: its requests, and for each whether the answer can be sent; it ends with the error of the stream.\<close>

fun StreamCall ::
    "('m, 'a) any_codec \<Rightarrow> string \<Rightarrow> string \<Rightarrow> ('m, 's) GRPCServer \<Rightarrow> ('a pb_RPCRequest \<times> bool) list \<Rightarrow> 's \<Rightarrow>
       's \<times> 'a pb_RPCResponse list \<times> bool" where
  "StreamCall c ut pt s [] w = (w, [], False)"
| "StreamCall c ut pt s ((req, sendable) # reqs) w =
     (case RPCService_Call c ut pt s req w of
        (w, Ret resp) \<Rightarrow>
          if \<not> sendable then (w, [], False)
          else (let (w, resps, panicked) = StreamCall c ut pt s reqs w in (w, resp # resps, panicked))
      | (w, _) \<Rightarrow> (w, [], True))"

text \<open>The services with an interface of their own: the request goes to the method of the registered service.\<close>

definition direct_call ::
    "('m, 'a) any_codec \<Rightarrow> ('m, 's) GRPCServer \<Rightarrow> string \<Rightarrow> string \<Rightarrow> 'm \<Rightarrow> 'm \<Rightarrow> 's \<Rightarrow> 's \<times> (grpc_error, 'm) go" where
  "direct_call c s serviceName methodName req resp w =
     (case fmlookup (gs_services s) serviceName of
        None \<Rightarrow> (w, Fail (ServiceError (''service not found: '' @ serviceName)))
      | Some service \<Rightarrow>
          (let (w, res) = Service_Call c service methodName (Some req) (Some resp) w
           in (w, go_map_err ServiceError res)))"

definition UpdatePosition ::
    "('m, 'a) any_codec \<Rightarrow> ('m, 's) GRPCServer \<Rightarrow> 'm \<Rightarrow> 'm \<Rightarrow> 's \<Rightarrow> 's \<times> (grpc_error, 'm) go" where
  "UpdatePosition c s req resp w = direct_call c s ''PlayerService'' ''UpdatePosition'' req resp w"

definition SendChat ::
    "('m, 'a) any_codec \<Rightarrow> ('m, 's) GRPCServer \<Rightarrow> 'm \<Rightarrow> 'm \<Rightarrow> 's \<Rightarrow> 's \<times> (grpc_error, 'm) go" where
  "SendChat c s req resp w = direct_call c s ''MessageService'' ''SendChat'' req resp w"

section \<open>The client\<close>

datatype grpc_code = Unavailable | DeadlineExceeded | ResourceExhausted | Aborted | OtherCode nat

definition isRetryableGRPCError :: "grpc_code \<Rightarrow> bool" where
  "isRetryableGRPCError code \<longleftrightarrow>
     code = Unavailable \<or> code = DeadlineExceeded \<or> code = ResourceExhausted \<or> code = Aborted"

definition isRetryableError :: "string \<Rightarrow> bool" where
  "isRetryableError errMsg \<longleftrightarrow>
     sublist ''not available'' errMsg \<or> sublist ''timeout'' errMsg \<or> sublist ''temporarily unavailable'' errMsg"

text \<open>
  What the environment does at the attempts of a call: whether the context ends before it, whether the client is
  found closed, and what the request does to the services and brings back.
\<close>

record ('a, 's) call_env =
  ctx_ended :: "nat \<Rightarrow> bool"
  found_closed :: "nat \<Rightarrow> bool"
  transmit :: "nat \<Rightarrow> 'a pb_RPCRequest \<Rightarrow> 's \<Rightarrow> 's \<times> (grpc_code, 'a pb_RPCResponse) go"

definition maxRetries :: nat where
  "maxRetries = 3"

text \<open>The loop from attempt \<open>retry\<close> with \<open>n\<close> attempts left; \<open>code_text\<close> gives the text of a gRPC error.\<close>

fun call_loop ::
    "('m, 'a) any_codec \<Rightarrow> (grpc_code \<Rightarrow> string) \<Rightarrow> ('a, 's) call_env \<Rightarrow> 'a pb_RPCRequest \<Rightarrow> 'm \<Rightarrow> nat \<Rightarrow> nat \<Rightarrow>
       string \<Rightarrow> 's \<Rightarrow> 's \<times> (grpc_error, 'm) go" where
  "call_loop c code_text env req reply 0 retry lastErr w = (w, Fail (AllRetriesFailed lastErr))"
| "call_loop c code_text env req reply (Suc n) retry lastErr w =
     (if 0 < retry \<and> ctx_ended env retry then (w, Fail ContextCancelled)
      else if found_closed env retry then (w, Fail ServerConnectionClosed)
      else
        case transmit env retry req w of
          (w, Ret resp) \<Rightarrow>
            if pr_Error resp \<noteq> [] then
              if \<not> isRetryableError (pr_Error resp) then (w, Fail (RemoteError (pr_Error resp)))
              else call_loop c code_text env req reply n (Suc retry) (pr_Error resp) w
            else
              (case pr_Reply resp of
                 None \<Rightarrow> (w, Ret reply)
               | Some a \<Rightarrow>
                   (case any_to c a reply of None \<Rightarrow> (w, Fail UnpackReply) | Some m \<Rightarrow> (w, Ret m)))
        | (w, Fail code) \<Rightarrow>
            if \<not> isRetryableGRPCError code then (w, Fail (AllRetriesFailed (''gRPC call failed: '' @ code_text code)))
            else call_loop c code_text env req reply n (Suc retry) (''gRPC call failed: '' @ code_text code) w
        | (w, Panic) \<Rightarrow> (w, Panic))"

record GRPCClient =
  gc_seq :: "64 word"
  gc_closing :: bool
  gc_closed :: bool

definition nextSequence :: "GRPCClient \<Rightarrow> GRPCClient \<times> 64 word" where
  "nextSequence cl = (cl\<lparr>gc_seq := gc_seq cl + 1\<rparr>, gc_seq cl + 1)"

definition Client_Call ::
    "('m, 'a) any_codec \<Rightarrow> (grpc_code \<Rightarrow> string) \<Rightarrow> ('a, 's) call_env \<Rightarrow> string \<Rightarrow> 'm \<Rightarrow> 'm \<Rightarrow> GRPCClient \<Rightarrow> 's \<Rightarrow>
       (GRPCClient \<times> 's) \<times> (grpc_error, 'm) go" where
  "Client_Call c code_text env serviceMethod args reply cl w =
     (if gc_closing cl \<or> gc_closed cl then ((cl, w), Fail ServerConnectionClosed)
      else
        case any_new c args of
          None \<Rightarrow> ((cl, w), Fail PackArgs)
        | Some argsAny \<Rightarrow>
            (let (cl, sequence) = nextSequence cl;
                 req = \<lparr>pq_ServiceMethod = serviceMethod, pq_Sequence = sequence, pq_Args = Some argsAny\<rparr>;
                 (w, res) = call_loop c code_text env req reply maxRetries 0 [] w
             in ((cl, w), res)))"

section \<open>Registration\<close>

lemma register_none: "\<forall>m \<in> set methods. \<not> right_signature m \<Longrightarrow> register_methods methods ms = ms"
  by (induction methods arbitrary: ms) simp_all

lemma register_some:
  "m \<in> set methods \<Longrightarrow> right_signature m \<Longrightarrow> distinct (map gm_Name methods) \<Longrightarrow>
   fmlookup (register_methods methods ms) (gm_Name m) =
     Some \<lparr>mt_Method = m, mt_ArgType = gm_In m ! 2, mt_ReplyType = gm_In m ! 3\<rparr>"
proof (induction methods arbitrary: ms)
  case (Cons x methods)
  have keep: "gm_Name m \<notin> gm_Name ` set l \<Longrightarrow> fmlookup (register_methods l ms) (gm_Name m) = fmlookup ms (gm_Name m)"
    for l ms by (induction l arbitrary: ms) auto
  show ?case using Cons by (cases "x = m") (auto simp: keep)
qed simp

lemma GRPC_Register_Ret:
  assumes "GRPC_Register name methods s = (s', Ret ())"
  shows "gs_services s' = fmupd name \<lparr>svc_Name = name, svc_Methods = register_methods methods fmempty\<rparr> (gs_services s)"
    and "name \<noteq> []" and "fmlookup (gs_services s) name = None"
  using assms by (auto simp: GRPC_Register_def NewService_def split: if_splits)

lemma parse_joined: "S \<noteq> [] \<Longrightarrow> CHR ''.'' \<notin> set S \<Longrightarrow> parseServiceMethod (S @ ''.'' @ M) = Ret (S, M)"
  using parseServiceMethod_iff [of "S @ ''.'' @ M" S M] by simp

text \<open>
  A method whose argument is a message of the generated package, \<^verbatim>\<open>mmo-server/proto_define\<close>; the check compares with
  the path \<^verbatim>\<open>proto_define\<close>.
\<close>

definition takes_message :: "('m, 's) go_method \<Rightarrow> bool" where
  "takes_message m \<longleftrightarrow> (\<exists>n. gm_In m ! 2 = PtrTo (TypeOf ''mmo-server/proto_define'' n))"

lemma takes_message_refused: "takes_message m \<Longrightarrow> \<not> right_signature m"
  by (auto simp: takes_message_def right_signature_def)

text \<open>C23: A service whose methods take the messages of the generated protocol package is registered without any method:
  every call of one of its methods, through the RPC service or directly, ends with the error that the method is
  not found, and does nothing.\<close>

theorem message_methods_not_found:
  assumes "GRPC_Register name methods s = (s', Ret ())" and "list_all takes_message methods" and "CHR ''.'' \<notin> set name"
  shows "RPCService_Call c ut pt s' \<lparr>pq_ServiceMethod = name @ ''.'' @ M, pq_Sequence = sq, pq_Args = args\<rparr> w =
      (w, Ret \<lparr>pr_ServiceMethod = name @ ''.'' @ M, pr_Sequence = sq,
               pr_Error = ''method not found: '' @ name @ ''.'' @ M, pr_Reply = None\<rparr>)
    \<and> direct_call c s' name M req resp w = (w, Fail (ServiceError (''method not found: '' @ name @ ''.'' @ M)))"
proof -
  note r = GRPC_Register_Ret [OF assms(1)]
  have "\<forall>m \<in> set methods. \<not> right_signature m" using assms(2) takes_message_refused by (auto simp: list_all_iff)
  then have "fmlookup (gs_services s') name = Some \<lparr>svc_Name = name, svc_Methods = fmempty\<rparr>"
    by (simp add: r(1) register_none)
  with parse_joined [OF r(2) assms(3), of M] show ?thesis
    by (simp add: RPCService_Call_def direct_call_def Service_Call_def error_response_def)
qed

section \<open>Calls\<close>

text \<open>A message packed and unpacked into a message of its type is the same message.\<close>

definition codec_ok :: "('m, 'a) any_codec \<Rightarrow> bool" where
  "codec_ok c \<longleftrightarrow> (\<forall>t. has_type c t (new_msg c t)) \<and>
     (\<forall>t m a m0. has_type c t m \<longrightarrow> any_new c m = Some a \<longrightarrow> has_type c t m0 \<longrightarrow> any_to c a m0 = Some m)"

text \<open>The attempts before attempt \<open>k\<close> fail with codes that are tried again; attempt \<open>k\<close> reaches the server.\<close>

definition delivered_at ::
    "nat \<Rightarrow> ('m, 'a) any_codec \<Rightarrow> string \<Rightarrow> string \<Rightarrow> ('m, 's) GRPCServer \<Rightarrow> ('a, 's) call_env \<Rightarrow> bool" where
  "delivered_at k c ut pt srv env \<longleftrightarrow>
     (\<forall>i \<le> k. \<not> ctx_ended env i \<and> \<not> found_closed env i) \<and>
     (\<forall>i < k. \<exists>code. isRetryableGRPCError code \<and> (\<forall>req w. transmit env i req w = (w, Fail code))) \<and>
     (\<forall>req w w' resp. RPCService_Call c ut pt srv req w = (w', Ret resp) \<longrightarrow> transmit env k req w = (w', Ret resp))"

lemma call_loop_retries:
  assumes "delivered_at k c ut pt srv env"
  shows "r + d = k \<Longrightarrow> d < n \<Longrightarrow>
    \<exists>le'. call_loop c ct env req reply n r le w = call_loop c ct env req reply (n - d) k le' w"
proof (induction d arbitrary: n r le)
  case (Suc d)
  then obtain m where n: "n = Suc m" by (cases n) auto
  have "r < k" using Suc.prems by simp
  then obtain code where code: "isRetryableGRPCError code" "transmit env r req w = (w, Fail code)"
    "\<not> ctx_ended env r" "\<not> found_closed env r"
    using assms unfolding delivered_at_def by (meson less_imp_le)
  have "Suc r + d = k" "d < m" using Suc.prems n by simp_all
  from Suc.IH [OF this] obtain le' where
    "call_loop c ct env req reply m (Suc r) (''gRPC call failed: '' @ ct code) w
       = call_loop c ct env req reply (m - d) k le' w" by blast
  then show ?case using code by (simp add: n) blast
qed auto

lemma call_loop_delivered:
  assumes "delivered_at k c ut pt srv env" and "k < n"
    and "RPCService_Call c ut pt srv req w = (w', Ret resp)"
    and "pr_Error resp = [] \<or> \<not> isRetryableError (pr_Error resp)"
  shows "call_loop c ct env req reply n 0 le w =
    (w', if pr_Error resp \<noteq> [] then Fail (RemoteError (pr_Error resp))
         else case pr_Reply resp of None \<Rightarrow> Ret reply
              | Some a \<Rightarrow> (case any_to c a reply of None \<Rightarrow> Fail UnpackReply | Some m \<Rightarrow> Ret m))"
proof -
  obtain le' where le: "call_loop c ct env req reply n 0 le w = call_loop c ct env req reply (n - k) k le' w"
    using call_loop_retries [OF assms(1), where r = 0 and d = k and n = n and le = le and ct = ct and req = req
        and reply = reply and w = w] assms(2) by auto
  obtain m where m: "n - k = Suc m" using assms(2) by (cases "n - k") auto
  have t: "transmit env k req w = (w', Ret resp)" "\<not> ctx_ended env k" "\<not> found_closed env k"
    using assms(1,3) unfolding delivered_at_def by auto
  show ?thesis unfolding le m using t assms(4) by (auto split: option.splits)
qed

lemma RPCService_Call_method:
  assumes "S \<noteq> []" and "CHR ''.'' \<notin> set S" and "fmlookup (gs_services srv) S = Some svc"
    and "fmlookup (svc_Methods svc) M = Some mt" and "mt_ArgType mt = PtrTo ta" and "mt_ReplyType mt = PtrTo tr"
    and "is_proto c ta" and "is_proto c tr" and "codec_ok c" and "has_type c ta args" and "any_new c args = Some a"
  shows "RPCService_Call c ut pt srv \<lparr>pq_ServiceMethod = S @ ''.'' @ M, pq_Sequence = sq, pq_Args = Some a\<rparr> w =
    (case gm_Func (mt_Method mt) args (new_msg c tr) w of
       (w', Panic) \<Rightarrow> (w', Panic)
     | (w', Fail e) \<Rightarrow> (w', Ret \<lparr>pr_ServiceMethod = S @ ''.'' @ M, pr_Sequence = sq, pr_Error = e, pr_Reply = None\<rparr>)
     | (w', Ret m) \<Rightarrow>
         (case any_new c m of
            None \<Rightarrow> (w', Ret \<lparr>pr_ServiceMethod = S @ ''.'' @ M, pr_Sequence = sq,
                              pr_Error = ''failed to pack reply: '' @ pt, pr_Reply = None\<rparr>)
          | Some r \<Rightarrow> (w', Ret \<lparr>pr_ServiceMethod = S @ ''.'' @ M, pr_Sequence = sq, pr_Error = [], pr_Reply = Some r\<rparr>)))"
proof -
  have "any_to c a (new_msg c ta) = Some args" using assms(9-11) unfolding codec_ok_def by blast
  then show ?thesis using assms(3-8) parse_joined [OF assms(1,2), of M]
    by (auto simp: RPCService_Call_def Service_Call_def message_or_new_def error_response_def
        split: prod.splits go.splits option.splits)
qed


lemma call_loop_count:
  assumes "\<forall>i req w. f (fst (transmit env i req w)) \<le> f w + (1 :: nat)"
  shows "f (fst (call_loop c ct env req reply n r le w)) \<le> f w + n"
proof (induction n arbitrary: r le w)
  case (Suc n)
  obtain w' res where t: "transmit env r req w = (w', res)" by (cases "transmit env r req w")
  then have "f w' \<le> f w + 1" using assms by (metis fst_conv)
  moreover have "f (fst (call_loop c ct env req reply n r' le' w')) \<le> f w' + n" for r' le' by (rule Suc.IH)
  ultimately have "f w' \<le> f w + Suc n" "f (fst (call_loop c ct env req reply n r' le' w')) \<le> f w + Suc n" for r' le'
    using order_trans [OF \<open>f (fst (call_loop c ct env req reply n r' le' w')) \<le> f w' + n\<close>, of "f w + Suc n"] by simp_all
  note le = this
  show ?case
  proof (cases "0 < r \<and> ctx_ended env r \<or> found_closed env r")
    case True
    then show ?thesis by auto
  next
    case False
    then have nb: "(0 < r \<and> ctx_ended env r) = False" "found_closed env r = False" by blast+
    show ?thesis unfolding call_loop.simps nb if_False t prod.case using le
      by (cases res) (simp_all split: option.splits)
  qed
qed simp

text \<open>Whatever the network does, a call transmits its request at most three times: no count that a transmission
  raises by at most one is raised by more than three.\<close>

theorem call_transmits_at_most_thrice:
  assumes "\<forall>i req w. f (fst (transmit env i req w)) \<le> f w + (1 :: nat)"
  shows "f (snd (fst (Client_Call c ct env serviceMethod args reply cl w))) \<le> f w + 3"
proof -
  have "f (fst (call_loop c ct env req reply maxRetries 0 [] w)) \<le> f w + 3" for req
    using call_loop_count [OF assms, of c ct req reply maxRetries 0 "[]" w] by (simp add: maxRetries_def)
  then show ?thesis by (auto simp: Client_Call_def nextSequence_def Let_def split: option.splits prod.splits)
      (metis fst_conv)+
qed

section \<open>A service\<close>

definition number_codec :: "(nat, nat) any_codec" where
  "number_codec = \<lparr>is_proto = (\<lambda>_. True), new_msg = (\<lambda>_. 0), any_new = Some, any_to = (\<lambda>a _. Some a),
     has_type = (\<lambda>_ _. True)\<rparr>"

definition sample_method :: "string \<Rightarrow> (nat, nat) go_method" where
  "sample_method pkg = \<lparr>gm_Name = ''Add'', gm_PkgPath = [],
     gm_In = [PtrTo (TypeOf ''main'' ''Calc''), TypeOf ''context'' ''Context'', PtrTo (TypeOf pkg ''Num''),
              PtrTo (TypeOf pkg ''Num'')],
     gm_Out = [TypeOf [] ''error''], gm_Func = (\<lambda>args reply w. (w + 1, Ret (args + w)))\<rparr>"

definition sample_server :: "(nat, nat) GRPCServer" where
  "sample_server = fst (GRPC_Register ''Calc'' [sample_method ''proto_define''] NewGRPCServer)"

text \<open>The first attempt fails, the second one reaches the server.\<close>

definition sample_env :: "(nat, nat) call_env" where
  "sample_env = \<lparr>ctx_ended = (\<lambda>_. False), found_closed = (\<lambda>_. False),
     transmit = (\<lambda>i req w. if i = 0 then (w, Fail Unavailable)
        else case RPCService_Call number_codec [] [] sample_server req w of
               (w', Ret resp) \<Rightarrow> (w', Ret resp) | (w', _) \<Rightarrow> (w', Fail (OtherCode 13)))\<rparr>"

definition fresh_client :: GRPCClient where
  "fresh_client = \<lparr>gc_seq = 0, gc_closing = False, gc_closed = False\<rparr>"

lemma sample_delivered: "delivered_at 1 number_codec [] [] sample_server sample_env"
  by (auto simp: delivered_at_def sample_env_def isRetryableGRPCError_def)

theorem message_methods_not_found_witness:
  "GRPC_Register ''Calc'' [sample_method ''mmo-server/proto_define''] NewGRPCServer
      = (fst (GRPC_Register ''Calc'' [sample_method ''mmo-server/proto_define''] NewGRPCServer), Ret ()) \<and>
   RPCService_Call number_codec [] [] (fst (GRPC_Register ''Calc'' [sample_method ''mmo-server/proto_define''] NewGRPCServer))
      \<lparr>pq_ServiceMethod = ''Calc'' @ ''.'' @ ''Add'', pq_Sequence = 1, pq_Args = Some 4\<rparr> 5 =
    (5, Ret \<lparr>pr_ServiceMethod = ''Calc'' @ ''.'' @ ''Add'', pr_Sequence = 1,
             pr_Error = ''method not found: '' @ ''Calc'' @ ''.'' @ ''Add'', pr_Reply = None\<rparr>)"
proof -
  have r: "GRPC_Register ''Calc'' [sample_method ''mmo-server/proto_define''] NewGRPCServer
      = (fst (GRPC_Register ''Calc'' [sample_method ''mmo-server/proto_define''] NewGRPCServer), Ret ())"
    by (simp add: GRPC_Register_def NewService_def NewGRPCServer_def)
  have t: "list_all takes_message [sample_method ''mmo-server/proto_define'']"
    by (simp add: takes_message_def sample_method_def)
  have d: "CHR ''.'' \<notin> set ''Calc''" by simp
  from message_methods_not_found [OF r t d] r show ?thesis by blast
qed


theorem call_transmits_at_most_thrice_witness:
  "(\<forall>i req w. fst (transmit sample_env i req w) \<le> w + 1) \<and>
   snd (fst (Client_Call number_codec (\<lambda>_. []) sample_env (''Calc'' @ ''.'' @ ''Add'') 4 0 fresh_client 5)) \<le> 5 + 3"
proof -
  have sv: "gs_services sample_server = fmupd ''Calc'' \<lparr>svc_Name = ''Calc'',
      svc_Methods = register_methods [sample_method ''proto_define''] fmempty\<rparr> fmempty"
    by (simp add: sample_server_def GRPC_Register_def NewService_def NewGRPCServer_def)
  have reg: "register_methods [sample_method ''proto_define''] fmempty = fmupd ''Add''
      \<lparr>mt_Method = sample_method ''proto_define'', mt_ArgType = PtrTo (TypeOf ''proto_define'' ''Num''),
       mt_ReplyType = PtrTo (TypeOf ''proto_define'' ''Num'')\<rparr> fmempty"
    by (simp add: right_signature_def) (simp add: sample_method_def)
  have call: "fst (RPCService_Call number_codec [] [] sample_server req w) \<le> w + 1" for req w
    by (auto simp: RPCService_Call_def sv reg Service_Call_def message_or_new_def number_codec_def sample_method_def
        split: go.splits option.splits prod.splits if_splits)
  have h: "\<forall>i req w. fst (transmit sample_env i req w) \<le> w + 1"
  proof (intro allI)
    fix i req w
    show "fst (transmit sample_env i req w) \<le> w + 1"
      using call [of req w] by (auto simp: sample_env_def split: prod.splits go.splits)
  qed
  show ?thesis by (intro conjI) (rule h, rule call_transmits_at_most_thrice [where f = "\<lambda>w. w", OF h])
qed

end
