(* ===== verification/Rpc_Async.thy ===== *)
theory Rpc_Async
  imports Rpc_Grpc "HOL-Library.AList"
begin

text \<open>
  The asynchronous calls of the gRPC client (\<^verbatim>\<open>Go\<close>, its goroutine and \<^verbatim>\<open>Close\<close> in
  \<^verbatim>\<open>src/pkg/rpc/grpc_client.go\<close>, \<^verbatim>\<open>done\<close> in \<^verbatim>\<open>src/pkg/rpc/call.go\<close>). Calls and their channels are shared
  between the caller, the goroutines and \<^verbatim>\<open>Close\<close>, so they live in stores and are named by their addresses. The
  fields \<open>ca_phase\<close> and \<open>ca_signals\<close> of a call, how far it is and how often it was signalled, are not in the code.
  \<^verbatim>\<open>Go\<close> takes two steps, its check of the flags and the rest, since \<^verbatim>\<open>Close\<close> may come between them.
\<close>

section \<open>Calls\<close>

datatype go_phase = Checked | Sent "64 word" | Ended

record 'm Call =
  ca_ServiceMethod :: string
  ca_Args :: 'm
  ca_Reply :: 'm
  ca_Error :: "grpc_error option"
  ca_Done :: nat
  ca_cancelFunc :: bool
  ca_cancelled :: bool
  ca_phase :: go_phase
  ca_signals :: nat

record 'm async_client =
  ac_seq :: "64 word"
  ac_pending :: "(64 word \<times> nat) list"
  ac_closing :: bool
  ac_closed :: bool
  ac_calls :: "'m Call list"
  ac_chans :: "(nat \<times> nat list) list"

definition new_async :: "'m async_client" where
  "new_async = \<lparr>ac_seq = 0, ac_pending = [], ac_closing = False, ac_closed = False, ac_calls = [], ac_chans = []\<rparr>"

text \<open>A send on the channel of the call that does not block: the capacity of a channel and what it holds.\<close>

definition send_done :: "nat \<Rightarrow> nat \<Rightarrow> (nat \<times> nat list) list \<Rightarrow> (nat \<times> nat list) list" where
  "send_done ch a chans =
     (if ch < length chans then
        let (n, held) = chans ! ch in if length held < n then chans[ch := (n, held @ [a])] else chans
      else chans)"

definition call_done :: "nat \<Rightarrow> 'm async_client \<Rightarrow> 'm async_client" where
  "call_done a cl =
     (let call = ac_calls cl ! a;
          call = call\<lparr>ca_cancelled := ca_cancelled call \<or> ca_cancelFunc call, ca_signals := Suc (ca_signals call)\<rparr>
      in cl\<lparr>ac_calls := (ac_calls cl)[a := call], ac_chans := send_done (ca_Done call) a (ac_chans cl)\<rparr>)"

text \<open>The first part of \<^verbatim>\<open>Go\<close>: the channel is given or made with capacity 10; a closed client ends the call.\<close>

definition Go_check ::
    "nat option \<Rightarrow> bool \<Rightarrow> string \<Rightarrow> 'm \<Rightarrow> 'm \<Rightarrow> 'm async_client \<Rightarrow> 'm async_client" where
  "Go_check done_chan has_deadline serviceMethod args reply cl =
     (let ch = (case done_chan of None \<Rightarrow> length (ac_chans cl) | Some ch \<Rightarrow> ch);
          chans = (case done_chan of None \<Rightarrow> ac_chans cl @ [(10, [])] | Some _ \<Rightarrow> ac_chans cl);
          a = length (ac_calls cl);
          call = \<lparr>ca_ServiceMethod = serviceMethod, ca_Args = args, ca_Reply = reply, ca_Error = None, ca_Done = ch,
                  ca_cancelFunc = False, ca_cancelled = False, ca_phase = Checked, ca_signals = 0\<rparr>
      in if ac_closing cl \<or> ac_closed cl then
           call_done a (cl\<lparr>ac_chans := chans,
             ac_calls := ac_calls cl @ [call\<lparr>ca_Error := Some ServerConnectionClosed, ca_phase := Ended\<rparr>]\<rparr>)
         else cl\<lparr>ac_chans := chans, ac_calls := ac_calls cl @ [call\<lparr>ca_cancelFunc := \<not> has_deadline\<rparr>]\<rparr>)"

text \<open>The rest of \<^verbatim>\<open>Go\<close>: pack the arguments, register the call, start the goroutine.\<close>

definition Go_send :: "('m, 'a) any_codec \<Rightarrow> nat \<Rightarrow> 'm async_client \<Rightarrow> 'm async_client" where
  "Go_send c a cl =
     (let call = ac_calls cl ! a
      in case any_new c (ca_Args call) of
           None \<Rightarrow>
             call_done a (cl\<lparr>ac_calls := (ac_calls cl)[a := call\<lparr>ca_Error := Some PackArgs, ca_phase := Ended\<rparr>]\<rparr>)
         | Some argsAny \<Rightarrow>
             let sequence = ac_seq cl + 1
             in cl\<lparr>ac_seq := sequence, ac_pending := AList.update sequence a (ac_pending cl),
                   ac_calls := (ac_calls cl)[a := call\<lparr>ca_phase := Sent sequence\<rparr>]\<rparr>)"

text \<open>The goroutine, once the request has been answered.\<close>

definition call_result :: "('m, 'a) any_codec \<Rightarrow> (grpc_code \<Rightarrow> string) \<Rightarrow> (grpc_code, 'a pb_RPCResponse) go \<Rightarrow>
    'm Call \<Rightarrow> 'm Call" where
  "call_result c code_text res call =
     (case res of
        Ret resp \<Rightarrow>
          if pr_Error resp \<noteq> [] then call\<lparr>ca_Error := Some (RemoteError (pr_Error resp))\<rparr>
          else
            (case pr_Reply resp of
               None \<Rightarrow> call
             | Some a \<Rightarrow>
                 (case any_to c a (ca_Reply call) of
                    None \<Rightarrow> call\<lparr>ca_Error := Some UnpackReply\<rparr>
                  | Some m \<Rightarrow> call\<lparr>ca_Reply := m\<rparr>))
      | Fail code \<Rightarrow> call\<lparr>ca_Error := Some (ServiceError (''gRPC call failed: '' @ code_text code))\<rparr>
      | Panic \<Rightarrow> call)"

definition Go_finish ::
    "('m, 'a) any_codec \<Rightarrow> (grpc_code \<Rightarrow> string) \<Rightarrow> nat \<Rightarrow> 64 word \<Rightarrow> (grpc_code, 'a pb_RPCResponse) go \<Rightarrow>
       'm async_client \<Rightarrow> 'm async_client" where
  "Go_finish c code_text a sequence res cl =
     (let cl = cl\<lparr>ac_pending := AList.delete sequence (ac_pending cl)\<rparr>
      in call_done a (cl\<lparr>ac_calls := (ac_calls cl)[a := (call_result c code_text res (ac_calls cl ! a))\<lparr>ca_phase := Ended\<rparr>]\<rparr>))"

fun close_pending :: "nat list \<Rightarrow> 'm async_client \<Rightarrow> 'm async_client" where
  "close_pending [] cl = cl"
| "close_pending (a # as) cl =
     close_pending as (call_done a
       (cl\<lparr>ac_calls := (ac_calls cl)[a := (ac_calls cl ! a)\<lparr>ca_Error := Some ServerConnectionClosed\<rparr>]\<rparr>))"

definition GRPCClient_Close :: "'m async_client \<Rightarrow> 'm async_client" where
  "GRPCClient_Close cl =
     (if ac_closed cl then cl
      else (close_pending (map snd (ac_pending cl)) cl)\<lparr>ac_pending := [], ac_closed := True, ac_closing := False\<rparr>)"

section \<open>Runs\<close>

inductive async_step :: "('m, 'a) any_codec \<Rightarrow> (grpc_code \<Rightarrow> string) \<Rightarrow> 'm async_client \<Rightarrow> 'm async_client \<Rightarrow> bool"
  for c code_text where
  go: "async_step c code_text cl (Go_check d has_deadline m args reply cl)"
| send: "a < length (ac_calls cl) \<Longrightarrow> ca_phase (ac_calls cl ! a) = Checked \<Longrightarrow>
    async_step c code_text cl (Go_send c a cl)"
| finish: "a < length (ac_calls cl) \<Longrightarrow> ca_phase (ac_calls cl ! a) = Sent sq \<Longrightarrow> res \<noteq> Panic \<Longrightarrow>
    async_step c code_text cl (Go_finish c code_text a sq res cl)"
| close: "async_step c code_text cl (GRPCClient_Close cl)"

inductive async_reach :: "('m, 'a) any_codec \<Rightarrow> (grpc_code \<Rightarrow> string) \<Rightarrow> 'm async_client \<Rightarrow> bool" for c code_text where
  start: "async_reach c code_text new_async"
| step: "async_reach c code_text cl \<Longrightarrow> async_step c code_text cl cl' \<Longrightarrow> async_reach c code_text cl'"

section \<open>Signals\<close>

text \<open>
  A call that waits is pending and has no signal, or \<^verbatim>\<open>Close\<close> has signalled it once; one that has ended has one
  signal, or two when the client was closed. Sequence numbers are not used twice.
\<close>

definition phase_ok :: "'m async_client \<Rightarrow> nat \<Rightarrow> bool" where
  "phase_ok cl a \<longleftrightarrow>
     (case ca_phase (ac_calls cl ! a) of
        Checked \<Rightarrow> ca_signals (ac_calls cl ! a) = 0
      | Sent s \<Rightarrow> unat s \<le> unat (ac_seq cl) \<and>
          (if (s, a) \<in> set (ac_pending cl) then ca_signals (ac_calls cl ! a) = 0
           else ca_signals (ac_calls cl ! a) = 1 \<and> ac_closed cl)
      | Ended \<Rightarrow> ca_signals (ac_calls cl ! a) = 1 \<or> ca_signals (ac_calls cl ! a) = 2 \<and> ac_closed cl)"

definition left_check :: "'m async_client \<Rightarrow> nat" where
  "left_check cl = length (filter (\<lambda>call. ca_phase call \<noteq> Checked) (ac_calls cl))"

definition async_ok :: "'m async_client \<Rightarrow> bool" where
  "async_ok cl \<longleftrightarrow> (\<forall>a < length (ac_calls cl). phase_ok cl a) \<and> unat (ac_seq cl) \<le> left_check cl
     \<and> distinct (map fst (ac_pending cl)) \<and> \<not> ac_closing cl
     \<and> (\<forall>s a. (s, a) \<in> set (ac_pending cl) \<longrightarrow> a < length (ac_calls cl) \<and> ca_phase (ac_calls cl ! a) = Sent s)
     \<and> (\<forall>a < length (ac_calls cl). \<forall>b < length (ac_calls cl). \<forall>s.
          ca_phase (ac_calls cl ! a) = Sent s \<longrightarrow> ca_phase (ac_calls cl ! b) = Sent s \<longrightarrow> a = b)"

lemma call_done_simps [simp]:
  "ac_pending (call_done a cl) = ac_pending cl" "ac_seq (call_done a cl) = ac_seq cl"
  "ac_closed (call_done a cl) = ac_closed cl" "ac_closing (call_done a cl) = ac_closing cl"
  "length (ac_calls (call_done a cl)) = length (ac_calls cl)"
  by (simp_all add: call_done_def Let_def)

lemma call_done_call:
  "b < length (ac_calls cl) \<Longrightarrow> ca_phase (ac_calls (call_done a cl) ! b) = ca_phase (ac_calls cl ! b)"
  "b < length (ac_calls cl) \<Longrightarrow>
     ca_signals (ac_calls (call_done a cl) ! b) = ca_signals (ac_calls cl ! b) + (if b = a then 1 else 0)"
  by (cases "a = b"; simp add: call_done_def Let_def)+

lemma left_check_calls:
  "map ca_phase (ac_calls cl) = map ca_phase (ac_calls cl') \<Longrightarrow> left_check cl = left_check cl'"
proof -
  have "left_check cl = length (filter (\<lambda>p. p \<noteq> Checked) (map ca_phase (ac_calls cl)))" for cl :: "'m async_client"
    by (simp add: left_check_def filter_map comp_def)
  note l = this
  assume "map ca_phase (ac_calls cl) = map ca_phase (ac_calls cl')"
  then show "left_check cl = left_check cl'" by (simp only: l)
qed

lemma call_done_left [simp]: "left_check (call_done a cl) = left_check cl"
proof (rule left_check_calls, rule nth_equalityI)
  fix b assume "b < length (map ca_phase (ac_calls (call_done a cl)))"
  then show "map ca_phase (ac_calls (call_done a cl)) ! b = map ca_phase (ac_calls cl) ! b"
    by (simp add: call_done_call)
qed simp

lemma left_check_update:
  assumes "a < length (ac_calls cl)" and "ca_phase call \<noteq> Checked"
  shows "left_check (cl\<lparr>ac_calls := (ac_calls cl)[a := call]\<rparr>) =
    left_check cl + (if ca_phase (ac_calls cl ! a) = Checked then 1 else 0)"
proof -
  let ?P = "\<lambda>call. ca_phase call \<noteq> Checked"
  have "(ac_calls cl)[a := call] = take a (ac_calls cl) @ call # drop (Suc a) (ac_calls cl)"
    using assms(1) by (simp add: upd_conv_take_nth_drop)
  moreover have "ac_calls cl = take a (ac_calls cl) @ ac_calls cl ! a # drop (Suc a) (ac_calls cl)"
    using assms(1) by (rule id_take_nth_drop)
  then have "left_check cl = length (filter ?P (take a (ac_calls cl) @ ac_calls cl ! a # drop (Suc a) (ac_calls cl)))"
    unfolding left_check_def by simp
  ultimately show ?thesis using assms(2) by (simp add: left_check_def)
qed

lemma left_check_less:
  assumes "a < length (ac_calls cl)" and "ca_phase (ac_calls cl ! a) = Checked"
  shows "left_check cl < length (ac_calls cl)"
  unfolding left_check_def using assms by (intro length_filter_less [of "ac_calls cl ! a"]) simp_all

lemmas async_phase = async_ok_def [THEN iffD1, THEN conjunct1, rule_format]
  and async_seq = async_ok_def [THEN iffD1, THEN conjunct2, THEN conjunct1]
  and async_keys = async_ok_def [THEN iffD1, THEN conjunct2, THEN conjunct2, THEN conjunct1]
  and async_closing = async_ok_def [THEN iffD1, THEN conjunct2, THEN conjunct2, THEN conjunct2, THEN conjunct1]
  and async_pending = async_ok_def [THEN iffD1, THEN conjunct2, THEN conjunct2, THEN conjunct2, THEN conjunct2,
      THEN conjunct1, rule_format]
  and async_unique = async_ok_def [THEN iffD1, THEN conjunct2, THEN conjunct2, THEN conjunct2, THEN conjunct2,
      THEN conjunct2, rule_format]

text \<open>A new call.\<close>

lemma Go_check_ok:
  assumes ok: "async_ok cl"
  shows "async_ok (Go_check d dl m args reply cl)
    \<and> length (ac_calls (Go_check d dl m args reply cl)) = Suc (length (ac_calls cl))"
proof -
  let ?cl = "Go_check d dl m args reply cl" and ?n = "length (ac_calls cl)"
  have frame: "length (ac_calls ?cl) = Suc ?n" "ac_pending ?cl = ac_pending cl" "ac_seq ?cl = ac_seq cl"
    "ac_closed ?cl = ac_closed cl" "ac_closing ?cl = ac_closing cl"
    by (simp_all add: Go_check_def Let_def)
  have old: "ca_phase (ac_calls ?cl ! b) = ca_phase (ac_calls cl ! b)"
    "ca_signals (ac_calls ?cl ! b) = ca_signals (ac_calls cl ! b)" if "b < ?n" for b
    using that by (auto simp: Go_check_def Let_def call_done_call nth_append)
  have new: "ca_phase (ac_calls ?cl ! ?n) = (if ac_closed cl then Ended else Checked)"
    "ca_signals (ac_calls ?cl ! ?n) = (if ac_closed cl then 1 else 0)"
    using async_closing [OF ok] by (auto simp: Go_check_def Let_def call_done_call)
  have left: "left_check cl \<le> left_check ?cl"
    by (auto simp: Go_check_def Let_def) (simp_all add: left_check_def)
  have "phase_ok ?cl b" if "b < Suc ?n" for b
  proof (cases "b = ?n")
    case True
    then show ?thesis by (simp add: phase_ok_def new frame)
  next
    case False
    with that have "b < ?n" by simp
    then show ?thesis using async_phase [OF ok, of b] 
      by (cases "ca_phase (ac_calls cl ! b)") (auto simp: phase_ok_def old frame split: if_splits)
  qed
  moreover have "a < Suc ?n \<and> ca_phase (ac_calls ?cl ! a) = Sent s" if "(s, a) \<in> set (ac_pending cl)" for s a
    using async_pending [OF ok that] by (simp add: old)
  moreover have "a = b" if "a < Suc ?n" "b < Suc ?n" "ca_phase (ac_calls ?cl ! a) = Sent s"
      "ca_phase (ac_calls ?cl ! b) = Sent s" for a b s
  proof -
    have "a < ?n" "b < ?n" using that new(1) by (auto simp: less_Suc_eq split: if_splits)
    then show ?thesis using async_unique [OF ok, of a b s] that by (simp add: old)
  qed
  ultimately show ?thesis
    using async_seq [OF ok] left async_keys [OF ok] async_closing [OF ok]
    unfolding async_ok_def frame by (intro conjI allI impI) (auto intro: order_trans)
qed

lemma Go_finish_ok:
  assumes ok: "async_ok cl" and a: "a < length (ac_calls cl)" and ph: "ca_phase (ac_calls cl ! a) = Sent sq"
  shows "async_ok (Go_finish c ct a sq res cl)
    \<and> length (ac_calls (Go_finish c ct a sq res cl)) = length (ac_calls cl)"
proof -
  let ?cl = "Go_finish c ct a sq res cl" and ?n = "length (ac_calls cl)"
  define call where "call = (call_result c ct res (ac_calls cl ! a))\<lparr>ca_phase := Ended\<rparr>"
  have cs: "ca_signals call = ca_signals (ac_calls cl ! a)" "ca_phase call = Ended"
    by (simp_all add: call_def call_result_def split: go.splits option.splits)
  have e: "?cl = call_done a (cl\<lparr>ac_pending := AList.delete sq (ac_pending cl), ac_calls := (ac_calls cl)[a := call]\<rparr>)"
    by (simp add: Go_finish_def Let_def call_def)
  have frame: "length (ac_calls ?cl) = ?n" "ac_pending ?cl = AList.delete sq (ac_pending cl)" "ac_seq ?cl = ac_seq cl"
    "ac_closed ?cl = ac_closed cl" "ac_closing ?cl = ac_closing cl"
    by (simp_all add: e)
  have calls: "ca_phase (ac_calls ?cl ! b) = (if b = a then Ended else ca_phase (ac_calls cl ! b))"
    "ca_signals (ac_calls ?cl ! b) = ca_signals (ac_calls cl ! b) + (if b = a then 1 else 0)" if "b < ?n" for b
    unfolding e using that cs by (cases "b = a"; simp add: call_done_call)+
  have mem: "(s, b) \<in> set (ac_pending ?cl) \<longleftrightarrow> (s, b) \<in> set (ac_pending cl) \<and> s \<noteq> sq" for s b
    by (auto simp: frame AList.delete_eq)
  have left: "left_check ?cl = left_check cl"
    using left_check_update [OF a, of call] ph cs(2) unfolding e call_done_left by (simp add: left_check_def)
  have "phase_ok ?cl b" if b: "b < ?n" for b
  proof (cases "b = a")
    case True
    then show ?thesis using async_phase [OF ok a] ph b
      by (auto simp: phase_ok_def calls frame split: if_splits)
  next
    case False
    have "s \<noteq> sq" if "ca_phase (ac_calls cl ! b) = Sent s" for s using async_unique [OF ok b a] that ph False by auto
    then show ?thesis using async_phase [OF ok b] False b
      by (cases "ca_phase (ac_calls cl ! b)") (auto simp: phase_ok_def calls mem frame(3,4))
  qed
  moreover have "b < ?n \<and> ca_phase (ac_calls ?cl ! b) = Sent s" if "(s, b) \<in> set (ac_pending ?cl)" for s b
    using async_pending [OF ok, of s b] that ph calls [of b] by (auto simp: mem)
  moreover have "x = b" if "x < ?n" "b < ?n" "ca_phase (ac_calls ?cl ! x) = Sent s" "ca_phase (ac_calls ?cl ! b) = Sent s" for x b s
    using async_unique [OF ok that(1,2), of s] that calls by (auto split: if_splits)
  moreover have "distinct (map fst (ac_pending ?cl))" using async_keys [OF ok] by (simp add: frame distinct_delete)
  ultimately show ?thesis
    using async_seq [OF ok] left async_closing [OF ok]
    unfolding async_ok_def frame(1,3,4,5) by (intro conjI allI impI) auto
qed

lemma Go_send_ok:
  assumes ok: "async_ok cl" and a: "a < length (ac_calls cl)" and ph: "ca_phase (ac_calls cl ! a) = Checked"
    and bound: "length (ac_calls cl) < 2 ^ 64"
  shows "async_ok (Go_send c a cl) \<and> length (ac_calls (Go_send c a cl)) = length (ac_calls cl)"
proof (cases "any_new c (ca_Args (ac_calls cl ! a))")
  case None
  let ?cl = "Go_send c a cl" and ?n = "length (ac_calls cl)"
  define call where "call = (ac_calls cl ! a)\<lparr>ca_Error := Some PackArgs, ca_phase := Ended\<rparr>"
  have e: "?cl = call_done a (cl\<lparr>ac_calls := (ac_calls cl)[a := call]\<rparr>)"
    using None by (simp add: Go_send_def Let_def call_def)
  have frame: "length (ac_calls ?cl) = ?n" "ac_pending ?cl = ac_pending cl" "ac_seq ?cl = ac_seq cl"
    "ac_closed ?cl = ac_closed cl" "ac_closing ?cl = ac_closing cl"
    by (simp_all add: e)
  have calls: "ca_phase (ac_calls ?cl ! b) = (if b = a then Ended else ca_phase (ac_calls cl ! b))"
    "ca_signals (ac_calls ?cl ! b) = ca_signals (ac_calls cl ! b) + (if b = a then 1 else 0)" if "b < ?n" for b
    unfolding e using that by (cases "b = a"; simp add: call_done_call call_def)+
  have left: "left_check ?cl = Suc (left_check cl)"
    using left_check_update [OF a, of call] ph unfolding e call_done_left by (simp add: call_def)
  have "phase_ok ?cl b" if b: "b < ?n" for b
    using async_phase [OF ok b] async_phase [OF ok a] ph b
    by (cases "b = a"; cases "ca_phase (ac_calls cl ! b)") (auto simp: phase_ok_def calls frame(2-4))
  moreover have "b < ?n \<and> ca_phase (ac_calls ?cl ! b) = Sent s" if "(s, b) \<in> set (ac_pending cl)" for s b
    using async_pending [OF ok that] ph calls [of b] by auto
  moreover have "x = b" if "x < ?n" "b < ?n" "ca_phase (ac_calls ?cl ! x) = Sent s" "ca_phase (ac_calls ?cl ! b) = Sent s" for x b s
    using async_unique [OF ok that(1,2), of s] that calls by (auto split: if_splits)
  ultimately show ?thesis
    using async_seq [OF ok] left async_closing [OF ok] async_keys [OF ok]
    unfolding async_ok_def frame by (intro conjI allI impI) auto
next
  case (Some x)
  let ?cl = "Go_send c a cl" and ?n = "length (ac_calls cl)" and ?s = "ac_seq cl + 1"
  define call where "call = (ac_calls cl ! a)\<lparr>ca_phase := Sent ?s\<rparr>"
  have e: "?cl = cl\<lparr>ac_seq := ?s, ac_pending := AList.update ?s a (ac_pending cl), ac_calls := (ac_calls cl)[a := call]\<rparr>"
    using Some by (simp add: Go_send_def Let_def call_def)
  have frame: "length (ac_calls ?cl) = ?n" "ac_closed ?cl = ac_closed cl" "ac_closing ?cl = ac_closing cl"
    by (simp_all add: e)
  have "unat (ac_seq cl) < 2 ^ 64 - 1"
    using async_seq [OF ok] left_check_less [OF a ph] bound by linarith
  then have us: "unat ?s = Suc (unat (ac_seq cl))"
    by (simp add: unat_word_ariths)
  have sent: "s \<noteq> ?s" if "b < ?n" "ca_phase (ac_calls cl ! b) = Sent s" for b s
    using async_phase [OF ok that(1)] that(2) us by (auto simp: phase_ok_def)
  have fresh: "?s \<notin> fst ` set (ac_pending cl)"
    using async_pending [OF ok] sent by force
  have keys: "distinct (map fst (ac_pending ?cl))" using async_keys [OF ok] by (simp add: e distinct_update)
  have mem: "(s, b) \<in> set (ac_pending ?cl) \<longleftrightarrow> (if s = ?s then b = a else (s, b) \<in> set (ac_pending cl))" for s b
  proof -
    have "(s, b) \<in> set (ac_pending ?cl) \<longleftrightarrow> map_of (ac_pending ?cl) s = Some b"
      by (rule map_of_eq_Some_iff [OF keys, symmetric])
    also have "\<dots> \<longleftrightarrow> (if s = ?s then b = a else map_of (ac_pending cl) s = Some b)"
      by (auto simp: e update_conv')
    finally show ?thesis by (simp only: map_of_eq_Some_iff [OF async_keys [OF ok]])
  qed
  have calls: "ca_phase (ac_calls ?cl ! b) = (if b = a then Sent ?s else ca_phase (ac_calls cl ! b))"
    "ca_signals (ac_calls ?cl ! b) = ca_signals (ac_calls cl ! b)" if "b < ?n" for b
    unfolding e using that by (cases "b = a"; simp add: call_def)+
  have left: "left_check ?cl = Suc (left_check cl)"
    using left_check_update [OF a, of call] ph unfolding e by (simp add: left_check_def call_def)
  have "phase_ok ?cl b" if b: "b < ?n" for b
  proof (cases "b = a")
    case True
    then show ?thesis using async_phase [OF ok a] ph b by (simp add: phase_ok_def calls mem) (simp add: e)
  next
    case False
    have "ac_seq ?cl = ?s" by (simp add: e)
    then show ?thesis using async_phase [OF ok b] False b sent [OF b] us
      by (cases "ca_phase (ac_calls cl ! b)") (auto simp: phase_ok_def calls mem frame(2))
  qed
  moreover have "b < ?n \<and> ca_phase (ac_calls ?cl ! b) = Sent s" if "(s, b) \<in> set (ac_pending ?cl)" for s b
    using async_pending [OF ok, of s b] that ph calls [of b] a by (auto simp: mem split: if_splits)
  moreover have "x = b" if "x < ?n" "b < ?n" "ca_phase (ac_calls ?cl ! x) = Sent s" "ca_phase (ac_calls ?cl ! b) = Sent s" for x b s
    using async_unique [OF ok that(1,2), of s] that calls sent by (auto split: if_splits)
  moreover have "unat (ac_seq ?cl) \<le> left_check ?cl" using async_seq [OF ok] us left by (simp add: e)
  ultimately show ?thesis
    using async_closing [OF ok] keys unfolding async_ok_def frame by (intro conjI allI impI) auto
qed

lemma close_pending_frame:
  "ac_seq (close_pending as cl) = ac_seq cl" "ac_closing (close_pending as cl) = ac_closing cl"
  "length (ac_calls (close_pending as cl)) = length (ac_calls cl)"
  by (induction as arbitrary: cl) simp_all

lemma close_pending_calls:
  "distinct as \<Longrightarrow> b < length (ac_calls cl) \<Longrightarrow>
   ca_phase (ac_calls (close_pending as cl) ! b) = ca_phase (ac_calls cl ! b)
   \<and> ca_signals (ac_calls (close_pending as cl) ! b) = ca_signals (ac_calls cl ! b) + (if b \<in> set as then 1 else 0)"
proof (induction as arbitrary: cl)
  case (Cons a as)
  let ?cl = "call_done a (cl\<lparr>ac_calls := (ac_calls cl)[a := (ac_calls cl ! a)\<lparr>ca_Error := Some ServerConnectionClosed\<rparr>]\<rparr>)"
  have "ca_phase (ac_calls ?cl ! b) = ca_phase (ac_calls cl ! b)"
    "ca_signals (ac_calls ?cl ! b) = ca_signals (ac_calls cl ! b) + (if b = a then 1 else 0)"
    using Cons.prems by (cases "b = a"; simp add: call_done_call)+
  then show ?case using Cons.IH [of ?cl] Cons.prems by auto
qed simp

lemma Close_ok:
  assumes ok: "async_ok cl"
  shows "async_ok (GRPCClient_Close cl) \<and> length (ac_calls (GRPCClient_Close cl)) = length (ac_calls cl)"
proof (cases "ac_closed cl")
  case True
  then show ?thesis using ok by (simp add: GRPCClient_Close_def)
next
  case False
  let ?cl = "GRPCClient_Close cl" and ?n = "length (ac_calls cl)" and ?as = "map snd (ac_pending cl)"
  have e: "?cl = (close_pending ?as cl)\<lparr>ac_pending := [], ac_closed := True, ac_closing := False\<rparr>"
    using False by (simp add: GRPCClient_Close_def)
  have frame: "length (ac_calls ?cl) = ?n" "ac_pending ?cl = []" "ac_seq ?cl = ac_seq cl" "ac_closed ?cl" "\<not> ac_closing ?cl"
    by (simp_all add: e close_pending_frame)
  have "inj_on snd (set (ac_pending cl))"
    using async_pending [OF ok] by (intro inj_onI) (metis go_phase.inject prod.collapse)
  moreover have "distinct (ac_pending cl)" using async_keys [OF ok] by (simp add: distinct_map)
  ultimately have d: "distinct ?as" by (simp add: distinct_map)
  have calls: "ca_phase (ac_calls ?cl ! b) = ca_phase (ac_calls cl ! b)"
    "ca_signals (ac_calls ?cl ! b) = ca_signals (ac_calls cl ! b) + (if b \<in> set ?as then 1 else 0)" if "b < ?n" for b
    using close_pending_calls [OF d that] by (simp_all add: e)
  have as: "b \<in> set ?as \<longleftrightarrow> (\<exists>s. ca_phase (ac_calls cl ! b) = Sent s \<and> (s, b) \<in> set (ac_pending cl))" for b
    using async_pending [OF ok] by force
  have left: "left_check ?cl = left_check cl"
    by (rule left_check_calls, rule nth_equalityI) (simp_all add: frame calls)
  have "phase_ok ?cl b" if b: "b < ?n" for b
    using async_phase [OF ok b] False b
    by (cases "ca_phase (ac_calls cl ! b)") (auto simp: phase_ok_def calls frame as simp del: set_map split: if_splits)
  moreover have "x = b" if "x < ?n" "b < ?n" "ca_phase (ac_calls ?cl ! x) = Sent s" "ca_phase (ac_calls ?cl ! b) = Sent s" for x b s
    using async_unique [OF ok that(1,2), of s] that calls by simp
  ultimately show ?thesis
    using async_seq [OF ok] left unfolding async_ok_def frame by (intro conjI allI impI) (auto simp: frame)
qed

lemma step_lengths:
  "length (ac_calls (Go_check d dl m args reply cl)) = Suc (length (ac_calls cl))"
  "length (ac_calls (Go_send c a cl)) = length (ac_calls cl)"
  "length (ac_calls (Go_finish c ct a sq res cl)) = length (ac_calls cl)"
  "length (ac_calls (GRPCClient_Close cl)) = length (ac_calls cl)"
  by (simp_all add: Go_check_def Go_send_def Go_finish_def GRPCClient_Close_def close_pending_frame Let_def
      split: option.splits)

lemma async_step_length: "async_step c ct cl cl' \<Longrightarrow> length (ac_calls cl) \<le> length (ac_calls cl')"
  by (induction rule: async_step.induct) (simp_all add: step_lengths)

lemma async_reach_ok: "async_reach c ct cl \<Longrightarrow> length (ac_calls cl) < 2 ^ 64 \<Longrightarrow> async_ok cl"
proof (induction rule: async_reach.induct)
  case start
  show ?case by (simp add: async_ok_def new_async_def left_check_def)
next
  case (step cl cl')
  have b: "length (ac_calls cl) < 2 ^ 64" using async_step_length [OF step.hyps(2)] step.prems by linarith
  note ok = step.IH [OF b]
  show ?case using step.hyps(2)
  proof cases
    case go
    then show ?thesis using Go_check_ok [OF ok] by simp
  next
    case (send a)
    then show ?thesis using Go_send_ok [OF ok send(2,3) b] by blast
  next
    case (finish a sq res)
    then show ?thesis using Go_finish_ok [OF ok finish(2,3)] by blast
  next
    case close
    then show ?thesis using Close_ok [OF ok] by simp
  qed
qed


text \<open>A call in flight when the client is closed is signalled again when its answer comes.\<close>

definition closed_in_flight :: "nat async_client" where
  "closed_in_flight =
     Go_finish number_codec (\<lambda>_. []) 0 1 (Ret \<lparr>pr_ServiceMethod = ''Calc.Add'', pr_Sequence = 1, pr_Error = [], pr_Reply = Some 9\<rparr>)
       (GRPCClient_Close (Go_send number_codec 0 (Go_check None True ''Calc.Add'' 4 0 new_async)))"

lemma closed_in_flight_calls:
  "ac_calls closed_in_flight = [\<lparr>ca_ServiceMethod = ''Calc.Add'', ca_Args = 4, ca_Reply = 9,
     ca_Error = Some ServerConnectionClosed, ca_Done = 0, ca_cancelFunc = False, ca_cancelled = False,
     ca_phase = Ended, ca_signals = 2\<rparr>]" "ac_chans closed_in_flight = [(10, [0, 0])]" "ac_closed closed_in_flight"
  by (simp_all add: closed_in_flight_def Go_finish_def GRPCClient_Close_def Go_send_def Go_check_def call_done_def
      send_done_def call_result_def number_codec_def new_async_def)

lemma closed_in_flight_reach: "async_reach number_codec (\<lambda>_. []) closed_in_flight"
proof -
  let ?r = "async_reach number_codec (\<lambda>_. [])" and ?c1 = "Go_check None True ''Calc.Add'' (4 :: nat) 0 new_async"
  let ?c2 = "Go_send number_codec 0 ?c1"
  have "?r ?c1" by (rule async_reach.step [OF async_reach.start async_step.go])
  then have "?r ?c2" by (rule async_reach.step [OF _ async_step.send]) (simp_all add: Go_check_def new_async_def)
  then have "?r (GRPCClient_Close ?c2)" by (rule async_reach.step [OF _ async_step.close])
  then show ?thesis unfolding closed_in_flight_def
    by (rule async_reach.step [OF _ async_step.finish])
      (simp_all add: Go_check_def Go_send_def new_async_def number_codec_def GRPCClient_Close_def call_done_def)
qed


end
