(* ===== verification/Conn_Manager.thy ===== *)
theory Conn_Manager
  imports Go_Prelude "HOL-Library.AList"
begin

text \<open>
  The manager of gRPC connections, \<^verbatim>\<open>src/pkg/rpc/conn_manager.go\<close>. Connections are shared between the table and
  the goroutines that use them, so they live in a store and are named by their address. A goroutine that runs
  \<^verbatim>\<open>GetConnection\<close> stops where it gives up the lock or waits: before its first check, while it waits for
  another goroutine to make the connection, before it takes the write lock, while it waits with the write lock
  held, while it dials, and between the two unlocks at its end. Between these points it runs with the lock held and takes one
  step. \<open>cm_writer\<close> is the goroutine that holds the write lock across steps. What the connection reports as its
  state, what dialling gives, the clock and the timeouts are choices of the environment. A fatal error of the
  runtime or a nil dereference ends the process: \<open>cm_crashed\<close>.
\<close>

section \<open>The manager\<close>

record ClientConn =
  cc_Conn :: bool
  cc_closed :: bool
  cc_LastUsed :: int
  cc_Creating :: bool
  cc_complete :: bool

datatype get_result = GotConn nat | GotNil | GotTimeout | GotDialError

datatype get_at =
    AtCheck | WaitRead nat | AtCreate | WaitLocked nat | Dialing nat | SecondUnlock get_result | Returned get_result

record getter =
  g_endpoint :: string
  g_at :: get_at

record ConnManager =
  cm_connections :: "(string \<times> nat) list"
  cm_conns :: "ClientConn list"
  cm_getters :: "getter list"
  cm_writer :: "nat option"
  cm_stopped :: bool
  cm_crashed :: bool

definition NewConnManager :: ConnManager where
  "NewConnManager = \<lparr>cm_connections = [], cm_conns = [], cm_getters = [], cm_writer = None, cm_stopped = False,
     cm_crashed = False\<rparr>"

definition idleTimeout :: int where
  "idleTimeout = 10 * 60 * 1000000000"

definition put_at :: "nat \<Rightarrow> get_at \<Rightarrow> ConnManager \<Rightarrow> ConnManager" where
  "put_at t p m = m\<lparr>cm_getters := (cm_getters m)[t := (cm_getters m ! t)\<lparr>g_at := p\<rparr>]\<rparr>"

definition put_conn :: "nat \<Rightarrow> ClientConn \<Rightarrow> ConnManager \<Rightarrow> ConnManager" where
  "put_conn a c m = m\<lparr>cm_conns := (cm_conns m)[a := c]\<rparr>"

definition crash :: "ConnManager \<Rightarrow> ConnManager" where
  "crash m = m\<lparr>cm_crashed := True\<rparr>"

section \<open>GetConnection\<close>

text \<open>A new goroutine.\<close>

definition get_start :: "string \<Rightarrow> ConnManager \<Rightarrow> ConnManager" where
  "get_start endpoint m = m\<lparr>cm_getters := cm_getters m @ [\<lparr>g_endpoint = endpoint, g_at = AtCheck\<rparr>]\<rparr>"

text \<open>The first check, with the read lock: \<open>usable\<close> is what the state of a finished connection says.\<close>

definition get_check :: "nat \<Rightarrow> bool \<Rightarrow> int \<Rightarrow> ConnManager \<Rightarrow> ConnManager" where
  "get_check t usable now m =
     (case map_of (cm_connections m) (g_endpoint (cm_getters m ! t)) of
        None \<Rightarrow> put_at t AtCreate m
      | Some a \<Rightarrow>
          if cc_Creating (cm_conns m ! a) then put_at t (WaitRead a) m
          else if \<not> cc_Conn (cm_conns m ! a) then crash m
          else if usable then
            put_at t (Returned (GotConn a)) (put_conn a ((cm_conns m ! a)\<lparr>cc_LastUsed := now\<rparr>) m)
          else put_at t AtCreate m)"

definition lookup_result :: "string \<Rightarrow> ConnManager \<Rightarrow> get_result" where
  "lookup_result endpoint m = (case map_of (cm_connections m) endpoint of None \<Rightarrow> GotNil | Some a \<Rightarrow> GotConn a)"

text \<open>The connection that the goroutine waited for is complete: the table is read again.\<close>

definition get_reread :: "nat \<Rightarrow> ConnManager \<Rightarrow> ConnManager" where
  "get_reread t m = put_at t (Returned (lookup_result (g_endpoint (cm_getters m ! t)) m)) m"

text \<open>A new entry, marked as being created; the lock is then given up for dialling.\<close>

definition new_entry :: "nat \<Rightarrow> int \<Rightarrow> ConnManager \<Rightarrow> ConnManager" where
  "new_entry t now m =
     (let b = length (cm_conns m);
          endpoint = g_endpoint (cm_getters m ! t)
      in put_at t (Dialing b)
           (m\<lparr>cm_conns := cm_conns m @ [\<lparr>cc_Conn = False, cc_closed = False, cc_LastUsed = now, cc_Creating = True,
                                         cc_complete = False\<rparr>],
              cm_connections := AList.update endpoint b (cm_connections m)\<rparr>))"

text \<open>The second check, with the write lock.\<close>

definition get_create :: "nat \<Rightarrow> bool \<Rightarrow> int \<Rightarrow> ConnManager \<Rightarrow> ConnManager" where
  "get_create t usable now m =
     (let endpoint = g_endpoint (cm_getters m ! t)
      in case map_of (cm_connections m) endpoint of
           None \<Rightarrow> new_entry t now m
         | Some a \<Rightarrow>
             if cc_Creating (cm_conns m ! a) then (put_at t (WaitLocked a) m)\<lparr>cm_writer := Some t\<rparr>
             else if \<not> cc_Conn (cm_conns m ! a) then crash m
             else if usable then
               put_at t (Returned (GotConn a)) (put_conn a ((cm_conns m ! a)\<lparr>cc_LastUsed := now\<rparr>) m)
             else
               new_entry t now
                 ((put_conn a ((cm_conns m ! a)\<lparr>cc_closed := True\<rparr>) m)
                    \<lparr>cm_connections := AList.delete endpoint (cm_connections m)\<rparr>))"

text \<open>
  The wait with the write lock ends; the first of the two unlocks. Unlocking a free lock is a fatal error of the
  runtime.
\<close>

definition locked_end :: "nat \<Rightarrow> get_result \<Rightarrow> ConnManager \<Rightarrow> ConnManager" where
  "locked_end t r m =
     (if cm_writer m = None then crash m else (put_at t (SecondUnlock r) m)\<lparr>cm_writer := None\<rparr>)"

text \<open>The second unlock is fatal on a free lock, and takes the lock from another goroutine that holds it.\<close>

definition second_unlock :: "nat \<Rightarrow> get_result \<Rightarrow> ConnManager \<Rightarrow> ConnManager" where
  "second_unlock t r m =
     (if cm_writer m = None then crash m else (put_at t (Returned r) m)\<lparr>cm_writer := None\<rparr>)"

text \<open>Dialling has ended and the lock is taken again.\<close>

definition dial_end :: "nat \<Rightarrow> nat \<Rightarrow> bool \<Rightarrow> ConnManager \<Rightarrow> ConnManager" where
  "dial_end t b ok m =
     (if ok then
        put_at t (Returned (GotConn b))
          (put_conn b ((cm_conns m ! b)\<lparr>cc_Conn := True, cc_Creating := False, cc_complete := True\<rparr>) m)
      else
        put_at t (Returned GotDialError)
          (put_conn b ((cm_conns m ! b)\<lparr>cc_complete := True\<rparr>)
             (m\<lparr>cm_connections := AList.delete (g_endpoint (cm_getters m ! t)) (cm_connections m)\<rparr>)))"

text \<open>
  The service clients of an endpoint are fields of its connection: reading them from a nil connection panics,
  and they are nil while the connection is being made.
\<close>

definition GetServiceClient :: "get_result \<Rightarrow> ConnManager \<Rightarrow> (get_result, nat option) go" where
  "GetServiceClient r m =
     (case r of
        GotConn a \<Rightarrow> Ret (if cc_Conn (cm_conns m ! a) then Some a else None)
      | GotNil \<Rightarrow> Panic
      | GotTimeout \<Rightarrow> Fail GotTimeout
      | GotDialError \<Rightarrow> Fail GotDialError)"

section \<open>Closing\<close>

text \<open>Closing a connection that is still being made dereferences nil.\<close>

definition Conn_Close :: "string \<Rightarrow> ConnManager \<Rightarrow> ConnManager" where
  "Conn_Close endpoint m =
     (case map_of (cm_connections m) endpoint of
        None \<Rightarrow> m
      | Some a \<Rightarrow>
          if \<not> cc_Conn (cm_conns m ! a) then crash m
          else (put_conn a ((cm_conns m ! a)\<lparr>cc_closed := True\<rparr>) m)
                 \<lparr>cm_connections := AList.delete endpoint (cm_connections m)\<rparr>)"

fun close_entries :: "(int \<Rightarrow> bool) \<Rightarrow> (string \<times> nat) list \<Rightarrow> ConnManager \<Rightarrow> ConnManager" where
  "close_entries due [] m = m"
| "close_entries due ((endpoint, a) # rest) m =
     (if due (cc_LastUsed (cm_conns m ! a)) then
        if \<not> cc_Conn (cm_conns m ! a) then crash m
        else close_entries due rest
          ((put_conn a ((cm_conns m ! a)\<lparr>cc_closed := True\<rparr>) m)
             \<lparr>cm_connections := AList.delete endpoint (cm_connections m)\<rparr>)
      else close_entries due rest m)"

definition cleanupIdleConnections :: "int \<Rightarrow> ConnManager \<Rightarrow> ConnManager" where
  "cleanupIdleConnections now m = close_entries (\<lambda>used. idleTimeout < now - used) (cm_connections m) m"

definition CloseAll :: "ConnManager \<Rightarrow> ConnManager" where
  "CloseAll m =
     (if cm_stopped m then crash m else close_entries (\<lambda>_. True) (cm_connections m) (m\<lparr>cm_stopped := True\<rparr>))"

section \<open>Runs\<close>

definition at :: "nat \<Rightarrow> get_at \<Rightarrow> ConnManager \<Rightarrow> bool" where
  "at t p m \<longleftrightarrow> t < length (cm_getters m) \<and> g_at (cm_getters m ! t) = p"

inductive cm_step :: "ConnManager \<Rightarrow> ConnManager \<Rightarrow> bool" where
  start: "\<not> cm_crashed m \<Longrightarrow> cm_step m (get_start endpoint m)"
| check: "\<not> cm_crashed m \<Longrightarrow> cm_writer m = None \<Longrightarrow> at t AtCheck m \<Longrightarrow> cm_step m (get_check t usable now m)"
| reread: "\<not> cm_crashed m \<Longrightarrow> cm_writer m = None \<Longrightarrow> at t (WaitRead a) m \<Longrightarrow> cc_complete (cm_conns m ! a) \<Longrightarrow>
    cm_step m (get_reread t m)"
| read_timeout: "\<not> cm_crashed m \<Longrightarrow> at t (WaitRead a) m \<Longrightarrow> cm_step m (put_at t (Returned GotTimeout) m)"
| create: "\<not> cm_crashed m \<Longrightarrow> cm_writer m = None \<Longrightarrow> at t AtCreate m \<Longrightarrow> cm_step m (get_create t usable now m)"
| locked_complete: "\<not> cm_crashed m \<Longrightarrow> at t (WaitLocked a) m \<Longrightarrow> cc_complete (cm_conns m ! a) \<Longrightarrow>
    cm_step m (locked_end t (lookup_result (g_endpoint (cm_getters m ! t)) m) m)"
| locked_timeout: "\<not> cm_crashed m \<Longrightarrow> at t (WaitLocked a) m \<Longrightarrow> cm_step m (locked_end t GotTimeout m)"
| unlock: "\<not> cm_crashed m \<Longrightarrow> at t (SecondUnlock r) m \<Longrightarrow> cm_step m (second_unlock t r m)"
| dialed: "\<not> cm_crashed m \<Longrightarrow> cm_writer m = None \<Longrightarrow> at t (Dialing b) m \<Longrightarrow> cm_step m (dial_end t b ok m)"
| close: "\<not> cm_crashed m \<Longrightarrow> cm_writer m = None \<Longrightarrow> cm_step m (Conn_Close endpoint m)"
| close_all: "\<not> cm_crashed m \<Longrightarrow> cm_writer m = None \<Longrightarrow> cm_step m (CloseAll m)"
| cleanup: "\<not> cm_crashed m \<Longrightarrow> cm_writer m = None \<Longrightarrow> cm_step m (cleanupIdleConnections now m)"

inductive cm_reach :: "ConnManager \<Rightarrow> bool" where
  init: "cm_reach NewConnManager"
| step: "cm_reach m \<Longrightarrow> cm_step m m' \<Longrightarrow> cm_reach m'"


inductive cm_steps :: "ConnManager \<Rightarrow> ConnManager \<Rightarrow> bool" where
  refl: "cm_steps m m"
| more: "cm_steps m m' \<Longrightarrow> cm_step m' m'' \<Longrightarrow> cm_steps m m''"

text \<open>
  Two calls for the same endpoint. In \<open>waiting_run\<close> the second one makes its first check while the first one dials;
  in \<open>locked_run\<close> both make their first check before either of them takes the write lock.
\<close>

definition two_calls :: ConnManager where
  "two_calls = get_check 0 False 0 (get_start ''a'' (get_start ''a'' NewConnManager))"

definition waiting_run :: ConnManager where
  "waiting_run = get_check 1 False 0 (get_create 0 False 0 two_calls)"

definition locked_run :: ConnManager where
  "locked_run = get_create 1 False 0 (get_create 0 False 0 (get_check 1 False 0 two_calls))"

lemmas run_defs = two_calls_def waiting_run_def locked_run_def NewConnManager_def get_start_def get_check_def
  get_create_def new_entry_def Let_def put_at_def at_def

lemma two_calls_reach: "cm_reach two_calls"
  unfolding two_calls_def by (intro cm_reach.step [OF _ cm_step.check] cm_reach.step [OF _ cm_step.start] cm_reach.init)
    (simp_all add: run_defs)

lemma waiting_run_reach: "cm_reach waiting_run"
  unfolding waiting_run_def
  by (intro cm_reach.step [OF _ cm_step.check] cm_reach.step [OF _ cm_step.create] two_calls_reach)
    (simp_all add: run_defs)

lemma locked_run_reach: "cm_reach locked_run"
  unfolding locked_run_def
  by (intro cm_reach.step [OF _ cm_step.create] cm_reach.step [OF _ cm_step.check] two_calls_reach)
    (simp_all add: run_defs)

section \<open>One goroutine dials\<close>

definition endpoint_of :: "nat \<Rightarrow> ConnManager \<Rightarrow> string" where
  "endpoint_of t m = g_endpoint (cm_getters m ! t)"

definition entry_ok :: "string \<Rightarrow> nat \<Rightarrow> ConnManager \<Rightarrow> bool" where
  "entry_ok e a m \<longleftrightarrow>
     a < length (cm_conns m) \<and> \<not> cc_closed (cm_conns m ! a) \<and>
     (if cc_Creating (cm_conns m ! a)
      then \<not> cc_Conn (cm_conns m ! a) \<and> \<not> cc_complete (cm_conns m ! a) \<and> (\<exists>t. at t (Dialing a) m \<and> endpoint_of t m = e)
      else cc_Conn (cm_conns m ! a) \<and> cc_complete (cm_conns m ! a))"

definition cm_ok :: "ConnManager \<Rightarrow> bool" where
  "cm_ok m \<longleftrightarrow>
     distinct (map fst (cm_connections m)) \<and>
     (\<forall>e a. map_of (cm_connections m) e = Some a \<longrightarrow> entry_ok e a m) \<and>
     (\<forall>e e' a. map_of (cm_connections m) e = Some a \<longrightarrow> map_of (cm_connections m) e' = Some a \<longrightarrow> e = e') \<and>
     (\<forall>t b. at t (Dialing b) m \<longrightarrow>
        map_of (cm_connections m) (endpoint_of t m) = Some b \<and> cc_Creating (cm_conns m ! b)) \<and>
     (\<forall>t u b. at t (Dialing b) m \<longrightarrow> at u (Dialing b) m \<longrightarrow> t = u)"

lemmas ok_distinct = cm_ok_def [THEN iffD1, THEN conjunct1]
lemmas ok_entry = cm_ok_def [THEN iffD1, THEN conjunct2, THEN conjunct1, rule_format]
lemmas ok_inj = cm_ok_def [THEN iffD1, THEN conjunct2, THEN conjunct2, THEN conjunct1, rule_format]
lemmas ok_dial = cm_ok_def [THEN iffD1, THEN conjunct2, THEN conjunct2, THEN conjunct2, THEN conjunct1, rule_format]
lemmas ok_one = cm_ok_def [THEN iffD1, THEN conjunct2, THEN conjunct2, THEN conjunct2, THEN conjunct2, rule_format]

lemma cm_okI:
  assumes "distinct (map fst (cm_connections m))"
    and "\<And>e a. map_of (cm_connections m) e = Some a \<Longrightarrow> entry_ok e a m"
    and "\<And>e e' a. map_of (cm_connections m) e = Some a \<Longrightarrow> map_of (cm_connections m) e' = Some a \<Longrightarrow> e = e'"
    and "\<And>t b. at t (Dialing b) m \<Longrightarrow>
      map_of (cm_connections m) (endpoint_of t m) = Some b \<and> cc_Creating (cm_conns m ! b)"
    and "\<And>t u b. at t (Dialing b) m \<Longrightarrow> at u (Dialing b) m \<Longrightarrow> t = u"
  shows "cm_ok m"
  unfolding cm_ok_def using assms by blast

lemma put_at_simps [simp]:
  "cm_connections (put_at t p m) = cm_connections m" "cm_conns (put_at t p m) = cm_conns m"
  "cm_writer (put_at t p m) = cm_writer m" "cm_crashed (put_at t p m) = cm_crashed m"
  "length (cm_getters (put_at t p m)) = length (cm_getters m)"
  by (simp_all add: put_at_def)

lemma put_conn_simps [simp]:
  "cm_connections (put_conn a c m) = cm_connections m" "cm_conns (put_conn a c m) = (cm_conns m)[a := c]"
  "cm_writer (put_conn a c m) = cm_writer m" "cm_crashed (put_conn a c m) = cm_crashed m"
  "cm_getters (put_conn a c m) = cm_getters m"
  by (simp_all add: put_conn_def)

lemma crash_simps [simp]:
  "cm_connections (crash m) = cm_connections m" "cm_conns (crash m) = cm_conns m"
  "cm_getters (crash m) = cm_getters m" "cm_writer (crash m) = cm_writer m" "cm_crashed (crash m)"
  by (simp_all add: crash_def)

lemma at_put_at: "t < length (cm_getters m) \<Longrightarrow> at u q (put_at t p m) \<longleftrightarrow> (if u = t then q = p else at u q m)"
  by (auto simp: at_def put_at_def nth_list_update)

lemma endpoint_of_put_at [simp]: "endpoint_of u (put_at t p m) = endpoint_of u m"
  by (cases "t < length (cm_getters m)"; cases "u = t") (simp_all add: endpoint_of_def put_at_def list_update_beyond)

text \<open>A step that changes neither the table, nor what the invariant says of the connections, nor who dials.\<close>

definition conn_flags :: "ClientConn \<Rightarrow> bool \<times> bool \<times> bool \<times> bool" where
  "conn_flags c = (cc_Conn c, cc_closed c, cc_Creating c, cc_complete c)"

lemma ok_same:
  assumes ok: "cm_ok m" and same: "cm_connections m' = cm_connections m" "map conn_flags (cm_conns m') = map conn_flags (cm_conns m)"
    and dial: "\<And>u b. at u (Dialing b) m' \<longleftrightarrow> at u (Dialing b) m" and ep: "\<And>u b. at u (Dialing b) m \<Longrightarrow> endpoint_of u m' = endpoint_of u m"
  shows "cm_ok m'"
proof -
  have len: "length (cm_conns m') = length (cm_conns m)"
    using same(2) by (metis length_map)
  have flags: "conn_flags (cm_conns m' ! b) = conn_flags (cm_conns m ! b)" if "b < length (cm_conns m)" for b
    using same(2) that len by (metis nth_map)
  have entry: "entry_ok e a m'" if "entry_ok e a m" for e a
    using that flags [of a] len dial ep by (auto simp: entry_ok_def conn_flags_def split: if_splits)
  show ?thesis
  proof (rule cm_okI)
    show "distinct (map fst (cm_connections m'))"
      using ok_distinct [OF ok] same by simp
    show "entry_ok e a m'" if "map_of (cm_connections m') e = Some a" for e a
      using ok_entry [OF ok, of e a] that same by (simp add: entry)
    show "e = e'" if "map_of (cm_connections m') e = Some a" "map_of (cm_connections m') e' = Some a" for e e' a
      using ok_inj [OF ok, of e a e'] that same by simp
    show "map_of (cm_connections m') (endpoint_of t m') = Some b \<and> cc_Creating (cm_conns m' ! b)"
      if "at t (Dialing b) m'" for t b
    proof -
      have t: "at t (Dialing b) m"
        using that dial by blast
      then have d: "map_of (cm_connections m) (endpoint_of t m) = Some b" "cc_Creating (cm_conns m ! b)"
        using ok_dial [OF ok] by blast+
      then have "b < length (cm_conns m)"
        using ok_entry [OF ok d(1)] by (simp add: entry_ok_def)
      with flags [of b] d t ep same show ?thesis
        by (simp add: conn_flags_def)
    qed
    show "t = u" if "at t (Dialing b) m'" "at u (Dialing b) m'" for t u b
      using ok_one [OF ok, of t b u] that dial by simp
  qed
qed

lemma put_at_ok:
  assumes ok: "cm_ok m" and t: "at t p m" and p: "\<And>b. p \<noteq> Dialing b" and q: "\<And>b. q \<noteq> Dialing b"
  shows "cm_ok (put_at t q m)"
proof (rule ok_same [OF ok])
  have len: "t < length (cm_getters m)" and no: "\<not> at t (Dialing b) m" for b
    using t p by (auto simp: at_def)
  show "at u (Dialing b) (put_at t q m) = at u (Dialing b) m" for u b
    using q [of b] no [of b] by (cases "u = t") (auto simp: at_put_at [OF len])
qed simp_all

lemma writer_ok: "cm_ok m \<Longrightarrow> cm_ok (m\<lparr>cm_writer := w\<rparr>)"
  by (erule ok_same) (simp_all add: at_def endpoint_of_def)

lemma crash_ok: "cm_ok m \<Longrightarrow> cm_ok (crash m)"
  by (erule ok_same) (simp_all add: at_def endpoint_of_def)

lemma start_ok: "cm_ok m \<Longrightarrow> cm_ok (get_start endpoint m)"
  by (erule ok_same) (auto simp: get_start_def at_def endpoint_of_def nth_append)

text \<open>A use of a finished connection.\<close>

lemma used_ok: "cm_ok m \<Longrightarrow> cm_ok (put_conn a ((cm_conns m ! a)\<lparr>cc_LastUsed := now\<rparr>) m)"
  by (cases "a < length (cm_conns m)"; erule ok_same)
    (simp_all add: at_def endpoint_of_def list_update_beyond map_update conn_flags_def list_update_same_conv)

text \<open>A finished connection is closed and taken out of the table.\<close>

lemma drop_ok:
  assumes ok: "cm_ok m" and e: "map_of (cm_connections m) e = Some a" and made: "cc_Conn (cm_conns m ! a)"
  shows "cm_ok ((put_conn a ((cm_conns m ! a)\<lparr>cc_closed := True\<rparr>) m)
    \<lparr>cm_connections := AList.delete e (cm_connections m)\<rparr>)" (is "cm_ok ?m")
proof -
  have fin: "\<not> cc_Creating (cm_conns m ! a)"
    using ok_entry [OF ok e] made by (auto simp: entry_ok_def split: if_splits)
  have look: "map_of (cm_connections ?m) x = (if x = e then None else map_of (cm_connections m) x)" for x
    by (simp add: AList.delete_conv')
  have other: "cm_conns ?m ! b = cm_conns m ! b" if "b \<noteq> a" for b
    using that by simp
  have cr: "cc_Creating (cm_conns ?m ! b) = cc_Creating (cm_conns m ! b)" for b
    by (cases "a < length (cm_conns m)"; cases "b = a"; simp add: list_update_beyond)
  show ?thesis
  proof (rule cm_okI)
    show "distinct (map fst (cm_connections ?m))"
      using ok_distinct [OF ok] by (simp add: AList.distinct_delete)
    show "entry_ok x b ?m" if "map_of (cm_connections ?m) x = Some b" for x b
    proof -
      have x: "x \<noteq> e" "map_of (cm_connections m) x = Some b"
        using that by (auto simp: look AList.delete_conv' split: if_splits)
      then have "b \<noteq> a"
        using ok_inj [OF ok e] by blast
      with ok_entry [OF ok x(2)] show ?thesis
        unfolding entry_ok_def other [OF \<open>b \<noteq> a\<close>] by (auto simp: at_def endpoint_of_def split: if_splits)
    qed
    show "x = y" if "map_of (cm_connections ?m) x = Some b" "map_of (cm_connections ?m) y = Some b" for x y b
      using that ok_inj [OF ok, of x b y] by (auto simp: look AList.delete_conv' split: if_splits)
    show "map_of (cm_connections ?m) (endpoint_of t ?m) = Some b \<and> cc_Creating (cm_conns ?m ! b)"
      if "at t (Dialing b) ?m" for t b
    proof -
      have d: "map_of (cm_connections m) (endpoint_of t m) = Some b" "cc_Creating (cm_conns m ! b)"
        using ok_dial [OF ok, of t b] that by (simp_all add: at_def)
      then have "endpoint_of t m \<noteq> e"
        using e fin by auto
      with d show ?thesis
        unfolding cr look by (simp add: endpoint_of_def)
    qed
    show "t = u" if "at t (Dialing b) ?m" "at u (Dialing b) ?m" for t u b
      using ok_one [OF ok, of t b u] that by (simp add: at_def)
  qed
qed


lemma new_entry_ok:
  assumes ok: "cm_ok m" and t: "at t AtCreate m" and free: "map_of (cm_connections m) (endpoint_of t m) = None"
  shows "cm_ok (new_entry t now m)" (is "cm_ok ?m")
proof -
  let ?e = "endpoint_of t m" and ?b = "length (cm_conns m)"
  have len: "t < length (cm_getters m)"
    using t by (simp add: at_def)
  have look: "map_of (cm_connections ?m) x = (if x = ?e then Some ?b else map_of (cm_connections m) x)" for x
    by (simp add: new_entry_def Let_def AList.update_conv' endpoint_of_def)
  have old: "cm_conns ?m ! a = cm_conns m ! a" if "a < ?b" for a
    using that by (simp add: new_entry_def Let_def nth_append)
  have new: "length (cm_conns ?m) = Suc ?b" "cc_Creating (cm_conns ?m ! ?b)" "\<not> cc_Conn (cm_conns ?m ! ?b)"
    "\<not> cc_complete (cm_conns ?m ! ?b)" "\<not> cc_closed (cm_conns ?m ! ?b)"
    by (simp_all add: new_entry_def Let_def)
  have at': "at u q ?m \<longleftrightarrow> (if u = t then q = Dialing ?b else at u q m)" for u q
    using len by (simp add: new_entry_def Let_def at_put_at) (simp add: at_def)
  have ep: "endpoint_of u ?m = endpoint_of u m" for u
    by (simp add: new_entry_def Let_def) (simp add: endpoint_of_def)
  have no: "\<not> at t (Dialing c) m" for c
    using t by (simp add: at_def)
  have small: "a < ?b" if "map_of (cm_connections m) x = Some a" for x a
    using ok_entry [OF ok that] by (simp add: entry_ok_def)
  have dial: "c < ?b \<and> endpoint_of u m \<noteq> ?e" if "at u (Dialing c) m" for u c
    using ok_dial [OF ok that] small free by auto
  show ?thesis
  proof (rule cm_okI)
    show "distinct (map fst (cm_connections ?m))"
      using ok_distinct [OF ok] by (simp add: new_entry_def Let_def AList.distinct_update)
    show "entry_ok x a ?m" if x: "map_of (cm_connections ?m) x = Some a" for x a
    proof (cases "x = ?e")
      case True
      then have "a = ?b"
        using x by (simp add: look AList.delete_conv' split: if_splits)
      moreover have "at t (Dialing ?b) ?m"
        by (simp add: at')
      ultimately show ?thesis
        using new ep True by (auto simp: entry_ok_def)
    next
      case False
      then have x': "map_of (cm_connections m) x = Some a"
        using x by (simp add: look AList.delete_conv' split: if_splits)
      show ?thesis
        using ok_entry [OF ok x'] small [OF x'] old [of a] new(1) ep at' no unfolding entry_ok_def
        by (metis less_Suc_eq)
    qed
    show "x = y" if "map_of (cm_connections ?m) x = Some a" "map_of (cm_connections ?m) y = Some a" for x y a
      using that ok_inj [OF ok, of x a y] small by (fastforce simp: look AList.delete_conv' split: if_splits)
    show "map_of (cm_connections ?m) (endpoint_of u ?m) = Some c \<and> cc_Creating (cm_conns ?m ! c)"
      if "at u (Dialing c) ?m" for u c
      using that ok_dial [OF ok, of u c] dial [of u c] old [of c] new
      by (cases "u = t") (auto simp: at' ep look)
    show "u = v" if "at u (Dialing c) ?m" "at v (Dialing c) ?m" for u v c
      using that ok_one [OF ok, of u c v] dial [of u c] dial [of v c] by (auto simp: at' split: if_splits)
  qed
qed

text \<open>The end of dialling, with the entry finished and kept or else deleted.\<close>

lemma dialed_ok:
  assumes ok: "cm_ok m" and t: "at t (Dialing b) m" and q: "\<And>c. q \<noteq> Dialing c"
    and c: "keep \<Longrightarrow> cc_Conn c \<and> cc_complete c \<and> \<not> cc_closed c \<and> \<not> cc_Creating c"
  shows "cm_ok (put_at t q (put_conn b c
    (m\<lparr>cm_connections := if keep then cm_connections m else AList.delete (endpoint_of t m) (cm_connections m)\<rparr>)))"
    (is "cm_ok ?m")
proof -
  let ?e = "endpoint_of t m"
  have len: "t < length (cm_getters m)"
    using t by (simp add: at_def)
  have b: "map_of (cm_connections m) ?e = Some b"
    using ok_dial [OF ok t] by simp
  have range: "b < length (cm_conns m)"
    using ok_entry [OF ok b] by (simp add: entry_ok_def)
  have look: "map_of (cm_connections ?m) x = (if x = ?e \<and> \<not> keep then None else map_of (cm_connections m) x)" for x
    by (simp add: AList.delete_conv')
  have old: "cm_conns ?m ! a = cm_conns m ! a" if "a \<noteq> b" for a
    using that by simp
  have new: "length (cm_conns ?m) = length (cm_conns m)" "cm_conns ?m ! b = c"
    using range by simp_all
  have at': "at u p ?m \<longleftrightarrow> (if u = t then p = q else at u p m)" for u p
    using len by (simp add: at_put_at) (simp add: at_def)
  have ep: "endpoint_of u ?m = endpoint_of u m" for u
    by simp (simp add: endpoint_of_def)
  have dial: "at u (Dialing a) m \<and> u \<noteq> t \<and> a \<noteq> b \<and> endpoint_of u m \<noteq> ?e" if "at u (Dialing a) ?m" for u a
  proof -
    have u: "at u (Dialing a) m" "u \<noteq> t"
      using that q [of a] by (auto simp: at' split: if_splits)
    then have "a \<noteq> b"
      using ok_one [OF ok _ t] by blast
    with u ok_dial [OF ok u(1)] b show ?thesis
      by auto
  qed
  show ?thesis
  proof (rule cm_okI)
    show "distinct (map fst (cm_connections ?m))"
      using ok_distinct [OF ok] by (simp add: AList.distinct_delete)
    show "entry_ok x a ?m" if x: "map_of (cm_connections ?m) x = Some a" for x a
    proof (cases "x = ?e")
      case True
      then have "keep" "a = b"
        using x b by (auto simp: look AList.delete_conv' split: if_splits)
      then show ?thesis
        using c new range by (auto simp: entry_ok_def)
    next
      case False
      then have x': "map_of (cm_connections m) x = Some a"
        using x by (simp add: look AList.delete_conv' split: if_splits)
      then have "a \<noteq> b"
        using ok_inj [OF ok b] False by blast
      moreover have "at u (Dialing a) ?m" if "at u (Dialing a) m" for u
      proof -
        have "u \<noteq> t"
          using that \<open>a \<noteq> b\<close> t by (auto simp: at_def)
        with that show ?thesis
          unfolding at' by simp
      qed
      ultimately show ?thesis
        using ok_entry [OF ok x'] old [of a] new(1) ep unfolding entry_ok_def by metis
    qed
    show "x = y" if "map_of (cm_connections ?m) x = Some a" "map_of (cm_connections ?m) y = Some a" for x y a
      using that ok_inj [OF ok, of x a y] by (auto simp: look AList.delete_conv' split: if_splits)
    show "map_of (cm_connections ?m) (endpoint_of u ?m) = Some a \<and> cc_Creating (cm_conns ?m ! a)"
      if "at u (Dialing a) ?m" for u a
      using dial [OF that] ok_dial [OF ok, of u a] old [of a] unfolding look ep by (simp del: put_at_simps put_conn_simps)
    show "u = v" if "at u (Dialing a) ?m" "at v (Dialing a) ?m" for u v a
      using dial [OF that(1)] dial [OF that(2)] ok_one [OF ok, of u a v] by blast
  qed
qed


text \<open>Closing entries of the table.\<close>

lemma close_entries_ok:
  assumes "cm_ok m" "distinct (map fst es)" "\<And>e a. (e, a) \<in> set es \<Longrightarrow> map_of (cm_connections m) e = Some a"
  shows "cm_ok (close_entries due es m)"
  using assms
proof (induction due es m rule: close_entries.induct)
  case (2 due e a rest m)
  let ?m = "(put_conn a ((cm_conns m ! a)\<lparr>cc_closed := True\<rparr>) m)\<lparr>cm_connections := AList.delete e (cm_connections m)\<rparr>"
  have e: "map_of (cm_connections m) e = Some a"
    using 2(5) by simp
  have rest: "distinct (map fst rest)" "e \<notin> fst ` set rest"
    using 2(4) by simp_all
  have keep: "map_of (cm_connections m) x = Some b" if "(x, b) \<in> set rest" for x b
    using 2(5) [of x b] that by simp
  then have left: "map_of (cm_connections ?m) x = Some b" if "(x, b) \<in> set rest" for x b
    using that rest(2) by (force simp: AList.delete_conv')
  show ?case
  proof (cases "due (cc_LastUsed (cm_conns m ! a))")
    case True
    show ?thesis
    proof (cases "cc_Conn (cm_conns m ! a)")
      case made: True
      have "cm_ok (close_entries due rest ?m)"
        using 2(1) [OF True] made drop_ok [OF 2(3) e made] rest(1) left by blast
      then show ?thesis
        using True made by simp
    qed (simp add: True crash_ok [OF 2(3)])
  next
    case False
    then show ?thesis
      using 2(2) [OF False 2(3) rest(1) keep] by simp
  qed
qed simp

lemma close_all_entries_ok: "cm_ok m \<Longrightarrow> cm_ok (close_entries due (cm_connections m) m)"
  using close_entries_ok [of m "cm_connections m" due] ok_distinct [of m] by (simp add: map_of_is_SomeI)

lemma Conn_Close_ok: "cm_ok m \<Longrightarrow> cm_ok (Conn_Close endpoint m)"
  by (auto simp: Conn_Close_def drop_ok crash_ok split: option.split)

lemma get_check_ok: "cm_ok m \<Longrightarrow> at t AtCheck m \<Longrightarrow> cm_ok (get_check t usable now m)"
  unfolding get_check_def
  by (auto split: option.split intro!: put_at_ok [where p = AtCheck] crash_ok used_ok simp: at_def)

lemma get_create_ok:
  assumes ok: "cm_ok m" and t: "at t AtCreate m"
  shows "cm_ok (get_create t usable now m)"
proof (cases "map_of (cm_connections m) (g_endpoint (cm_getters m ! t))")
  case None
  then show ?thesis
    using new_entry_ok [OF ok t] by (simp add: get_create_def endpoint_of_def)
next
  case (Some a)
  let ?m = "(put_conn a ((cm_conns m ! a)\<lparr>cc_closed := True\<rparr>) m)
    \<lparr>cm_connections := AList.delete (g_endpoint (cm_getters m ! t)) (cm_connections m)\<rparr>"
  have "cm_ok (new_entry t now ?m)" if "cc_Conn (cm_conns m ! a)"
    by (rule new_entry_ok [OF drop_ok [OF ok Some that]])
      (use t in \<open>simp_all add: at_def endpoint_of_def AList.delete_conv'\<close>)
  moreover have "cm_ok (put_at t q m)" if "\<And>b. q \<noteq> Dialing b" for q
    using put_at_ok [OF ok t] that by simp
  moreover have "cm_ok (put_at t (Returned r) (put_conn a ((cm_conns m ! a)\<lparr>cc_LastUsed := now\<rparr>) m))" for r
    by (rule put_at_ok [OF used_ok [OF ok], where p = AtCreate]) (use t in \<open>simp_all add: at_def\<close>)
  ultimately show ?thesis
    using Some crash_ok [OF ok] by (auto simp: get_create_def Let_def intro: writer_ok)
qed

lemma dial_end_ok:
  assumes ok: "cm_ok m" and t: "at t (Dialing b) m"
  shows "cm_ok (dial_end t b ok' m)"
proof (cases ok')
  case True
  have "\<not> cc_closed (cm_conns m ! b)"
    using ok_entry [OF ok, of "endpoint_of t m" b] ok_dial [OF ok t] by (simp add: entry_ok_def)
  then show ?thesis
    using dialed_ok [OF ok t, of "Returned (GotConn b)" True] True by (simp add: dial_end_def)
next
  case False
  show ?thesis
    using dialed_ok [OF ok t, of "Returned GotDialError" False] False by (simp add: dial_end_def endpoint_of_def)
qed


lemma cm_step_ok: "cm_step m m' \<Longrightarrow> cm_ok m \<Longrightarrow> cm_ok m'"
proof (induction rule: cm_step.induct)
  case (reread m t a)
  then show ?case
    unfolding get_reread_def by (auto intro: put_at_ok)
next
  case (read_timeout m t a)
  then show ?case
    by (auto intro: put_at_ok)
next
  case (locked_complete m t a)
  then show ?case
    unfolding locked_end_def by (auto intro: put_at_ok writer_ok crash_ok)
next
  case (locked_timeout m t a)
  then show ?case
    unfolding locked_end_def by (auto intro: put_at_ok writer_ok crash_ok)
next
  case (unlock m t r)
  then show ?case
    unfolding second_unlock_def by (auto intro: put_at_ok writer_ok crash_ok)
next
  case (close_all m)
  have "cm_ok (m\<lparr>cm_stopped := True\<rparr>)"
    by (rule ok_same [OF close_all(3)]) (simp_all add: at_def endpoint_of_def)
  then show ?case
    using close_all_entries_ok [of "m\<lparr>cm_stopped := True\<rparr>"] crash_ok [OF close_all(3)] by (simp add: CloseAll_def)
qed (simp_all add: start_ok get_check_ok get_create_ok dial_end_ok Conn_Close_ok cleanupIdleConnections_def close_all_entries_ok)

lemma cm_reach_ok: "cm_reach m \<Longrightarrow> cm_ok m"
proof (induction rule: cm_reach.induct)
  case init
  show ?case
    by (rule cm_okI) (simp_all add: NewConnManager_def at_def)
qed (rule cm_step_ok)


section \<open>One unlock too many\<close>

definition unlocks_at :: "get_at \<Rightarrow> nat" where
  "unlocks_at p = (case p of WaitLocked _ \<Rightarrow> 2 | SecondUnlock _ \<Rightarrow> 1 | _ \<Rightarrow> 0)"

definition unlocks :: "ConnManager \<Rightarrow> nat" where
  "unlocks m = sum_list (map (\<lambda>g. unlocks_at (g_at g)) (cm_getters m))"

definition locks :: "ConnManager \<Rightarrow> nat" where
  "locks m = (if cm_writer m = None then 0 else 1)"

lemma unlocks_at_simps [simp]:
  "unlocks_at AtCheck = 0" "unlocks_at (WaitRead a) = 0" "unlocks_at AtCreate = 0" "unlocks_at (WaitLocked a) = 2"
  "unlocks_at (Dialing a) = 0" "unlocks_at (SecondUnlock r) = 1" "unlocks_at (Returned r) = 0"
  by (simp_all add: unlocks_at_def)

lemma sum_list_put:
  fixes f :: "'a \<Rightarrow> nat"
  shows "t < length xs \<Longrightarrow> sum_list (map f (xs[t := x])) + f (xs ! t) = sum_list (map f xs) + f x"
  by (induction xs arbitrary: t) (auto split: nat.split)

lemma sum_list_positive:
  fixes f :: "'a \<Rightarrow> nat"
  shows "0 < sum_list (map f xs) \<Longrightarrow> \<exists>x\<in>set xs. 0 < f x"
  by (induction xs) auto

lemma unlocks_put_at: "at t p m \<Longrightarrow> unlocks (put_at t q m) + unlocks_at p = unlocks m + unlocks_at q"
  using sum_list_put [of t "cm_getters m" "\<lambda>g. unlocks_at (g_at g)" "(cm_getters m ! t)\<lparr>g_at := q\<rparr>"]
  by (auto simp: unlocks_def at_def put_at_def)

lemma unlocks_same: "cm_getters m' = cm_getters m \<Longrightarrow> unlocks m' = unlocks m"
  by (simp add: unlocks_def)

lemma unlocks_update [simp]:
  "unlocks (m\<lparr>cm_writer := w\<rparr>) = unlocks m" "unlocks (m\<lparr>cm_connections := cs\<rparr>) = unlocks m"
  "unlocks (m\<lparr>cm_conns := cl\<rparr>) = unlocks m" "unlocks (put_conn a c m) = unlocks m" "unlocks (crash m) = unlocks m"
  "unlocks (m\<lparr>cm_stopped := s\<rparr>) = unlocks m"
  by (simp_all add: unlocks_def)

lemma close_entries_same [simp]:
  "cm_getters (close_entries due es m) = cm_getters m" "cm_writer (close_entries due es m) = cm_writer m"
  by (induction due es m rule: close_entries.induct) simp_all

lemma at_update [simp]:
  "at t p (m\<lparr>cm_writer := w\<rparr>) = at t p m" "at t p (m\<lparr>cm_connections := cs\<rparr>) = at t p m"
  "at t p (m\<lparr>cm_conns := cl\<rparr>) = at t p m" "at t p (put_conn a c m) = at t p m"
  by (simp_all add: at_def)

lemma unlocks_new_entry:
  "at t AtCreate m \<Longrightarrow> unlocks (new_entry t now m) = unlocks m" "cm_writer (new_entry t now m) = cm_writer m"
  using unlocks_put_at [of t AtCreate _ "Dialing (length (cm_conns m))"] by (simp_all add: new_entry_def Let_def)

lemma step_unlocks: "cm_step m m' \<Longrightarrow> \<not> cm_crashed m' \<Longrightarrow> unlocks m + locks m' \<le> unlocks m' + locks m"
proof (induction rule: cm_step.induct)
  case (start m endpoint)
  then show ?case
    by (simp add: unlocks_def get_start_def locks_def)
next
  case (check m t usable now)
  then show ?case
    using unlocks_put_at [of t AtCheck]
    by (auto simp: get_check_def locks_def unlocks_put_at split: option.splits if_splits)
next
  case (reread m t a)
  then show ?case
    using unlocks_put_at [of t "WaitRead a" m] by (simp add: get_reread_def locks_def)
next
  case (read_timeout m t a)
  then show ?case
    using unlocks_put_at [of t "WaitRead a" m] by (simp add: locks_def)
next
  case (create m t usable now)
  have put: "unlocks (put_at t q m') = unlocks m' + unlocks_at q" if "at t AtCreate m'" for q m'
    using unlocks_put_at [OF that, of q] by simp
  show ?case
    using create
    by (auto simp: get_create_def Let_def locks_def put unlocks_new_entry split: option.splits if_splits)
next
  case (dialed m t b ok)
  have put: "unlocks (put_at t q m') = unlocks m' + unlocks_at q" if "at t (Dialing b) m'" for q m'
    using unlocks_put_at [OF that, of q] by simp
  show ?case
    using dialed by (simp add: dial_end_def locks_def put)
next
  case (locked_complete m t a)
  then show ?case
    using unlocks_put_at [of t "WaitLocked a" m "SecondUnlock (lookup_result (g_endpoint (cm_getters m ! t)) m)"]
    by (auto simp: locked_end_def locks_def split: if_splits)
next
  case (locked_timeout m t a)
  then show ?case
    using unlocks_put_at [of t "WaitLocked a" m "SecondUnlock GotTimeout"] by (auto simp: locked_end_def locks_def split: if_splits)
next
  case (unlock m t r)
  then show ?case
    using unlocks_put_at [of t "SecondUnlock r" m "Returned r"] by (auto simp: second_unlock_def locks_def split: if_splits)
next
  case (close m endpoint)
  then show ?case
    by (auto simp: Conn_Close_def locks_def split: option.splits if_splits)
next
  case (close_all m)
  then show ?case
    using unlocks_same [of "CloseAll m" m] by (auto simp: CloseAll_def locks_def)
next
  case (cleanup m now)
  then show ?case
    using unlocks_same [of "cleanupIdleConnections now m" m] by (auto simp: cleanupIdleConnections_def locks_def)
qed

lemma crashed_stays: "cm_step m m' \<Longrightarrow> \<not> cm_crashed m"
  by (erule cm_step.cases) simp_all

lemma steps_unlocks: "cm_steps m m' \<Longrightarrow> \<not> cm_crashed m' \<Longrightarrow> unlocks m + locks m' \<le> unlocks m' + locks m"
proof (induction rule: cm_steps.induct)
  case (more m m' m'')
  then show ?case
    using step_unlocks [OF more(2,4)] more(3) [OF crashed_stays [OF more(2)]] by simp
qed simp

lemma unlocks_pending:
  assumes "0 < unlocks m"
  shows "\<exists>u. (\<exists>a. at u (WaitLocked a) m) \<or> (\<exists>r. at u (SecondUnlock r) m)"
proof -
  obtain g where "g \<in> set (cm_getters m)" "0 < unlocks_at (g_at g)"
    using assms sum_list_positive unfolding unlocks_def by blast
  then obtain u where "u < length (cm_getters m)" "0 < unlocks_at (g_at (cm_getters m ! u))"
    by (metis in_set_conv_nth)
  then show ?thesis
    by (cases "g_at (cm_getters m ! u)") (auto simp: at_def)
qed

lemma waiting_unlocks: "at t (WaitLocked a) m \<Longrightarrow> 2 \<le> unlocks m"
  using unlocks_put_at [of t "WaitLocked a" m AtCheck] by simp

section \<open>Connections that are being made\<close>

lemma close_entries_crash:
  assumes "(e, a) \<in> set es" "\<not> cc_Conn (cm_conns m ! a)"
  shows "cm_crashed (close_entries (\<lambda>_. True) es m)"
  using assms
proof (induction es arbitrary: m)
  case (Cons x es)
  obtain e' b where x: "x = (e', b)"
    by (cases x)
  have c: "cc_Conn ((cm_conns m)[b := (cm_conns m ! b)\<lparr>cc_closed := True\<rparr>] ! a) = cc_Conn (cm_conns m ! a)"
    by (cases "b < length (cm_conns m)"; cases "a = b"; simp add: list_update_beyond)
  show ?case
    using Cons x c by auto
qed simp



text \<open>C22: Once a goroutine waits in GetConnection with the write lock held, the manager never recovers: in every later state
  some call still has an unlock to make for which there is no lock, or the process has ended with a fatal error.\<close>

theorem locked_wait_never_recovers:
  assumes "at t (WaitLocked a) m" "cm_steps m m'"
  shows "cm_crashed m' \<or> (\<exists>u. (\<exists>b. at u (WaitLocked b) m') \<or> (\<exists>r. at u (SecondUnlock r) m'))"
proof (cases "cm_crashed m'")
  case False
  have "0 < unlocks m'"
    using steps_unlocks [OF assms(2) False] waiting_unlocks [OF assms(1)] by (simp add: locks_def split: if_splits)
  then show ?thesis
    using unlocks_pending by blast
qed simp

theorem locked_wait_never_recovers_witness:
  "cm_reach locked_run \<and> at 1 (WaitLocked 0) locked_run \<and>
   cm_steps locked_run (second_unlock 1 GotTimeout (locked_end 1 GotTimeout locked_run)) \<and>
   cm_crashed (second_unlock 1 GotTimeout (locked_end 1 GotTimeout locked_run))"
proof -
  let ?m = "second_unlock 1 GotTimeout (locked_end 1 GotTimeout locked_run)"
  have w: "at 1 (WaitLocked 0) locked_run"
    by (simp add: run_defs)
  have s: "cm_steps locked_run ?m"
    by (intro cm_steps.more [OF _ cm_step.unlock] cm_steps.more [OF _ cm_step.locked_timeout] cm_steps.refl)
      (simp_all add: run_defs locked_end_def)
  have "\<not> (\<exists>u. (\<exists>b. at u (WaitLocked b) ?m) \<or> (\<exists>r. at u (SecondUnlock r) ?m)) \<or> cm_crashed ?m"
    by (simp add: run_defs locked_end_def second_unlock_def)
  with locked_wait_never_recovers [OF w s] w s locked_run_reach show ?thesis
    by blast
qed

text \<open>While a connection is being dialled, closing its endpoint or all endpoints ends the process with a nil dereference;
  and when dialling fails, every call that waited for the connection returns nil without an error, on which the
  request for a service client panics.\<close>

theorem unfinished_connection_hazards:
  assumes "cm_reach m" "at t (Dialing b) m" "at u (WaitRead b) m" "endpoint_of u m = endpoint_of t m"
  shows "cm_crashed (Conn_Close (endpoint_of t m) m) \<and> cm_crashed (CloseAll m) \<and>
    at u (Returned GotNil) (get_reread u (dial_end t b False m)) \<and> GetServiceClient GotNil m = Panic"
proof -
  have ok: "cm_ok m"
    by (rule cm_reach_ok [OF assms(1)])
  have e: "map_of (cm_connections m) (endpoint_of t m) = Some b"
    using ok_dial [OF ok assms(2)] by simp
  have nil: "\<not> cc_Conn (cm_conns m ! b)"
    using ok_entry [OF ok e] ok_dial [OF ok assms(2)] by (simp add: entry_ok_def)
  have ut: "u \<noteq> t"
    using assms(2,3) by (auto simp: at_def)
  have "cm_crashed (CloseAll m)"
    using close_entries_crash [OF map_of_SomeD [OF e], of "m\<lparr>cm_stopped := True\<rparr>"] nil by (simp add: CloseAll_def)
  moreover have "at u (Returned GotNil) (get_reread u (dial_end t b False m))"
  proof -
    let ?m = "dial_end t b False m"
    have len: "u < length (cm_getters ?m)"
      using assms(3) by (simp add: dial_end_def at_def)
    have "endpoint_of u ?m = endpoint_of t m"
      using assms(4) by (simp add: dial_end_def) (simp add: endpoint_of_def)
    then have "lookup_result (g_endpoint (cm_getters ?m ! u)) ?m = GotNil"
      by (simp add: lookup_result_def endpoint_of_def dial_end_def AList.delete_conv')
    then show ?thesis
      using at_put_at [OF len, of u] by (simp add: get_reread_def)
  qed
  ultimately show ?thesis
    using e nil by (simp add: Conn_Close_def GetServiceClient_def)
qed

theorem unfinished_connection_hazards_witness:
  "cm_reach waiting_run \<and> cm_crashed (Conn_Close ''a'' waiting_run) \<and> cm_crashed (CloseAll waiting_run) \<and>
   at 1 (Returned GotNil) (get_reread 1 (dial_end 0 0 False waiting_run))"
proof -
  have e: "endpoint_of 0 waiting_run = ''a''" "endpoint_of 1 waiting_run = ''a''"
    by (simp_all add: run_defs endpoint_of_def)
  have a: "at 0 (Dialing 0) waiting_run" "at 1 (WaitRead 0) waiting_run"
    by (simp_all add: run_defs)
  show ?thesis
    using unfinished_connection_hazards [OF waiting_run_reach a] e waiting_run_reach by simp
qed

end
