(* ===== verification/Quic_Streams.thy ===== *)
theory Quic_Streams
  imports Gateway_Sessions
begin

text \<open>
  The streams of a QUIC connection, \<^verbatim>\<open>src/pkg/gateway/quic_stream_handler.go\<close>, with the message
  handlers of \<^verbatim>\<open>gateway_handler.go\<close> and \<^verbatim>\<open>message_handler.go\<close>. Every stream is served by a goroutine of its own: first authentication, unless the connection is authenticated, then
  messages until a read fails. \<open>qh_live\<close> holds the goroutines with their streams, \<open>qh_streams\<close> the table of the code.
  Generated session IDs, addresses of new sessions, clock readings and what the router waits for are
  arguments. The connection of a session is a \<open>quic_conn\<close> of the theory of sessions.
\<close>

section \<open>Message handlers\<close>

record ('lb, 'cb) SimpleMessageHandler =
  mh_router :: "('lb, 'cb) MessageRouter option"
  mh_routeTimeout :: int

definition NewSimpleMessageHandler :: "('lb, 'cb) MessageRouter option \<Rightarrow> ('lb, 'cb) SimpleMessageHandler" where
  "NewSimpleMessageHandler r = \<lparr>mh_router = r, mh_routeTimeout = 5 * 1000000000\<rparr>"

definition SetRouteTimeout :: "int \<Rightarrow> ('lb, 'cb) SimpleMessageHandler \<Rightarrow> ('lb, 'cb) SimpleMessageHandler" where
  "SetRouteTimeout t h = h\<lparr>mh_routeTimeout := t\<rparr>"

definition Simple_HandleMessage ::
    "'lb selector \<Rightarrow> ('lb, 'cb) SimpleMessageHandler \<Rightarrow> route_event \<Rightarrow> Message \<Rightarrow>
      ('lb, 'cb) SimpleMessageHandler \<times> (route_error, Message option) go" where
  "Simple_HandleMessage select h ev msg =
     (case mh_router h of
        None \<Rightarrow> (h, Ret None)
      | Some r \<Rightarrow>
          let (r, _, res) = Route select ev r msg
          in (h\<lparr>mh_router := Some r\<rparr>, go_bind res (\<lambda>m. Ret (Some m))))"

definition Gateway_HandleMessage ::
    "'lb selector \<Rightarrow> ('sc, 'lb, 'cb) GatewayHandler \<Rightarrow> route_event \<Rightarrow> Message \<Rightarrow>
      ('sc, 'lb, 'cb) GatewayHandler \<times> (route_error, Message option) go" where
  "Gateway_HandleMessage select h ev msg =
     (let (r, _, res) = Route select ev (router h) msg
      in (h\<lparr>router := r\<rparr>, go_bind res (\<lambda>m. Ret (Some m))))"

section \<open>The stream handler\<close>

datatype phase = Arrived | Authenticating | Serving

record 'sc QUICStreamHandler =
  qh_streams :: "nat fset"
  qh_live :: "(nat, phase \<times> quic_stream) fmap"
  bufferSize :: int
  qh_cancelled :: bool
  qh_sessionID :: string
  authenticated :: bool
  sessionManager :: "'sc SessionManager"

datatype auth_error = AuthRead sess_error | AuthParse conv_error | AuthConvert conv_error | AuthWrite sess_error

definition NewQUICStreamHandler :: "'sc SessionManager \<Rightarrow> int \<Rightarrow> 'sc QUICStreamHandler" where
  "NewQUICStreamHandler sm bufSize =
     \<lparr>qh_streams = {||}, qh_live = fmempty, bufferSize = bufSize, qh_cancelled = False, qh_sessionID = [],
      authenticated = False, sessionManager = sm\<rparr>"

text \<open>The start of \<^verbatim>\<open>Handle\<close>: a session is created; the error of adding it is ignored.\<close>

definition Handle_start :: "string \<Rightarrow> addr \<Rightarrow> int \<Rightarrow> quic_conn \<Rightarrow> 'sc QUICStreamHandler \<Rightarrow> 'sc QUICStreamHandler" where
  "Handle_start gen fresh now conn h =
     (let sm = sessionManager h;
          sm = sm\<lparr>sm_heap := (sm_heap sm)(fresh := NewSessionWithQUIC gen ConnectionTypeQUIC now conn)\<rparr>;
          sm = fst (SM_AddSession fresh sm)
      in h\<lparr>qh_sessionID := gen, sessionManager := sm\<rparr>)"

text \<open>A round of the loop of \<^verbatim>\<open>Handle\<close> that accepts a stream.\<close>

definition accept_stream :: "nat \<Rightarrow> quic_stream \<Rightarrow> 'sc QUICStreamHandler \<Rightarrow> 'sc QUICStreamHandler" where
  "accept_stream i q h = h\<lparr>qh_streams := finsert i (qh_streams h), qh_live := fmupd i (Arrived, q) (qh_live h)\<rparr>"

text \<open>Closing a stream closes its sending side: later writes fail, reads go on.\<close>

definition stream_write :: "byte list \<Rightarrow> quic_stream \<Rightarrow> quic_stream \<times> (sess_error, unit) go" where
  "stream_write bs q = (if qs_closed q then (q, Fail ConnWriteFailed) else qs_write bs q)"

text \<open>Length and content of a message.\<close>

definition write_framed :: "byte list \<Rightarrow> quic_stream \<Rightarrow> quic_stream \<times> (sess_error, unit) go" where
  "write_framed bs q =
     (let (q, r) = stream_write (be32 (word_of_nat (length bs))) q
      in with_recv q r (\<lambda>_. stream_write bs q))"

definition authResponse :: "string \<Rightarrow> Message" where
  "authResponse sid =
     \<lparr>Version = 0, Flags = 0, ServiceTypeOf = 1, MessageTypeOf = 2, SequenceID = 0, Timestamp = 0, PayloadLength = 0,
      SourceService = [], DestinationService = [], CorrelationID = [], SessionID = sid,
      Payload = bytes_of (''{'' @ [CHR 0x22] @ ''status'' @ [CHR 0x22] @ '':'' @ [CHR 0x22] @ ''authenticated'' @ [CHR 0x22] @ ''}'')\<rparr>"

definition performAuthentication ::
    "wire \<Rightarrow> round \<Rightarrow> string \<Rightarrow> addr \<Rightarrow> 'sc QUICStreamHandler \<times> quic_stream \<Rightarrow>
      ('sc QUICStreamHandler \<times> quic_stream) \<times> (auth_error, unit) go" where
  "performAuthentication w rd gen fresh = (\<lambda>(h, q).
     let (q, r) = qs_read_some (nat (bufferSize h)) q in
     with_recv (h, q) (go_map_err AuthRead r) (\<lambda>bs.
     with_recv (h, q)
       (go_map_err AuthParse
         (ToInternal w (rd_stamp rd) ConnectionTypeQUIC FormatTypeBinary
           \<lparr>visible = bs, spare = replicate (nat (bufferSize h) - length bs) 0\<rparr>))
       (\<lambda>authMsg.
     let sid = (if SessionID authMsg = [] then gen else SessionID authMsg);
         (sm, _) = SM_GetOrCreate fresh (rd_now rd) sid (sessionManager h);
         h = h\<lparr>qh_sessionID := sid, sessionManager := sm\<rparr>
     in with_recv (h, q)
          (go_map_err AuthConvert (FromInternal w ConnectionTypeQUIC FormatTypeBinary (authResponse sid)))
          (\<lambda>bs.
        let (q, r) = write_framed bs q in ((h, q), go_map_err AuthWrite r)))))"

definition sendResponse :: "wire \<Rightarrow> Message \<Rightarrow> quic_stream \<Rightarrow> quic_stream \<times> (gw_error, unit) go" where
  "sendResponse w response q =
     with_recv q (go_map_err FromInternalFailed (FromInternal w ConnectionTypeQUIC FormatTypeBinary response))
       (\<lambda>bs. let (q, r) = write_framed bs q in (q, go_map_err SendFailed r))"

text \<open>
  The content of one message: conversion, the time of the session, the message handler, and the answer.
  Errors are logged and the loop goes on.
\<close>

definition handle_content ::
    "wire \<Rightarrow> ('m \<Rightarrow> route_event \<Rightarrow> Message \<Rightarrow> 'm \<times> ('he, Message option) go) \<Rightarrow> round \<Rightarrow> byte list \<Rightarrow>
      'sc QUICStreamHandler \<times> 'm \<times> quic_stream \<Rightarrow> (unit, 'sc QUICStreamHandler \<times> 'm \<times> quic_stream) go" where
  "handle_content w hm rd content = (\<lambda>(h, mh, q).
     let session = SM_GetSession (qh_sessionID h) (sessionManager h) in
     case ToInternal w (rd_stamp rd) ConnectionTypeQUIC FormatTypeBinary (exact_slice content) of
       Panic \<Rightarrow> Panic
     | Fail _ \<Rightarrow> Ret (h, mh, q)
     | Ret msg \<Rightarrow>
         let msg = msg\<lparr>SessionID := qh_sessionID h\<rparr>;
             sm = sessionManager h;
             sm = (case session of
                     None \<Rightarrow> sm
                   | Some a \<Rightarrow> sm\<lparr>sm_heap := (sm_heap sm)(a := UpdateLastActiveTime (rd_now rd) (sm_heap sm a))\<rparr>);
             h = h\<lparr>sessionManager := sm\<rparr>;
             (mh, res) = hm mh (rd_event rd) msg
         in (case res of
               Panic \<Rightarrow> Panic
             | Fail _ \<Rightarrow> Ret (h, mh, q)
             | Ret None \<Rightarrow> Ret (h, mh, q)
             | Ret (Some response) \<Rightarrow>
                 let (q, r) = sendResponse w response q
                 in if r = Panic then Panic else Ret (h, mh, q)))"

text \<open>One round of the loop of \<^verbatim>\<open>handleStream\<close>; the flag says whether the loop goes on.\<close>

definition stream_round ::
    "wire \<Rightarrow> ('m \<Rightarrow> route_event \<Rightarrow> Message \<Rightarrow> 'm \<times> ('he, Message option) go) \<Rightarrow> round \<Rightarrow>
      'sc QUICStreamHandler \<times> 'm \<times> quic_stream \<Rightarrow> (unit, bool \<times> 'sc QUICStreamHandler \<times> 'm \<times> quic_stream) go" where
  "stream_round w hm rd = (\<lambda>(h, mh, q).
     let (q, r) = qs_read_full 4 q in
     case read_with get32 r of
       Panic \<Rightarrow> Panic
     | Fail _ \<Rightarrow> Ret (False, h, mh, q)
     | Ret msgLen \<Rightarrow>
         if word_of_int (bufferSize h) < msgLen then Ret (False, h, mh, q)
         else
           let (q, r) = qs_read_full (unat msgLen) q in
           (case r of
              Panic \<Rightarrow> Panic
            | Fail _ \<Rightarrow> Ret (False, h, mh, q)
            | Ret content \<Rightarrow> go_bind (handle_content w hm rd content (h, mh, q)) (\<lambda>s. Ret (True, s))))"

text \<open>The loop; the rounds are the fuel, and \<^term>\<open>None\<close> means that it has not returned yet.\<close>

fun stream_loop ::
    "wire \<Rightarrow> ('m \<Rightarrow> route_event \<Rightarrow> Message \<Rightarrow> 'm \<times> ('he, Message option) go) \<Rightarrow> round list \<Rightarrow>
      'sc QUICStreamHandler \<times> 'm \<times> quic_stream \<Rightarrow> (unit, 'sc QUICStreamHandler \<times> 'm \<times> quic_stream) go option" where
  "stream_loop w hm [] s = None"
| "stream_loop w hm (rd # rds) s =
     (case stream_round w hm rd s of
        Panic \<Rightarrow> Some Panic
      | Fail e \<Rightarrow> Some (Fail e)
      | Ret (goes_on, s) \<Rightarrow> if goes_on then stream_loop w hm rds s else Some (Ret s))"

text \<open>The deferred function: the stream is closed and leaves the table.\<close>

definition end_stream :: "nat \<Rightarrow> 'sc QUICStreamHandler \<Rightarrow> 'sc QUICStreamHandler" where
  "end_stream i h = h\<lparr>qh_streams := qh_streams h |-| {|i|}, qh_live := fmdrop i (qh_live h)\<rparr>"

text \<open>
  The start of \<^verbatim>\<open>handleStream\<close>: the buffer and the check for authentication, and then the authentication, between
  which other streams may run.
\<close>

definition stream_check :: "nat \<Rightarrow> quic_stream \<Rightarrow> 'sc QUICStreamHandler \<Rightarrow> (unit, 'sc QUICStreamHandler) go" where
  "stream_check i q h =
     (if bufferSize h < 0 then Panic
      else Ret (h\<lparr>qh_live := fmupd i (if authenticated h then Serving else Authenticating, q) (qh_live h)\<rparr>))"

definition stream_authenticate ::
    "wire \<Rightarrow> round \<Rightarrow> string \<Rightarrow> addr \<Rightarrow> nat \<Rightarrow> quic_stream \<Rightarrow> 'sc QUICStreamHandler \<Rightarrow> (unit, 'sc QUICStreamHandler) go" where
  "stream_authenticate w rd gen fresh i q h =
     (let ((h, q), res) = performAuthentication w rd gen fresh (h, q)
      in case res of
           Panic \<Rightarrow> Panic
         | Fail _ \<Rightarrow> Ret (end_stream i h)
         | Ret _ \<Rightarrow> Ret (h\<lparr>authenticated := True, qh_live := fmupd i (Serving, q) (qh_live h)\<rparr>))"

definition stream_message ::
    "wire \<Rightarrow> ('m \<Rightarrow> route_event \<Rightarrow> Message \<Rightarrow> 'm \<times> ('he, Message option) go) \<Rightarrow> round \<Rightarrow> nat \<Rightarrow> quic_stream \<Rightarrow>
      'sc QUICStreamHandler \<times> 'm \<Rightarrow> (unit, 'sc QUICStreamHandler \<times> 'm) go" where
  "stream_message w hm rd i q = (\<lambda>(h, mh).
     go_bind (stream_round w hm rd (h, mh, q)) (\<lambda>(goes_on, h, mh, q).
       Ret (if goes_on then h\<lparr>qh_live := fmupd i (Serving, q) (qh_live h)\<rparr> else end_stream i h, mh)))"

text \<open>
  \<^verbatim>\<open>Close\<close> ends the context, closes all streams of the table and removes the session. The goroutines of the
  streams do not look at the context.
\<close>

definition close_streams :: "nat fset \<Rightarrow> (nat, phase \<times> quic_stream) fmap \<Rightarrow> (nat, phase \<times> quic_stream) fmap" where
  "close_streams ids = fmmap_keys (\<lambda>i (p, q). (p, if i |\<in>| ids then q\<lparr>qs_closed := True\<rparr> else q))"

definition QUICStreamHandler_Close :: "'sc QUICStreamHandler \<Rightarrow> 'sc QUICStreamHandler" where
  "QUICStreamHandler_Close h =
     (let h = h\<lparr>qh_cancelled := True, qh_live := close_streams (qh_streams h) (qh_live h), qh_streams := {||}\<rparr>
      in if qh_sessionID h \<noteq> [] then h\<lparr>sessionManager := fst (SM_RemoveSession (qh_sessionID h) (sessionManager h))\<rparr>
         else h)"

section \<open>Runs\<close>

text \<open>The streams of a connection at work; a step that panics ends the process and is not continued.\<close>

inductive qh_step ::
    "wire \<Rightarrow> ('m \<Rightarrow> route_event \<Rightarrow> Message \<Rightarrow> 'm \<times> ('he, Message option) go) \<Rightarrow>
      'sc QUICStreamHandler \<times> 'm \<Rightarrow> 'sc QUICStreamHandler \<times> 'm \<Rightarrow> bool" for w hm where
  accept: "fmlookup (qh_live h) i = None \<Longrightarrow> qh_step w hm (h, mh) (accept_stream i q h, mh)"
| check: "fmlookup (qh_live h) i = Some (Arrived, q) \<Longrightarrow> stream_check i q h = Ret h' \<Longrightarrow> qh_step w hm (h, mh) (h', mh)"
| authenticate: "fmlookup (qh_live h) i = Some (Authenticating, q) \<Longrightarrow>
    stream_authenticate w rd gen fresh i q h = Ret h' \<Longrightarrow> qh_step w hm (h, mh) (h', mh)"
| message: "fmlookup (qh_live h) i = Some (Serving, q) \<Longrightarrow> stream_message w hm rd i q (h, mh) = Ret s \<Longrightarrow>
    qh_step w hm (h, mh) s"
| close: "qh_step w hm (h, mh) (QUICStreamHandler_Close h, mh)"

inductive qh_reach ::
    "wire \<Rightarrow> ('m \<Rightarrow> route_event \<Rightarrow> Message \<Rightarrow> 'm \<times> ('he, Message option) go) \<Rightarrow>
      'sc QUICStreamHandler \<times> 'm \<Rightarrow> bool" for w hm where
  init: "qh_reach w hm (Handle_start gen fresh now conn (NewQUICStreamHandler sm bufSize), mh)"
| step: "qh_reach w hm s \<Longrightarrow> qh_step w hm s s' \<Longrightarrow> qh_reach w hm s'"

section \<open>A sample connection\<close>

text \<open>Eight bytes of buffer; a client that sends one message of five bytes, framed or for authentication.\<close>

definition sample_streams :: "unit QUICStreamHandler" where
  "sample_streams =
     NewQUICStreamHandler (NewSessionManager (\<lambda>_. NewSession [] ConnectionTypeQUIC 0 sample_conn) 60) 8"

definition sample_stream :: "byte list \<Rightarrow> quic_stream" where
  "sample_stream bs = \<lparr>qs_in = bs, qs_chunk = 100, qs_out = [], qs_fail = [], qs_closed = False\<rparr>"

definition sample_handler :: "((string, int) fmap, unit) SimpleMessageHandler" where
  "sample_handler = NewSimpleMessageHandler None"

definition sample_content :: "byte list" where
  "sample_content = binary_wire (NewMessage 0 1 2 [])"

abbreviation sample_hm where
  "sample_hm \<equiv> Simple_HandleMessage RoundRobin_SelectInstance"

lemma sample_content_length: "length sample_content = 5"
  by (simp add: sample_content_def binary_wire_def NewMessage_def)

section \<open>Framing\<close>

lemma quic_binary:
  "ToInternal w now ConnectionTypeQUIC FormatTypeBinary d = binary_to_internal now d"
  "FromInternal w ConnectionTypeQUIC FormatTypeBinary m = Ret (binary_wire m)"
  by (simp_all add: ToInternal_def FromInternal_def convertQUICToInternal_def convertInternalToQUIC_def
      internal_to_binary_wire ConnectionTypeQUIC_def ConnectionTypeWebSocket_def)

definition stream_frame :: "byte list \<Rightarrow> byte list" where
  "stream_frame f = be32 (word_of_nat (length f)) @ f"

text \<open>Message contents handled one after the other.\<close>

fun contents ::
    "wire \<Rightarrow> ('m \<Rightarrow> route_event \<Rightarrow> Message \<Rightarrow> 'm \<times> ('he, Message option) go) \<Rightarrow> (round \<times> byte list) list \<Rightarrow>
      'sc QUICStreamHandler \<times> 'm \<times> quic_stream \<Rightarrow> (unit, 'sc QUICStreamHandler \<times> 'm \<times> quic_stream) go" where
  "contents w hm [] s = Ret s"
| "contents w hm ((rd, f) # xs) s = go_bind (handle_content w hm rd f s) (contents w hm xs)"

lemma stream_write_in: "stream_write bs (q\<lparr>qs_in := x\<rparr>) = (let (q, r) = stream_write bs q in (q\<lparr>qs_in := x\<rparr>, r))"
  by (simp add: stream_write_def qs_write_def Let_def)

lemma write_framed_in: "write_framed bs (q\<lparr>qs_in := x\<rparr>) = (let (q, r) = write_framed bs q in (q\<lparr>qs_in := x\<rparr>, r))"
  by (cases "stream_write (be32 (word_of_nat (length bs))) q")
    (simp add: write_framed_def stream_write_in with_recv_def split: go.split)

lemma sendResponse_in: "sendResponse w m (q\<lparr>qs_in := x\<rparr>) = (let (q, r) = sendResponse w m q in (q\<lparr>qs_in := x\<rparr>, r))"
  by (simp add: sendResponse_def write_framed_in with_recv_def Let_def split: go.split prod.split)

lemma handle_content_in:
  "handle_content w hm rd f (h, mh, q\<lparr>qs_in := x\<rparr>) =
     go_bind (handle_content w hm rd f (h, mh, q)) (\<lambda>(h, mh, q). Ret (h, mh, q\<lparr>qs_in := x\<rparr>))"
  by (simp add: handle_content_def Let_def sendResponse_in split: go.split prod.split option.split)

lemma handle_content_size: "handle_content w hm rd f (h, mh, q) = Ret (h', mh', q') \<Longrightarrow> bufferSize h' = bufferSize h"
  by (auto simp: handle_content_def Let_def split: go.splits prod.splits option.splits if_splits)


lemma handle_content_keeps_in: "handle_content w hm rd f (h, mh, q) = Ret (h', mh', q') \<Longrightarrow> qs_in q' = qs_in q"
  using handle_content_in [where w = w and hm = hm and rd = rd and f = f and h = h and mh = mh and q = q and x = "qs_in q"]
  by (cases q') auto

text \<open>A round on a stream that starts with a frame handles the content of the frame.\<close>

lemma round_frame:
  assumes "0 \<le> bufferSize h" "bufferSize h < 2 ^ 32" "int (length f) \<le> bufferSize h" "qs_in q = stream_frame f @ rest"
  shows "stream_round w hm rd (h, mh, q) =
    go_bind (handle_content w hm rd f (h, mh, q\<lparr>qs_in := rest\<rparr>)) (\<lambda>s. Ret (True, s))"
proof -
  have n: "unat (word_of_nat (length f) :: u32) = length f"
    using assms(2,3) by (simp add: unat_of_nat take_bit_nat_eq_self_iff)
  have "\<not> (word_of_int (bufferSize h) :: u32) < word_of_nat (length f)"
  proof -
    have "uint (word_of_int (bufferSize h) :: u32) = bufferSize h"
      using assms(1,2) by (simp add: uint_word_of_int)
    moreover have "uint (word_of_nat (length f) :: u32) = int (length f)"
      using n by (metis uint_nat)
    ultimately show ?thesis
      using assms(3) by (simp add: word_less_def)
  qed
  moreover have "qs_read_full 4 q = (q\<lparr>qs_in := f @ rest\<rparr>, Ret (be32 (word_of_nat (length f))))"
    using assms(4) be32.put_length [of "word_of_nat (length f)"] by (simp add: qs_read_full_def stream_frame_def)
  moreover have "qs_read_full (length f) (q\<lparr>qs_in := f @ rest\<rparr>) = (q\<lparr>qs_in := rest\<rparr>, Ret f)"
    by (simp add: qs_read_full_def)
  moreover have "get32 (be32 (word_of_nat (length f))) = Some (word_of_nat (length f))"
    using be32.get_put [of "word_of_nat (length f)" "[]"] by simp
  ultimately show ?thesis
    by (simp add: stream_round_def read_with_def n)
qed

lemma stream_loop_contents:
  assumes "0 \<le> bufferSize h" "bufferSize h < 2 ^ 32" "list_all (\<lambda>f. int (length f) \<le> bufferSize h) fs"
    and "length rds = length fs" "qs_in q = concat (map stream_frame fs)"
  shows "stream_loop w hm (rds @ [rd]) (h, mh, q) = Some (contents w hm (zip rds fs) (h, mh, q\<lparr>qs_in := []\<rparr>))"
  using assms
proof (induction fs arbitrary: rds h mh q)
  case Nil
  then show ?case
    by (simp add: stream_round_def qs_read_full_def read_with_def)
next
  case (Cons f fs)
  obtain r rs where rds: "rds = r # rs"
    using Cons(5) by (cases rds) auto
  let ?rest = "concat (map stream_frame fs)"
  have round: "stream_round w hm r (h, mh, q) =
      go_bind (handle_content w hm r f (h, mh, q\<lparr>qs_in := ?rest\<rparr>)) (\<lambda>s. Ret (True, s))"
    using Cons.prems by (intro round_frame) simp_all
  have comm: "handle_content w hm r f (h, mh, q\<lparr>qs_in := ?rest\<rparr>) =
      go_bind (handle_content w hm r f (h, mh, q\<lparr>qs_in := []\<rparr>)) (\<lambda>(h, mh, q). Ret (h, mh, q\<lparr>qs_in := ?rest\<rparr>))"
    using handle_content_in [where q = "q\<lparr>qs_in := []\<rparr>" and x = ?rest] by simp
  show ?case
  proof (cases "handle_content w hm r f (h, mh, q\<lparr>qs_in := []\<rparr>)")
    case (Ret s)
    obtain h' mh' q' where s: "s = (h', mh', q')"
      by (cases s) auto
    have q': "qs_in q' = []"
      using handle_content_keeps_in Ret s by fastforce
    have size: "bufferSize h' = bufferSize h"
      using handle_content_size Ret s by fastforce
    have "stream_loop w hm (rs @ [rd]) (h', mh', q'\<lparr>qs_in := ?rest\<rparr>) =
        Some (contents w hm (zip rs fs) (h', mh', q'\<lparr>qs_in := ?rest\<rparr>\<lparr>qs_in := []\<rparr>))"
      using Cons.prems rds size by (intro Cons.IH) simp_all
    moreover have "q'\<lparr>qs_in := []\<rparr> = q'"
      using q' by simp
    ultimately show ?thesis
      using rds round comm Ret s by simp
  qed (use rds round comm in simp_all)
qed


text \<open>C17: A stream of frames that fit the buffer, cut into messages by the loop of handleStream, is handled exactly as the
  sequence of the contents: every message is handed on once and in order, answers are written in order, and
  the loop returns at the end of the stream.\<close>

theorem stream_serves_frames:
  assumes "0 \<le> bufferSize h" "bufferSize h < 2 ^ 32" "list_all (\<lambda>f. int (length f) \<le> bufferSize h) fs"
    and "length rds = length fs" "qs_in q = concat (map stream_frame fs)"
  shows "stream_loop w hm (rds @ [rd]) (h, mh, q) = Some (contents w hm (zip rds fs) (h, mh, q\<lparr>qs_in := []\<rparr>))"
  using assms by (rule stream_loop_contents)

theorem stream_serves_frames_witness:
  "stream_loop sample_any sample_hm [sample_round, sample_round]
     (sample_streams, sample_handler, sample_stream (stream_frame sample_content)) =
   Some (Ret (sample_streams, sample_handler, sample_stream []))"
proof -
  have "handle_content sample_any sample_hm sample_round sample_content (sample_streams, sample_handler, sample_stream []) =
      Ret (sample_streams, sample_handler, sample_stream [])"
    using binary_to_internal_wire [of "exact_slice sample_content" "NewMessage 0 1 2 []"]
    by (simp add: handle_content_def quic_binary sample_content_def SM_GetSession_def sample_streams_def
        NewQUICStreamHandler_def NewSessionManager_def Simple_HandleMessage_def sample_handler_def
        NewSimpleMessageHandler_def)
  then show ?thesis
    using stream_serves_frames [of sample_streams "[sample_content]" "[sample_round]"
        "sample_stream (stream_frame sample_content)" sample_any sample_hm sample_round sample_handler]
    by (simp add: sample_streams_def NewQUICStreamHandler_def sample_stream_def sample_content_length)
qed

text \<open>Each round that goes on uses up the four bytes of a length, so the loop returns.\<close>

lemma round_consumes:
  assumes "stream_round w hm rd (h, mh, q) = Ret (True, h', mh', q')"
  shows "length (qs_in q') + 4 \<le> length (qs_in q)"
proof -
  obtain f q0 where f: "handle_content w hm rd f (h, mh, q0) = Ret (h', mh', q')" and
      q0: "length (qs_in q0) + 4 \<le> length (qs_in q)"
    using assms
    by (fastforce simp: stream_round_def qs_read_full_def read_with_def Let_def go_bind_Ret_iff
        split: if_splits go.splits option.splits)
  show ?thesis
    using handle_content_keeps_in [OF f] q0 by simp
qed

lemma stream_loop_returns:
  "length (qs_in q) div 4 < length rds \<Longrightarrow> \<exists>r. stream_loop w hm rds (h, mh, q) = Some r"
proof (induction rds arbitrary: h mh q)
  case (Cons rd rds)
  show ?case
  proof (cases "stream_round w hm rd (h, mh, q)")
    case (Ret x)
    obtain goes_on h' mh' q' where x: "x = (goes_on, h', mh', q')"
      by (cases x) auto
    show ?thesis
    proof (cases goes_on)
      case True
      have "length (qs_in q') + 4 \<le> length (qs_in q)"
        using round_consumes Ret x True by fastforce
      then have "length (qs_in q') div 4 < length rds"
        using Cons.prems by simp
      then show ?thesis
        using Cons.IH [of q' h' mh'] Ret x True by simp
    qed (use Ret x in simp)
  qed simp_all
qed simp

section \<open>Sessions\<close>

text \<open>The binary format carries no session ID.\<close>

lemma binary_no_session: "ToInternal w now ConnectionTypeQUIC FormatTypeBinary d = Ret m \<Longrightarrow> SessionID m = []"
  by (auto simp: quic_binary binary_to_internal_def NewMessage_def go_bind_Ret_iff split: if_splits)

lemma auth_new_session:
  assumes "performAuthentication w rd gen fresh (h, q) = ((h', q'), Ret ())"
  shows "h' = h\<lparr>qh_sessionID := gen, sessionManager := fst (SM_GetOrCreate fresh (rd_now rd) gen (sessionManager h))\<rparr>"
  using assms
  by (auto simp: performAuthentication_def with_recv_def Let_def binary_no_session
      split: prod.splits go.splits)

text \<open>Authentication never uses the session that the connection was given when it was accepted: it always generates
  a new ID, and the first session stays in the session manager, open, after the handler is closed and the
  second one removed.\<close>

theorem first_session_abandoned:
  assumes new: "fmlookup (sm_sessions (sessionManager h)) i = None" "fmlookup (sm_sessions (sessionManager h)) j = None"
    and ids: "i \<noteq> j" "j \<noteq> []" "a \<noteq> b"
    and auth: "performAuthentication w rd j b (Handle_start i a now conn h, q) = ((h', q'), Ret ())"
  shows "qh_sessionID h' = j \<and>
    fmlookup (sm_sessions (sessionManager h')) j = Some b \<and>
    fmlookup (sm_sessions (sessionManager (QUICStreamHandler_Close h'))) j = None \<and>
    fmlookup (sm_sessions (sessionManager (QUICStreamHandler_Close h'))) i = Some a \<and>
    \<not> closed (sm_heap (sessionManager (QUICStreamHandler_Close h')) a)"
proof -
  let ?h = "Handle_start i a now conn h"
  have start: "fmlookup (sm_sessions (sessionManager ?h)) i = Some a" "fmlookup (sm_sessions (sessionManager ?h)) j = None"
    "\<not> closed (sm_heap (sessionManager ?h) a)"
    using new ids by (simp_all add: Handle_start_def Let_def SM_AddSession_def NewSessionWithQUIC_def)
  show ?thesis
    unfolding auth_new_session [OF auth]
    using start ids by (simp add: SM_GetOrCreate_def QUICStreamHandler_Close_def SM_RemoveSession_def Let_def)
qed

lemma sample_authentication:
  assumes "bufferSize h = 8"
  obtains h' q' where
    "performAuthentication sample_any sample_round gen fresh (h, sample_stream sample_content) = ((h', q'), Ret ())"
proof -
  let ?p = "performAuthentication sample_any sample_round gen fresh (h, sample_stream sample_content)"
  have "sample_content \<noteq> []"
    using sample_content_length by auto
  then have "qs_read_some 8 (sample_stream sample_content) = (sample_stream [], Ret sample_content)"
    by (simp add: qs_read_some_def sample_stream_def sample_content_length Let_def)
  then have "snd ?p = Ret ()"
    using assms binary_to_internal_wire [of "\<lparr>visible = sample_content, spare = [0, 0, 0]\<rparr>" "NewMessage 0 1 2 []"]
    by (simp add: performAuthentication_def quic_binary sample_content_length sample_content_def [symmetric]
        numeral_3_eq_3 write_framed_def stream_write_def qs_write_def sample_stream_def Let_def split: prod.split)
  then show thesis
    using that by (metis prod.collapse)
qed

definition sample_accepted :: "unit QUICStreamHandler" where
  "sample_accepted = Handle_start ''a'' 0 0 \<lparr>qc_closed = False, qc_close_fail = False\<rparr> sample_streams"

lemma sample_accepted_size: "bufferSize sample_accepted = 8"
  by (simp add: sample_accepted_def Handle_start_def sample_streams_def NewQUICStreamHandler_def Let_def)

theorem first_session_abandoned_witness:
  "\<exists>h' q'. performAuthentication sample_any sample_round ''b'' 1 (sample_accepted, sample_stream sample_content) =
      ((h', q'), Ret ()) \<and>
    fmlookup (sm_sessions (sessionManager (QUICStreamHandler_Close h'))) ''a'' = Some 0"
proof -
  obtain h' q' where p: "performAuthentication sample_any sample_round ''b'' 1
      (sample_accepted, sample_stream sample_content) = ((h', q'), Ret ())"
    using sample_authentication [OF sample_accepted_size] .
  show ?thesis
    using first_session_abandoned [OF _ _ _ _ _ p [unfolded sample_accepted_def]] p
    by (auto simp: sample_streams_def NewQUICStreamHandler_def NewSessionManager_def)
qed

text \<open>
  The authentication message is read with one \<^verbatim>\<open>Read\<close> of the whole buffer, without a length: what
  the client has sent behind it is taken as its payload and lost.
\<close>

lemma authentication_swallows:
  assumes "performAuthentication w rd gen fresh (h, q) = ((h', q'), Ret ())"
  shows "qs_in q' = drop (min (nat (bufferSize h)) (min (Suc (qs_chunk q)) (length (qs_in q)))) (qs_in q)"
proof -
  have in_write: "qs_in (fst (stream_write bs q)) = qs_in q" for bs q
    by (simp add: stream_write_def qs_write_def Let_def)
  have in_framed: "qs_in (fst (write_framed bs q)) = qs_in q" for bs q
    using in_write by (simp add: write_framed_def with_recv_def split: prod.split go.split) (metis fst_conv)
  show ?thesis
    using assms in_framed
    by (auto simp: performAuthentication_def with_recv_def Let_def qs_read_some_def split: prod.splits go.splits if_splits)
      (metis fst_conv quic_stream.select_convs(1) quic_stream.update_convs(1) quic_stream.surjective)+
qed

section \<open>Authentication comes first\<close>

definition qh_ok :: "'sc QUICStreamHandler \<Rightarrow> bool" where
  "qh_ok h \<longleftrightarrow> qh_streams h |\<subseteq>| fmdom (qh_live h) \<and>
     (\<forall>i q. fmlookup (qh_live h) i = Some (Serving, q) \<longrightarrow> authenticated h)"

lemma handle_content_same:
  "handle_content w hm rd f (h, mh, q) = Ret (h', mh', q') \<Longrightarrow>
     qh_live h' = qh_live h \<and> qh_streams h' = qh_streams h \<and> authenticated h' = authenticated h"
  by (auto simp: handle_content_def Let_def split: go.splits prod.splits option.splits if_splits)

lemma stream_round_same:
  "stream_round w hm rd (h, mh, q) = Ret (goes_on, h', mh', q') \<Longrightarrow>
     qh_live h' = qh_live h \<and> qh_streams h' = qh_streams h \<and> authenticated h' = authenticated h"
  by (auto simp: stream_round_def Let_def go_bind_Ret_iff dest: handle_content_same split: go.splits prod.splits if_splits)

lemma performAuthentication_same:
  "performAuthentication w rd gen fresh (h, q) = ((h', q'), r) \<Longrightarrow>
     qh_live h' = qh_live h \<and> qh_streams h' = qh_streams h \<and> authenticated h' = authenticated h"
  by (auto simp: performAuthentication_def with_recv_def Let_def split: go.splits prod.splits)

lemma end_stream_ok: "qh_ok h \<Longrightarrow> qh_ok (end_stream i h)"
  by (auto simp: qh_ok_def end_stream_def)

lemma qh_step_ok: "qh_step w hm s s' \<Longrightarrow> qh_ok (fst s) \<Longrightarrow> qh_ok (fst s')"
proof (induction rule: qh_step.induct)
  case (authenticate h i q rd gen fresh h' mh)
  then show ?case
    by (auto simp: stream_authenticate_def Let_def qh_ok_def end_stream_def dest!: performAuthentication_same
        split: prod.splits go.splits if_splits)
next
  case (message h i q rd mh s)
  obtain goes_on h' mh' q' where r: "stream_round w hm rd (h, mh, q) = Ret (goes_on, h', mh', q')" and
      s: "s = (if goes_on then h'\<lparr>qh_live := fmupd i (Serving, q') (qh_live h')\<rparr> else end_stream i h', mh')"
    using message(2) by (auto simp: stream_message_def go_bind_Ret_iff)
  have "qh_ok h'"
    using stream_round_same [OF r] message(3) by (simp add: qh_ok_def)
  moreover have "authenticated h'"
    using stream_round_same [OF r] message(1,3) by (auto simp: qh_ok_def)
  ultimately show ?case
    unfolding s by (cases goes_on) (auto simp: end_stream_ok, auto simp: qh_ok_def)
qed (auto simp: qh_ok_def accept_stream_def stream_check_def QUICStreamHandler_Close_def close_streams_def Let_def
    split: if_splits prod.splits)




text \<open>Closing the handler does not stop the goroutines of its streams: they go on with what the client sends.\<close>

lemma close_keeps_serving:
  assumes "fmlookup (qh_live h) i = Some (Serving, q)"
  shows "\<exists>q'. fmlookup (qh_live (QUICStreamHandler_Close h)) i = Some (Serving, q') \<and> qs_in q' = qs_in q"
  using assms by (simp add: QUICStreamHandler_Close_def close_streams_def Let_def)

section \<open>Requests over QUIC\<close>

text \<open>A message is served when its type names a service with an instance that is up.\<close>

definition served :: "('lb, 'cb) MessageRouter \<Rightarrow> Message \<Rightarrow> bool" where
  "served r m \<longleftrightarrow>
     (case fmlookup (serviceMap r) (ServiceTypeOf m) of
        None \<Rightarrow> False
      | Some name \<Rightarrow>
          (case fmlookup (sd_instances (serviceDiscovery r)) name of None \<Rightarrow> False | Some is \<Rightarrow> available is \<noteq> []))"

lemma Route_answers:
  assumes count: "counters_upto (loadBalancer r) n" "n < max_int64" and "served r msg"
  shows "\<exists>r' m' name. Route RoundRobin_SelectInstance (ReplyAt now) r msg = (r', m', Ret (route_response now name m')) \<and>
    ServiceTypeOf m' = ServiceTypeOf msg \<and> MessageTypeOf m' = MessageTypeOf msg \<and> Flags m' = Flags msg \<and>
    counters_upto (loadBalancer r') (n + 1) \<and> serviceMap r' = serviceMap r \<and> serviceDiscovery r' = serviceDiscovery r"
proof -
  obtain name insts where name: "fmlookup (serviceMap r) (ServiceTypeOf msg) = Some name"
    and inst: "fmlookup (sd_instances (serviceDiscovery r)) name = Some insts" "available insts \<noteq> []"
    using assms(3) by (auto simp: served_def split: option.splits)
  obtain i where i: "snd (RoundRobin_SelectInstance (loadBalancer r) insts) = Ret i"
    using round_robin.select_some [OF inst(2) count] by blast
  have "counters_upto (fst (RoundRobin_SelectInstance (loadBalancer r) insts)) (n + 1)"
    by (rule round_robin.select_level [OF count])
  then show ?thesis
    using name inst i
    by (auto simp: Route_def route_select_def GetServiceName_def GetServiceInstances_def Let_def split_def)
qed


text \<open>What the client gets back for a message: its flags and types, and the placeholder of the router.\<close>

definition answer_of :: "Message \<Rightarrow> byte list" where
  "answer_of m = stream_frame (binary_wire (m\<lparr>Payload := placeholder\<rparr>))"

definition writable :: "quic_stream \<Rightarrow> bool" where
  "writable q \<longleftrightarrow> \<not> qs_closed q \<and> qs_fail q = []"

lemma sendResponse_writable:
  "writable q \<Longrightarrow> sendResponse w m q = (q\<lparr>qs_out := qs_out q @ stream_frame (binary_wire m)\<rparr>, Ret ())"
  by (simp add: sendResponse_def quic_binary write_framed_def stream_write_def qs_write_def writable_def stream_frame_def
      Let_def)

lemma handle_content_answers:
  assumes r: "mh_router mh = Some r" and count: "counters_upto (loadBalancer r) n" "n < max_int64"
    and m: "served r m" and ev: "rd_event rd = ReplyAt t" and q: "writable q"
  shows "\<exists>h' mh' r'. handle_content w (Simple_HandleMessage RoundRobin_SelectInstance) rd (binary_wire m) (h, mh, q) =
      Ret (h', mh', q\<lparr>qs_out := qs_out q @ answer_of m\<rparr>) \<and>
    mh_router mh' = Some r' \<and> counters_upto (loadBalancer r') (n + 1) \<and>
    serviceMap r' = serviceMap r \<and> serviceDiscovery r' = serviceDiscovery r"
proof -
  let ?m = "(NewMessage (rd_stamp rd) (ServiceTypeOf m) (MessageTypeOf m) (Payload m))
    \<lparr>Flags := Flags m, SessionID := qh_sessionID h\<rparr>"
  have "served r ?m"
    using m by (simp add: served_def NewMessage_def)
  from Route_answers [OF count this, of t] obtain r' m' name
    where route: "Route RoundRobin_SelectInstance (ReplyAt t) r ?m = (r', m', Ret (route_response t name m'))"
      and m': "ServiceTypeOf m' = ServiceTypeOf m" "MessageTypeOf m' = MessageTypeOf m" "Flags m' = Flags m"
      and r': "counters_upto (loadBalancer r') (n + 1)" "serviceMap r' = serviceMap r"
        "serviceDiscovery r' = serviceDiscovery r"
    by (auto simp: NewMessage_def)
  have wire: "stream_frame (binary_wire (route_response t name m')) = answer_of m"
    using m' by (simp add: answer_of_def binary_wire_def route_response_def)
  have conv: "binary_to_internal (rd_stamp rd) (exact_slice (binary_wire m)) =
      Ret ((NewMessage (rd_stamp rd) (ServiceTypeOf m) (MessageTypeOf m) (Payload m))\<lparr>Flags := Flags m\<rparr>)"
    by (rule binary_to_internal_wire) simp
  show ?thesis
    using r ev route wire r' sendResponse_writable [OF q, of w "route_response t name m'"]
    by (simp add: handle_content_def quic_binary conv Simple_HandleMessage_def Let_def)
qed

lemma contents_answers:
  assumes "mh_router mh = Some r" "counters_upto (loadBalancer r) n" "n + int (length ms) \<le> max_int64"
    and "list_all (served r) ms" "list_all (\<lambda>rd. \<exists>t. rd_event rd = ReplyAt t) rds" "length rds = length ms" "writable q"
  shows "\<exists>h' mh'. contents w (Simple_HandleMessage RoundRobin_SelectInstance) (zip rds (map binary_wire ms)) (h, mh, q) =
    Ret (h', mh', q\<lparr>qs_out := qs_out q @ concat (map answer_of ms)\<rparr>)"
  using assms
proof (induction ms arbitrary: rds h mh r n q)
  case (Cons m ms)
  obtain rd rs t where rds: "rds = rd # rs" "rd_event rd = ReplyAt t"
    using Cons.prems(5,6) by (cases rds) auto
  let ?q = "q\<lparr>qs_out := qs_out q @ answer_of m\<rparr>"
  have n: "n < max_int64" and m: "served r m"
    using Cons.prems(3,4) by simp_all
  obtain h' mh' r' where step: "handle_content w (Simple_HandleMessage RoundRobin_SelectInstance) rd (binary_wire m) (h, mh, q) =
      Ret (h', mh', ?q)" and r': "mh_router mh' = Some r'" "counters_upto (loadBalancer r') (n + 1)"
      "serviceMap r' = serviceMap r" "serviceDiscovery r' = serviceDiscovery r"
    using handle_content_answers [OF Cons.prems(1,2) n m rds(2) Cons.prems(7)] by blast
  have "served r' = served r"
    unfolding served_def fun_eq_iff r'(3,4) by simp
  then have "list_all (served r') ms"
    using Cons.prems(4) by simp
  then obtain h'' mh'' where "contents w (Simple_HandleMessage RoundRobin_SelectInstance) (zip rs (map binary_wire ms)) (h', mh', ?q) =
      Ret (h'', mh'', ?q\<lparr>qs_out := qs_out ?q @ concat (map answer_of ms)\<rparr>)"
    using Cons.IH [OF r'(1,2), of rs ?q h'] Cons.prems rds by (auto simp: writable_def)
  then show ?case
    using rds step by simp
qed simp

end
