(* ===== verification/Spec2Isabelle.thy ===== *)
theory Spec2Isabelle
  imports Message_Codec Rpc_Codec Handler_Registry Service_Routing Rpc_Balancing Protocol_Converter
    Crypto_Channel Gateway_Sessions Redis_Cache Redis_Lock Cache_Sync Async_Db Rpc_Simple Redis_PubSub Game_Server
    Rpc_Async Conn_Manager Quic_Streams Conn_Pools
begin

text \<open>
  A verification library for the Go game server under \<^verbatim>\<open>src/\<close>. Clients reach a gateway over WebSocket,
  encrypted WebSocket or QUIC; the gateway converts their messages to one internal format and routes them by service
  type to instances found through service discovery. Services call each other by RPC. Player positions are
  synchronised through an area-of-interest grid, and state is kept in PostgreSQL behind a Redis cache.

  \<^bold>\<open>Conventions.\<close> The theory \<^verbatim>\<open>Go_Prelude\<close> fixes how Go is read. A function returns \<open>Ret\<close>, \<open>Fail\<close> (an error
  value) or \<open>Panic\<close>; a method that changes its receiver also returns the new receiver. Machine integers are words, or
  \<open>int\<close> with \<open>wrap64\<close> where they are counted with. A slice has its visible bytes and its spare capacity, so that
  an index or slice expression panics exactly where Go does. Maps are finite maps; where a loop visits one,
  the order is an argument or the entries are a list. Objects that are shared by pointer live in a store and are
  named by their address. The clock, random bytes, generated IDs and the outcome of a wait are arguments.
  Goroutines are steps of an inductive relation on the shared state: a step is what runs between two points at which
  another goroutine can interfere, and properties of all interleavings are proved by induction on its reachable states.
  Libraries outside of the repository (encoding/json, protocol buffers, AES-GCM and P-256, the Redis and PostgreSQL
  clients, gRPC, QUIC, WebSocket) are parameters; what the code relies on is a named predicate, and a
  witness shows an instance of it. The prelude also holds the interface of a fixed-width codec and of length-prefixed
  fields, as locales that are interpreted for the 16, 32 and 64 bit codecs and used by all binary formats.

  \<^bold>\<open>Messages and routing.\<close>
  \<^item> \<^verbatim>\<open>Message_Codec\<close>: \<^verbatim>\<open>pkg/protocol/message.go\<close>. \<open>Encode\<close> and \<open>Decode\<close> round-trip exactly under the condition
    of \<open>Decode_Encode_iff\<close>, which shows the two bytes by which the header constant is too small, and \<open>Decode\<close> panics
    exactly on the slices of \<open>Decode_Panic_iff\<close>.
  \<^item> \<^verbatim>\<open>Handler_Registry\<close>: \<^verbatim>\<open>handler_registry.go\<close>. The two-level map refines a table keyed by pairs.
  \<^item> \<^verbatim>\<open>Service_Routing\<close>: \<^verbatim>\<open>router.go\<close>. Both balancers rotate as they should, every branch of \<open>Route\<close>, and how many
    messages can be routed before a counter wraps.
  \<^item> \<^verbatim>\<open>Protocol_Converter\<close> with \<^verbatim>\<open>Text_Codec\<close>: \<^verbatim>\<open>converter.go\<close>. All formats in both directions; the binary format
    round-trips, the protobuf format does not; the packed keys of the tables behave as pairs.

  \<^bold>\<open>The gateway.\<close>
  \<^item> \<^verbatim>\<open>Crypto_Channel\<close>: \<^verbatim>\<open>pkg/security/crypto.go\<close> and \<^verbatim>\<open>pkg/gateway/secure_connection.go\<close>. What one side sends the
    other receives; the window of time in which a message is accepted; which frames make the receiver panic.
  \<^item> \<^verbatim>\<open>Gateway_Sessions\<close>: \<^verbatim>\<open>session.go\<close> and \<^verbatim>\<open>handler.go\<close>. The read loop of a session returns and cleans up, the user index is exact,
    users are never indexed, and messages of secure sessions are never routed.
  \<^item> \<^verbatim>\<open>Quic_Streams\<close>: \<^verbatim>\<open>quic_stream_handler.go\<close>, \<^verbatim>\<open>gateway_handler.go\<close>, \<^verbatim>\<open>message_handler.go\<close>. The stream loop is the
    sequence of its messages, and authentication precedes service in every interleaving.

  \<^bold>\<open>Remote procedure calls.\<close>
  \<^item> \<^verbatim>\<open>Rpc_Codec\<close>: \<^verbatim>\<open>pkg/rpc/protocol.go\<close> and the serializers of \<^verbatim>\<open>rpc.go\<close>. Which inputs unmarshal, and to what.
  \<^item> \<^verbatim>\<open>Rpc_Balancing\<close>: \<^verbatim>\<open>load_balancer.go\<close>. Selectors give live instances and fair shares; no run of the registry
    sends on or closes a closed channel.
  \<^item> \<^verbatim>\<open>Rpc_Simple\<close>: \<^verbatim>\<open>client_standalone.go\<close> and \<^verbatim>\<open>server_standalone.go\<close>. A call gets the answer to its own request.
  \<^item> \<^verbatim>\<open>Rpc_Grpc\<close> and \<^verbatim>\<open>Rpc_Async\<close>: \<^verbatim>\<open>grpc_server.go\<close>, \<^verbatim>\<open>grpc_client.go\<close>, \<^verbatim>\<open>call.go\<close> and the registration of services in \<^verbatim>\<open>rpc.go\<close>.
    A call end to end with its retries, methods that are never found, and how often an asynchronous call is signalled.
  \<^item> \<^verbatim>\<open>Conn_Manager\<close>: \<^verbatim>\<open>conn_manager.go\<close>. At most one goroutine dials an endpoint; a wait with the write lock held never
    recovers; what happens to a connection that is still being made.

  \<^bold>\<open>Storage.\<close>
  \<^item> \<^verbatim>\<open>Redis_Cache\<close>, \<^verbatim>\<open>Redis_Lock\<close>, \<^verbatim>\<open>Redis_PubSub\<close>: \<^verbatim>\<open>pkg/redis/cache.go\<close>, \<^verbatim>\<open>lock.go\<close>, \<^verbatim>\<open>pubsub.go\<close>. A read is never stale, a lock is held by
    one process, and how often each handler runs for a published message.
  \<^item> \<^verbatim>\<open>Cache_Sync\<close>: \<^verbatim>\<open>pkg/db/cache_sync.go\<close>. The outcome of a flush for every entry, and reads after writes.
  \<^item> \<^verbatim>\<open>Async_Db\<close>: \<^verbatim>\<open>pkg/db/async.go\<close>. Every accepted operation is in exactly one place in every interleaving, and a worker
    answers every operation of an open queue.
  \<^item> \<^verbatim>\<open>Conn_Pools\<close>: \<^verbatim>\<open>pkg/db/connection_pool.go\<close> and \<^verbatim>\<open>pkg/redis/connection_pool.go\<close>. The statement counts are exact, and the
    context of a result is cancelled before the caller gets it.

  \<^bold>\<open>The game world.\<close>
  \<^item> \<^verbatim>\<open>Float32\<close> and \<^verbatim>\<open>Aoi_Grid\<close>: \<^verbatim>\<open>pkg/aoi/aoi.go\<close> over IEEE 754 single precision, written as rounding of rationals.
  \<^item> \<^verbatim>\<open>Player_Sync\<close>: \<^verbatim>\<open>pkg/sync/player_state.go\<close>. Which entities a player is shown, and every branch of a position request.
  \<^item> \<^verbatim>\<open>Game_Server\<close>: \<^verbatim>\<open>pkg/network/server.go\<close> and \<^verbatim>\<open>message_handler.go\<close>. The client table is well-formed in every reachable
    state; which operations stop for ever on the lock that they hold; which messages make the server panic.

  \<^bold>\<open>Across components.\<close> This theory shows the path of a request over QUIC: stream loop, converter, message
  handler, router, balancer, and back.

  \<^bold>\<open>Bounds and fuel.\<close> Loops that wait for a peer take the list of their rounds as fuel, and \<open>None\<close> means that
  they have not returned: \<open>session_loop_returns\<close> shows that one round more than there are frames is enough, and
  \<open>stream_loop_returns\<close> one more than a quarter of the bytes. The retry loop of a gRPC call has at most three
  attempts, as in the code. All other recursion is structural or has a measure. Identifiers of fewer than
  65536 bytes, frames of fewer than \<open>2 ^ 32\<close> bytes and counters below \<open>2 ^ 63\<close> are hypotheses where a width
  matters.

  \<^bold>\<open>Not modelled.\<close> The commands under \<^verbatim>\<open>cmd/\<close>, \<^verbatim>\<open>examples/\<close> and \<^verbatim>\<open>tools/\<close> only start components, print and
  wait for signals. \<^verbatim>\<open>websocket_server.go\<close>, \<^verbatim>\<open>secure_websocket_server.go\<close> and \<^verbatim>\<open>quic_server.go\<close> listen and hand each
  connection to the modelled handlers. \<^verbatim>\<open>pkg/metrics\<close> registers counters with the Prometheus library.
  \<^verbatim>\<open>pkg/config\<close> and \<^verbatim>\<open>gateway/config.go\<close> let a library fill structures from a file. \<^verbatim>\<open>factory.go\<close> and \<^verbatim>\<open>message_types.go\<close> choose constructors and declare
  constants, \<^verbatim>\<open>example_service.go\<close> is an example that keeps the last position of a player and answers with sample data, \<^verbatim>\<open>utils\<close> wraps a UUID generator, and the
  Go files of \<^verbatim>\<open>proto_define\<close> are generated. Of the modelled files, log lines, JSON views of sessions, listening on
  sockets and statistics in floating point are left out.
\<close>

section \<open>Requests of a QUIC client\<close>

text \<open>C2: A QUIC client whose stream is being served sends messages in frames that fit the buffer, each for a service
  with an instance that is up; then it receives, in order, one frame for every message, with the flags and types of
  the message and the content of the reply, and nothing else, from the stream loop over the converter and the router.\<close>

theorem quic_requests_answered:
  assumes "0 \<le> bufferSize h" "bufferSize h < 2 ^ 32"
    and "list_all (\<lambda>m. int (length (binary_wire m)) \<le> bufferSize h) ms" "list_all (served r) ms"
    and "mh_router mh = Some r" "counters_upto (loadBalancer r) n" "n + int (length ms) \<le> max_int64"
    and "list_all (\<lambda>rd. \<exists>t. rd_event rd = ReplyAt t) rds" "length rds = length ms"
    and "qs_in q = concat (map (\<lambda>m. stream_frame (binary_wire m)) ms)" "writable q"
  shows "\<exists>h' mh'. stream_loop w (Simple_HandleMessage RoundRobin_SelectInstance) (rds @ [rd]) (h, mh, q) =
    Some (Ret (h', mh', q\<lparr>qs_in := [], qs_out := qs_out q @ concat (map answer_of ms)\<rparr>))"
proof -
  have "stream_loop w (Simple_HandleMessage RoundRobin_SelectInstance) (rds @ [rd]) (h, mh, q) =
      Some (contents w (Simple_HandleMessage RoundRobin_SelectInstance) (zip rds (map binary_wire ms)) (h, mh, q\<lparr>qs_in := []\<rparr>))"
    using assms by (intro stream_loop_contents) (simp_all add: list.pred_map comp_def)
  moreover have "writable (q\<lparr>qs_in := []\<rparr>)"
    using assms(11) by (simp add: writable_def)
  ultimately show ?thesis
    using contents_answers [OF assms(5-7,4,8,9)] by fastforce
qed

theorem quic_requests_answered_witness:
  "\<exists>h' mh'. stream_loop sample_any (Simple_HandleMessage RoundRobin_SelectInstance) [sample_round, sample_round]
      (sample_streams, NewSimpleMessageHandler (Some sample_router),
       sample_stream (stream_frame (binary_wire (NewMessage 0 2 7 [])))) =
    Some (Ret (h', mh', (sample_stream [])\<lparr>qs_out := answer_of (NewMessage 0 2 7 [])\<rparr>))"
proof -
  have "served sample_router (NewMessage 0 2 7 [])"
    using sample_available
    by (simp add: served_def sample_router_def RegisterServiceType_def NewMessageRouter_def NewMessage_def)
  moreover have "counters_upto (loadBalancer sample_router) 0"
    by (simp add: sample_router_def RegisterServiceType_def NewMessageRouter_def counters_upto_fresh)
  moreover have "length (binary_wire (NewMessage 0 2 7 [])) = 5"
    by (simp add: binary_wire_def NewMessage_def)
  ultimately show ?thesis
    using quic_requests_answered [of sample_streams "[NewMessage 0 2 7 []]" sample_router
        "NewSimpleMessageHandler (Some sample_router)" 0 "[sample_round]"
        "sample_stream (stream_frame (binary_wire (NewMessage 0 2 7 [])))" sample_any sample_round]
    by (simp add: sample_streams_def NewQUICStreamHandler_def NewSimpleMessageHandler_def sample_round_def
        sample_stream_def writable_def max_int64_def)
qed

end
